(* ===== verification/Strings.thy ===== *)
theory Strings
  imports Prelude
begin

text \<open>
  The routines of Rust's \<open>str\<close> and integer parsing that the sources call, over byte
  strings, with the laws the components use: searching, splitting, trimming,
  decimal rendering and parsing, and UTF-8 decoding.
\<close>

section \<open>Prefixes and suffixes\<close>

definition starts_with :: "string \<Rightarrow> string \<Rightarrow> bool" where
  "starts_with s p \<longleftrightarrow> take (length p) s = p"

definition ends_with :: "string \<Rightarrow> string \<Rightarrow> bool" where
  "ends_with s p \<longleftrightarrow> length p \<le> length s \<and> drop (length s - length p) s = p"

definition strip_prefix :: "string \<Rightarrow> string \<Rightarrow> string option" where
  "strip_prefix s p = (if starts_with s p then Some (drop (length p) s) else None)"

definition strip_suffix :: "string \<Rightarrow> string \<Rightarrow> string option" where
  "strip_suffix s p = (if ends_with s p then Some (take (length s - length p) s) else None)"

lemma starts_with_iff: "starts_with s p \<longleftrightarrow> (\<exists>v. s = p @ v)"
  unfolding starts_with_def by (metis append_eq_conv_conj append_take_drop_id)

lemma starts_with_append [simp]: "starts_with (p @ v) p"
  by (simp add: starts_with_def)

lemma ends_with_iff: "ends_with s p \<longleftrightarrow> (\<exists>u. s = u @ p)"
proof
  assume "ends_with s p"
  then show "\<exists>u. s = u @ p"
    unfolding ends_with_def by (metis append_take_drop_id)
qed (auto simp: ends_with_def)

lemma ends_with_append [simp]: "ends_with (u @ p) p"
  by (simp add: ends_with_def)

lemma strip_prefix_append [simp]: "strip_prefix (p @ v) p = Some v"
  by (simp add: strip_prefix_def)

lemma strip_suffix_append [simp]: "strip_suffix (u @ p) p = Some u"
  by (simp add: strip_suffix_def)

lemma strip_prefix_Some_iff: "strip_prefix s p = Some v \<longleftrightarrow> s = p @ v"
  by (auto simp: strip_prefix_def starts_with_iff)

lemma strip_suffix_Some_iff: "strip_suffix s p = Some u \<longleftrightarrow> s = u @ p"
  by (auto simp: strip_suffix_def ends_with_iff)

section \<open>Searching\<close>

text \<open>\<open>str::find\<close> with a string pattern: the first byte offset.\<close>

fun find_sub :: "string \<Rightarrow> string \<Rightarrow> nat option" where
  "find_sub p [] = (if p = [] then Some 0 else None)"
| "find_sub p (c # cs) =
     (if starts_with (c # cs) p then Some 0 else map_option Suc (find_sub p cs))"

definition contains :: "string \<Rightarrow> string \<Rightarrow> bool" where
  "contains s p \<longleftrightarrow> find_sub p s \<noteq> None"

lemma find_sub_SomeD:
  "find_sub p s = Some i \<Longrightarrow> i \<le> length s \<and> starts_with (drop i s) p"
proof (induction p s arbitrary: i rule: find_sub.induct)
  case (1 p)
  then show ?case by (auto simp: starts_with_def split: if_splits)
next
  case (2 p c cs)
  then show ?case by (auto split: if_splits)
qed

lemma find_sub_first:
  "find_sub p s = Some i \<Longrightarrow> j < i \<Longrightarrow> \<not> starts_with (drop j s) p"
proof (induction p s arbitrary: i j rule: find_sub.induct)
  case (1 p)
  then show ?case by (auto split: if_splits)
next
  case (2 p c cs)
  then show ?case by (cases j) (auto split: if_splits)
qed

lemma find_sub_None_iff: "find_sub p s = None \<longleftrightarrow> (\<forall>j \<le> length s. \<not> starts_with (drop j s) p)"
proof (induction p s rule: find_sub.induct)
  case (1 p)
  then show ?case by (auto simp: starts_with_def)
next
  case (2 p c cs)
  show ?case
  proof (cases "starts_with (c # cs) p")
    case True
    then show ?thesis by force
  next
    case False
    have "(\<forall>j \<le> length (c # cs). \<not> starts_with (drop j (c # cs)) p) \<longleftrightarrow>
          (\<forall>j \<le> length cs. \<not> starts_with (drop j cs) p)"
    proof (intro iffI allI impI)
      fix j
      assume "\<forall>j \<le> length (c # cs). \<not> starts_with (drop j (c # cs)) p" and "j \<le> length cs"
      then show "\<not> starts_with (drop j cs) p" by (metis Suc_le_mono drop_Suc_Cons length_Cons)
    next
      fix j
      assume "\<forall>j \<le> length cs. \<not> starts_with (drop j cs) p" and "j \<le> length (c # cs)"
      with False show "\<not> starts_with (drop j (c # cs)) p" by (cases j) auto
    qed
    with 2 False show ?thesis by simp
  qed
qed

lemma find_sub_eqI:
  assumes "i \<le> length s" and "starts_with (drop i s) p"
    and "\<And>j. j < i \<Longrightarrow> \<not> starts_with (drop j s) p"
  shows "find_sub p s = Some i"
proof (cases "find_sub p s")
  case None
  with assms(1,2) show ?thesis by (auto simp: find_sub_None_iff)
next
  case (Some k)
  have "\<not> k < i" using find_sub_SomeD [OF Some] assms(3) by blast
  moreover have "\<not> i < k" using find_sub_first [OF Some] assms(2) by blast
  ultimately show ?thesis using Some by simp
qed

lemma starts_with_nth: "starts_with s p \<Longrightarrow> k < length p \<Longrightarrow> k < length s \<and> s ! k = p ! k"
  by (auto simp: starts_with_iff nth_append)

lemma starts_with_drop_nth:
  assumes "starts_with (drop j s) p" and "k < length p"
  shows "j + k < length s \<and> s ! (j + k) = p ! k"
proof -
  obtain v where v: "drop j s = p @ v" using assms(1) by (auto simp: starts_with_iff)
  have "length p \<le> length (drop j s)" unfolding v by simp
  with assms(2) have l: "j + k < length s" by simp
  have "s ! (j + k) = drop j s ! k" using l by simp
  also have "\<dots> = p ! k" unfolding v using assms(2) by (simp add: nth_append)
  finally show ?thesis using l by simp
qed

text \<open>
  A pattern whose first byte occurs nowhere else in it is found where it was put, if
  the text before it does not hold the pattern.
\<close>

lemma find_sub_unique_head:
  assumes p: "p = x # q" and x: "x \<notin> set q" and none: "find_sub p u = None"
  shows "find_sub p (u @ p @ v) = Some (length u)"
proof (rule find_sub_eqI)
  fix j
  assume j: "j < length u"
  show "\<not> starts_with (drop j (u @ p @ v)) p"
  proof
    assume occ: "starts_with (drop j (u @ p @ v)) p"
    show False
    proof (cases "j + length p \<le> length u")
      case True
      then have "take (length p) (drop j u) = take (length p) (drop j (u @ p @ v))"
        by simp
      also have "\<dots> = p" using occ unfolding starts_with_def .
      finally have "starts_with (drop j u) p" unfolding starts_with_def .
      moreover have "\<not> starts_with (drop j u) p"
        using none j less_imp_le unfolding find_sub_None_iff by blast
      ultimately show False by contradiction
    next
      case False
      let ?k = "length u - j"
      from False j have k: "0 < ?k" "?k < length p" by auto
      have "(u @ p @ v) ! (length u) = x" by (simp add: p)
      then have "p ! ?k = x" using starts_with_drop_nth [OF occ k(2)] j by simp
      then have "q ! (?k - 1) = x" using k(1) by (simp add: p nth_Cons')
      moreover have "?k - 1 < length q" using k p by simp
      ultimately have "x \<in> set q" using nth_mem by blast
      with x show False ..
    qed
  qed
qed (auto simp: starts_with_def)

text \<open>A pattern whose last byte occurs neither before it nor earlier in it.\<close>

lemma find_sub_unique_last:
  assumes p: "p = q @ [x]" and x: "x \<notin> set q" "x \<notin> set u"
  shows "find_sub p (u @ p @ v) = Some (length u)"
proof (rule find_sub_eqI)
  fix j
  assume j: "j < length u"
  show "\<not> starts_with (drop j (u @ p @ v)) p"
  proof
    assume occ: "starts_with (drop j (u @ p @ v)) p"
    have "(u @ p @ v) ! (j + length q) = x"
      using starts_with_drop_nth [OF occ, of "length q"] by (simp add: p)
    moreover have "(u @ p @ v) ! (j + length q) \<in> set u \<union> set q"
    proof (cases "j + length q < length u")
      case True
      then show ?thesis by (simp add: nth_append)
    next
      case False
      with j have "j + length q - length u < length q" by auto
      with False show ?thesis by (simp add: nth_append p)
    qed
    ultimately show False using x by auto
  qed
qed (auto simp: starts_with_def)

lemma find_sub_take_None:
  assumes "find_sub p s = Some i" and "p \<noteq> []"
  shows "find_sub p (take i s) = None"
proof (rule ccontr)
  assume "find_sub p (take i s) \<noteq> None"
  then obtain j where j: "find_sub p (take i s) = Some j" by auto
  then obtain v where v: "drop j (take i s) = p @ v" by (auto dest!: find_sub_SomeD simp: starts_with_iff)
  have "j < i"
  proof (rule ccontr)
    assume "\<not> j < i"
    then have "drop j (take i s) = []" by simp
    with v assms(2) show False by simp
  qed
  moreover have "starts_with (drop j s) p"
  proof -
    have "take i s @ drop i s = s" by simp
    then have "drop j s = drop j (take i s) @ drop (j - length (take i s)) (drop i s)"
      by (metis drop_append)
    then show ?thesis by (auto simp: v starts_with_iff)
  qed
  ultimately show False using find_sub_first [OF assms(1)] by blast
qed

lemma find_sub_append_None:
  assumes p: "p = q @ [x]" and none: "find_sub p u = None" and x: "x \<notin> set w"
  shows "find_sub p (u @ w) = None"
proof (rule ccontr)
  assume "find_sub p (u @ w) \<noteq> None"
  then obtain j where "find_sub p (u @ w) = Some j" by auto
  then have occ: "starts_with (drop j (u @ w)) p" by (blast dest: find_sub_SomeD)
  have l: "j + length q < length (u @ w)" and e: "(u @ w) ! (j + length q) = x"
    using starts_with_drop_nth [OF occ, of "length q"] by (auto simp: p)
  show False
  proof (cases "j + length p \<le> length u")
    case True
    then have "take (length p) (drop j u) = take (length p) (drop j (u @ w))" by simp
    also have "\<dots> = p" using occ unfolding starts_with_def .
    finally have "starts_with (drop j u) p" unfolding starts_with_def .
    moreover have "j \<le> length u" using True by simp
    ultimately show False using none unfolding find_sub_None_iff by blast
  next
    case False
    then have "(u @ w) ! (j + length q) = w ! (j + length q - length u)"
      by (simp add: p nth_append)
    moreover have "j + length q - length u < length w" using l False p by auto
    ultimately show False using e x nth_mem by metis
  qed
qed

lemma contains_iff: "contains s p \<longleftrightarrow> (\<exists>u v. s = u @ p @ v)"
proof
  assume "contains s p"
  then obtain i where "find_sub p s = Some i" by (auto simp: contains_def)
  then obtain v where "drop i s = p @ v" by (auto dest!: find_sub_SomeD simp: starts_with_iff)
  then show "\<exists>u v. s = u @ p @ v" by (metis append_take_drop_id)
next
  assume "\<exists>u v. s = u @ p @ v"
  then obtain u v where "s = u @ p @ v" by blast
  then have "length u \<le> length s" "starts_with (drop (length u) s) p" by auto
  then show "contains s p" by (auto simp: contains_def find_sub_None_iff)
qed

lemma contains_char_iff: "contains s [c] \<longleftrightarrow> c \<in> set s"
  by (auto simp: contains_iff in_set_conv_decomp)

section \<open>Splitting\<close>

definition split_once :: "string \<Rightarrow> string \<Rightarrow> (string \<times> string) option" where
  "split_once s p = map_option (\<lambda>i. (take i s, drop (i + length p) s)) (find_sub p s)"

fun split_char :: "char \<Rightarrow> string \<Rightarrow> string list" where
  "split_char c [] = [[]]"
| "split_char c (x # xs) =
     (if x = c then [] # split_char c xs
      else (case split_char c xs of [] \<Rightarrow> [[x]] | y # ys \<Rightarrow> (x # y) # ys))"

lemma split_once_SomeD: "split_once s p = Some (a, b) \<Longrightarrow> s = a @ p @ b"
proof -
  assume "split_once s p = Some (a, b)"
  then obtain i where i: "find_sub p s = Some i" and a: "a = take i s"
    and b: "b = drop (i + length p) s"
    by (auto simp: split_once_def)
  from find_sub_SomeD [OF i] obtain v where "drop i s = p @ v" by (auto simp: starts_with_iff)
  then show ?thesis using a b
    by (metis add.commute append_eq_conv_conj append_take_drop_id drop_drop)
qed

lemma split_once_None_iff: "split_once s p = None \<longleftrightarrow> \<not> contains s p"
  by (simp add: split_once_def contains_def)

lemma split_once_char_first: "split_once s [c] = Some (a, b) \<Longrightarrow> c \<notin> set a"
proof
  assume s: "split_once s [c] = Some (a, b)" and "c \<in> set a"
  then obtain j where j: "j < length a" "a ! j = c" by (auto simp: in_set_conv_nth)
  from s obtain i where i: "find_sub [c] s = Some i" "a = take i s"
    by (auto simp: split_once_def)
  with j have ji: "j < i" "s ! j = c" "j < length s" by auto
  then have "starts_with (drop j s) [c]"
    by (simp add: starts_with_def take_Suc_conv_app_nth flip: Cons_nth_drop_Suc)
  with find_sub_first [OF i(1) ji(1)] show False ..
qed

lemma split_once_charI: "c \<notin> set a \<Longrightarrow> split_once (a @ c # b) [c] = Some (a, b)"
proof -
  assume "c \<notin> set a"
  then have "find_sub [c] (a @ [c] @ b) = Some (length a)"
    by (intro find_sub_unique_last [where q = "[]"]) auto
  then show ?thesis by (simp add: split_once_def)
qed

lemma split_char_not_Nil [simp]: "split_char c s \<noteq> []"
  by (induction s) (auto split: list.splits)

lemma split_char_no_sep: "c \<notin> set s \<Longrightarrow> split_char c s = [s]"
  by (induction s) auto

lemma split_char_append:
  "c \<notin> set a \<Longrightarrow> split_char c (a @ c # b) = a # split_char c b"
  by (induction a) auto

lemma split_char_parts: "x \<in> set (split_char c s) \<Longrightarrow> c \<notin> set x"
  by (induction s arbitrary: x) (auto split: list.splits if_splits)

text \<open>\<open>rfind\<close> and \<open>rsplit_once\<close> of a character.\<close>

text \<open>\<open>lines\<close>: a line ends with a line feed, or with a carriage return and a line feed.\<close>

definition text_lines :: "string \<Rightarrow> string list" where
  "text_lines s =
     (let parts = split_char CHR 0x0A s;
          ended = map (\<lambda>l. case strip_suffix l [CHR 0x0D] of Some k \<Rightarrow> k | None \<Rightarrow> l) (butlast parts)
      in if last parts = [] then ended else ended @ [last parts])"

definition rfind :: "char \<Rightarrow> string \<Rightarrow> nat option" where
  "rfind c s = (if c \<in> set s then Some (length s - Suc (length (takeWhile (\<lambda>d. d \<noteq> c) (rev s)))) else None)"

definition rsplit_once :: "char \<Rightarrow> string \<Rightarrow> (string \<times> string) option" where
  "rsplit_once c s = map_option (\<lambda>i. (take i s, drop (Suc i) s)) (rfind c s)"

fun join :: "char \<Rightarrow> string list \<Rightarrow> string" where
  "join c [] = []"
| "join c [part] = part"
| "join c (part # parts) = part @ c # join c parts"

lemma rfind_append: "c \<notin> set b \<Longrightarrow> rfind c (a @ c # b) = Some (length a)"
proof -
  assume "c \<notin> set b"
  then have "takeWhile (\<lambda>d. d \<noteq> c) (rev b @ c # rev a) = rev b"
    by (subst takeWhile_append2) auto
  then show ?thesis by (simp add: rfind_def)
qed

lemma rfind_None [simp]: "c \<notin> set s \<Longrightarrow> rfind c s = None"
  by (simp add: rfind_def)

lemma rfind_None_iff: "rfind c s = None \<longleftrightarrow> c \<notin> set s"
  by (simp add: rfind_def)

lemma rsplit_once_append: "c \<notin> set b \<Longrightarrow> rsplit_once c (a @ c # b) = Some (a, b)"
  by (simp add: rsplit_once_def rfind_append)

lemma rfind_cases:
  obtains (absent) "c \<notin> set s" "rfind c s = None"
  | (found) a b where "s = a @ c # b" "c \<notin> set b" "rfind c s = Some (length a)"
proof (cases "c \<in> set s")
  case True
  then obtain a b where "s = a @ c # b" "c \<notin> set b" by (meson split_list_last)
  then show ?thesis using found rfind_append by blast
qed (use absent in simp)

lemma rfind_map:
  assumes "\<And>x. f x = c \<longleftrightarrow> x = c"
  shows "rfind c (map f s) = rfind c s"
proof (cases c s rule: rfind_cases)
  case absent
  then have "c \<notin> set (map f s)" using assms by force
  then show ?thesis using absent by simp
next
  case (found a b)
  then have "c \<notin> set (map f b)" "map f s = map f a @ c # map f b" using assms[of c] assms by force+
  then show ?thesis using rfind_append[of c "map f b" "map f a"] found by simp
qed

lemma split_joined:
  "p \<noteq> [] \<Longrightarrow> \<forall>x \<in> set p. c \<notin> set x \<Longrightarrow> split_char c (join c p) = p"
  by (induction c p rule: join.induct) (auto simp: split_char_no_sep split_char_append)

lemma split_char_map:
  assumes "\<And>x. f x = c \<longleftrightarrow> x = c"
  shows "split_char c (map f s) = map (map f) (split_char c s)"
  using assms by (induction s) (auto split: list.splits)

lemma join_split: "join c (split_char c s) = s"
proof (induction s)
  case (Cons x s)
  obtain p ps where "split_char c s = p # ps" by (cases "split_char c s") auto
  with Cons show ?case by (cases ps) auto
qed simp

lemma join_tl_split: "c \<notin> set a \<Longrightarrow> join c (tl (split_char c (a @ c # b))) = b"
  by (simp add: split_char_append join_split)

lemma split_char_sep_iff: "length (split_char c s) > 1 \<longleftrightarrow> c \<in> set s"
proof (induction s)
  case (Cons x s)
  then show ?case by (cases "split_char c s") auto
qed simp

lemma split_char_ConsD: "split_char c s = p # q # ps \<Longrightarrow> s = p @ c # join c (q # ps)"
  using join_split[of c s] by simp

text \<open>\<open>trim_start_matches\<close> of a prefix.\<close>

function trim_prefixes :: "string \<Rightarrow> string \<Rightarrow> string" where
  "trim_prefixes p s =
     (case strip_prefix s p of Some t \<Rightarrow> if p = [] then s else trim_prefixes p t | None \<Rightarrow> s)"
  by pat_completeness auto
termination
  by (relation "measure (\<lambda>(p, s). length s)") (auto simp: strip_prefix_Some_iff)

declare trim_prefixes.simps [simp del]

end
