(* ===== verification/Numbers.thy ===== *)
theory Numbers
  imports Strings
begin

text \<open>
  Decimal rendering (\<open>to_string\<close> of an unsigned integer) and \<open>str::parse\<close> for the
  fixed-width integers the sources read. A \<open>uN\<close> is a \<open>nat\<close> with its bound written
  out; checked arithmetic returns \<open>None\<close> on overflow.
\<close>

definition U64_MAX :: nat where "U64_MAX = 18446744073709551615"
definition U32_MAX :: nat where "U32_MAX = 4294967295"
definition U16_MAX :: nat where "U16_MAX = 65535"
definition I64_MAX :: int where "I64_MAX = 9223372036854775807"

definition checked_add :: "nat \<Rightarrow> nat \<Rightarrow> nat option" where
  "checked_add a b = (if a + b \<le> U64_MAX then Some (a + b) else None)"

definition checked_mul :: "nat \<Rightarrow> nat \<Rightarrow> nat option" where
  "checked_mul a b = (if a * b \<le> U64_MAX then Some (a * b) else None)"

definition checked_pow :: "nat \<Rightarrow> nat \<Rightarrow> nat option" where
  "checked_pow a b = (if a ^ b \<le> U64_MAX then Some (a ^ b) else None)"

section \<open>Decimal text\<close>

definition digit_char :: "nat \<Rightarrow> char" where
  "digit_char d = char_of (48 + d)"

fun show_nat :: "nat \<Rightarrow> string" where
  "show_nat n = (if n < 10 then [digit_char n] else show_nat (n div 10) @ [digit_char (n mod 10)])"

declare show_nat.simps [simp del]

definition digits_val :: "string \<Rightarrow> nat" where
  "digits_val s = foldl (\<lambda>a c. 10 * a + (byte c - 48)) 0 s"

definition parse_digits :: "string \<Rightarrow> nat option" where
  "parse_digits s = (if s \<noteq> [] \<and> list_all is_digit s then Some (digits_val s) else None)"

text \<open>
  \<open>parse::<uN>\<close>: an optional plus sign and at least one digit, with the value in range.
\<close>

definition parse_uint :: "nat \<Rightarrow> string \<Rightarrow> nat option" where
  "parse_uint limit s =
     (let t = (case strip_prefix s ''+'' of None \<Rightarrow> s | Some r \<Rightarrow> r)
      in case parse_digits t of
           None \<Rightarrow> None
         | Some n \<Rightarrow> if n \<le> limit then Some n else None)"

abbreviation parse_u64 :: "string \<Rightarrow> nat option" where "parse_u64 \<equiv> parse_uint U64_MAX"
abbreviation parse_u32 :: "string \<Rightarrow> nat option" where "parse_u32 \<equiv> parse_uint U32_MAX"
abbreviation parse_u16 :: "string \<Rightarrow> nat option" where "parse_u16 \<equiv> parse_uint U16_MAX"

text \<open>\<open>parse::<i64>\<close>: a sign of either kind.\<close>

definition parse_i64 :: "string \<Rightarrow> int option" where
  "parse_i64 s =
     (case strip_prefix s ''-'' of
        Some r \<Rightarrow>
          (case parse_digits r of
             None \<Rightarrow> None
           | Some n \<Rightarrow> if int n \<le> I64_MAX + 1 then Some (- int n) else None)
      | None \<Rightarrow> map_option int (parse_uint (nat I64_MAX) s))"

definition show_int :: "int \<Rightarrow> string" where
  "show_int i = (if i < 0 then CHR ''-'' # show_nat (nat (- i)) else show_nat (nat i))"

definition show_bool :: "bool \<Rightarrow> string" where
  "show_bool b = (if b then ''true'' else ''false'')"

lemma digits_val_Nil [simp]: "digits_val [] = 0"
  by (simp add: digits_val_def)

lemma digits_val_snoc [simp]: "digits_val (s @ [c]) = 10 * digits_val s + (byte c - 48)"
  by (simp add: digits_val_def)

lemma is_digit_digit_char [simp]: "d < 10 \<Longrightarrow> is_digit (digit_char d)"
  by (simp add: is_digit_def digit_char_def)

lemma byte_digit_char [simp]: "d < 10 \<Longrightarrow> byte (digit_char d) = 48 + d"
  by (simp add: digit_char_def)

lemma show_nat_not_Nil [simp]: "show_nat n \<noteq> []"
  by (subst show_nat.simps) simp

lemma show_nat_digits: "list_all is_digit (show_nat n)"
proof (induction n rule: show_nat.induct)
  case (1 n)
  then show ?case by (subst show_nat.simps) simp
qed

lemma digits_val_single [simp]: "d < 10 \<Longrightarrow> digits_val [digit_char d] = d"
  using digits_val_snoc [of "[]" "digit_char d"] by simp

lemma digits_val_show_nat [simp]: "digits_val (show_nat n) = n"
proof (induction n rule: show_nat.induct)
  case (1 n)
  then show ?case by (subst show_nat.simps) simp
qed

lemma parse_digits_show_nat [simp]: "parse_digits (show_nat n) = Some n"
  by (simp add: parse_digits_def show_nat_digits)

lemma show_nat_inject [simp]: "show_nat m = show_nat n \<longleftrightarrow> m = n"
  by (metis digits_val_show_nat)

lemma show_nat_not_sign: "strip_prefix (show_nat n) [c] = None" if "\<not> is_digit c"
proof -
  obtain d r where "show_nat n = d # r" using show_nat_not_Nil by (cases "show_nat n") blast+
  moreover have "is_digit d" using show_nat_digits [of n] calculation by simp
  ultimately show ?thesis using that by (auto simp: strip_prefix_def starts_with_def)
qed

lemma not_digit_signs [simp]: "\<not> is_digit (CHR ''+'')" "\<not> is_digit (CHR ''-'')"
  "\<not> is_digit (CHR ''x'')" "\<not> is_digit (CHR ''.'')" "\<not> is_digit (CHR ''/'')"
  by (simp_all add: is_digit_def byte_def)

lemma parse_uint_show_nat: "n \<le> limit \<Longrightarrow> parse_uint limit (show_nat n) = Some n"
  by (simp add: parse_uint_def show_nat_not_sign)

lemma parse_uint_bound: "parse_uint limit s = Some n \<Longrightarrow> n \<le> limit"
  by (auto simp: parse_uint_def Let_def split: option.splits if_splits)

lemma show_nat_digit_in: "c \<in> set (show_nat n) \<Longrightarrow> is_digit c"
  using show_nat_digits [of n] by (simp add: list_all_iff)

lemma parse_i64_show_int: "0 \<le> i \<Longrightarrow> i \<le> I64_MAX \<Longrightarrow> parse_i64 (show_int i) = Some i"
  by (simp add: parse_i64_def show_int_def show_nat_not_sign parse_uint_show_nat)

text \<open>Digits without a leading zero are the decimal text of their value.\<close>

lemma digits_val_pos: "list_all is_digit s \<Longrightarrow> s \<noteq> [] \<Longrightarrow> hd s \<noteq> CHR ''0'' \<Longrightarrow> 0 < digits_val s"
proof (induction s rule: rev_induct)
  case (snoc c s)
  show ?case
  proof (cases "s = []")
    case True
    with snoc.prems have "is_digit c" "c \<noteq> CHR ''0''" by auto
    then have "byte c \<noteq> byte (CHR ''0'')" by (simp add: byte_inject)
    then have "byte c \<noteq> 48" by (simp add: byte_def)
    with \<open>is_digit c\<close> True show ?thesis by (simp add: is_digit_def digits_val_def)
  next
    case False
    with snoc show ?thesis by simp
  qed
qed simp

lemma digit_char_of_digit: "is_digit c \<Longrightarrow> digit_char (byte c - 48) = c"
  by (simp add: is_digit_def digit_char_def)

lemma is_digit_lt: "is_digit c \<Longrightarrow> byte c - 48 < 10"
  by (auto simp: is_digit_def)

lemma show_nat_digits_val:
  "list_all is_digit s \<Longrightarrow> s \<noteq> [] \<Longrightarrow> hd s \<noteq> CHR ''0'' \<Longrightarrow> show_nat (digits_val s) = s"
proof (induction s rule: rev_induct)
  case (snoc c s)
  let ?d = "byte c - 48"
  have c: "is_digit c" "?d < 10" using snoc.prems is_digit_lt by auto
  show ?case
  proof (cases "s = []")
    case True
    then show ?thesis using c by (simp add: show_nat.simps digits_val_def digit_char_of_digit)
  next
    case False
    with snoc.prems have s: "list_all is_digit s" "hd s \<noteq> CHR ''0''" by auto
    with False have "0 < digits_val s" by (intro digits_val_pos) auto
    then have "show_nat (10 * digits_val s + ?d) = show_nat (digits_val s) @ [digit_char ?d]"
      using c(2) by (subst show_nat.simps) simp
    with snoc.IH False s c(1) show ?thesis by (simp add: digit_char_of_digit)
  qed
qed simp

lemma show_nat_no_leading_zero: "0 < n \<Longrightarrow> hd (show_nat n) \<noteq> CHR ''0''"
proof (induction n rule: show_nat.induct)
  case (1 n)
  show ?case
  proof (cases "n < 10")
    case True
    have "digit_char n \<noteq> CHR ''0''"
    proof
      assume "digit_char n = CHR ''0''"
      then have "byte (digit_char n) = byte (CHR ''0'')" by simp
      with True 1(2) show False by (simp add: byte_def digit_char_def)
    qed
    with True show ?thesis by (simp add: show_nat.simps)
  next
    case False
    then have "0 < n div 10" by simp
    with 1(1) False have "hd (show_nat (n div 10)) \<noteq> CHR ''0''" by simp
    with False show ?thesis by (simp add: show_nat.simps [of n])
  qed
qed

lemma digits_val_append: "digits_val (s @ t) = digits_val s * 10 ^ length t + digits_val t"
proof (induction t rule: rev_induct)
  case (snoc c t)
  have "digits_val (s @ t @ [c]) = 10 * digits_val (s @ t) + (byte c - 48)"
    using digits_val_snoc [of "s @ t" c] by simp
  with snoc show ?case by (simp add: algebra_simps)
qed simp

lemma digits_val_less: "list_all is_digit s \<Longrightarrow> digits_val s < 10 ^ length s"
proof (induction s rule: rev_induct)
  case (snoc c s)
  then have "digits_val s < 10 ^ length s" "byte c - 48 < 10" using is_digit_lt by auto
  then have "10 * digits_val s + (byte c - 48) < 10 * 10 ^ length s" by linarith
  then show ?case by simp
qed simp

end
