(* ===== verification/Utf8.thy ===== *)
theory Utf8
  imports Strings
begin

text \<open>
  What the sources do with whole characters: decoding UTF-8 (\<open>str::chars\<close>) and
  trimming Unicode whitespace (\<open>str::trim\<close>).
\<close>

section \<open>Decoding\<close>

text \<open>
  The Unicode scalar values of a byte string. On valid UTF-8, which every Rust \<open>str\<close>
  is, this is \<open>str::chars\<close>; an ill-formed sequence, which does not occur there, is read
  as one scalar value per byte.
\<close>

definition cont :: "char \<Rightarrow> bool" where
  "cont c \<longleftrightarrow> 128 \<le> byte c \<and> byte c < 192"

fun utf8_chars :: "string \<Rightarrow> nat list" where
  "utf8_chars [] = []"
| "utf8_chars (a # s) =
     (if byte a < 128 then byte a # utf8_chars s
      else case s of
        b # s1 \<Rightarrow>
          if 192 \<le> byte a \<and> byte a < 224 \<and> cont b
          then ((byte a - 192) * 64 + (byte b - 128)) # utf8_chars s1
          else (case s1 of
            c # s2 \<Rightarrow>
              if 224 \<le> byte a \<and> byte a < 240 \<and> cont b \<and> cont c
              then ((byte a - 224) * 4096 + (byte b - 128) * 64 + (byte c - 128)) # utf8_chars s2
              else (case s2 of
                d # s3 \<Rightarrow>
                  if 240 \<le> byte a \<and> byte a < 248 \<and> cont b \<and> cont c \<and> cont d
                  then ((byte a - 240) * 262144 + (byte b - 128) * 4096 + (byte c - 128) * 64
                        + (byte d - 128)) # utf8_chars s3
                  else byte a # utf8_chars s
              | [] \<Rightarrow> byte a # utf8_chars s)
          | [] \<Rightarrow> byte a # utf8_chars s)
      | [] \<Rightarrow> [byte a])"

definition ascii :: "string \<Rightarrow> bool" where
  "ascii s \<longleftrightarrow> list_all (\<lambda>c. byte c < 128) s"

lemma utf8_chars_ascii: "ascii s \<Longrightarrow> utf8_chars s = map byte s"
  by (induction s) (auto simp: ascii_def)

text \<open>Unicode control characters: C0, DEL and C1.\<close>

definition is_control_char :: "nat \<Rightarrow> bool" where
  "is_control_char c \<longleftrightarrow> c < 32 \<or> 127 \<le> c \<and> c < 160"

text \<open>The UTF-8 text of each character of a string, in order.\<close>

function char_texts :: "string \<Rightarrow> string list" where
  "char_texts [] = []"
| "char_texts (a # s) = (a # takeWhile cont s) # char_texts (dropWhile cont s)"
  by pat_completeness auto
termination
  by (relation "measure length") (auto simp: le_imp_less_Suc length_dropWhile_le)

text \<open>\<open>safe_terminal_text\<close> of the command line client: control characters become spaces.\<close>

definition safe_terminal_text :: "string \<Rightarrow> string" where
  "safe_terminal_text value =
     concat (map (\<lambda>c. if list_ex is_control_char (utf8_chars c) then '' '' else c) (char_texts value))"

section \<open>Whitespace\<close>

text \<open>The UTF-8 encodings of the characters with the property \<open>White_Space\<close>.\<close>

definition ws_encodings :: "string list" where
  "ws_encodings =
     [[CHR 0x09], [CHR 0x0A], [CHR 0x0B], [CHR 0x0C], [CHR 0x0D], [CHR 0x20],
      [CHR 0xC2, CHR 0x85], [CHR 0xC2, CHR 0xA0], [CHR 0xE1, CHR 0x9A, CHR 0x80],
      [CHR 0xE2, CHR 0x80, CHR 0x80], [CHR 0xE2, CHR 0x80, CHR 0x81],
      [CHR 0xE2, CHR 0x80, CHR 0x82], [CHR 0xE2, CHR 0x80, CHR 0x83],
      [CHR 0xE2, CHR 0x80, CHR 0x84], [CHR 0xE2, CHR 0x80, CHR 0x85],
      [CHR 0xE2, CHR 0x80, CHR 0x86], [CHR 0xE2, CHR 0x80, CHR 0x87],
      [CHR 0xE2, CHR 0x80, CHR 0x88], [CHR 0xE2, CHR 0x80, CHR 0x89],
      [CHR 0xE2, CHR 0x80, CHR 0x8A], [CHR 0xE2, CHR 0x80, CHR 0xA8],
      [CHR 0xE2, CHR 0x80, CHR 0xA9], [CHR 0xE2, CHR 0x80, CHR 0xAF],
      [CHR 0xE2, CHR 0x81, CHR 0x9F], [CHR 0xE3, CHR 0x80, CHR 0x80]]"

definition ws_prefix :: "string \<Rightarrow> string option" where
  "ws_prefix s = find (\<lambda>w. starts_with s w) ws_encodings"

definition ws_suffix :: "string \<Rightarrow> string option" where
  "ws_suffix s = find (\<lambda>w. ends_with s w) ws_encodings"

lemma ws_not_Nil: "w \<in> set ws_encodings \<Longrightarrow> w \<noteq> []"
proof -
  have "list_all (\<lambda>w. w \<noteq> []) ws_encodings" by (simp add: ws_encodings_def)
  then show "w \<in> set ws_encodings \<Longrightarrow> w \<noteq> []" by (auto simp: list_all_iff)
qed

lemma find_in_set: "find P xs = Some x \<Longrightarrow> x \<in> set xs \<and> P x"
  by (induction xs) (auto split: if_splits)

function trim_start :: "string \<Rightarrow> string" where
  "trim_start s = (case ws_prefix s of None \<Rightarrow> s | Some w \<Rightarrow> trim_start (drop (length w) s))"
  by pat_completeness auto
termination
proof (relation "measure length")
  fix s w
  assume "ws_prefix s = Some w"
  then have "w \<noteq> []" "starts_with s w"
    by (auto simp: ws_prefix_def dest!: find_in_set ws_not_Nil)
  then show "(drop (length w) s, s) \<in> measure length"
    by (cases s; cases w) (auto simp: starts_with_def)
qed simp

function trim_end :: "string \<Rightarrow> string" where
  "trim_end s =
     (case ws_suffix s of None \<Rightarrow> s | Some w \<Rightarrow> trim_end (take (length s - length w) s))"
  by pat_completeness auto
termination
proof (relation "measure length")
  fix s w
  assume "ws_suffix s = Some w"
  then have "w \<noteq> []" "ends_with s w"
    by (auto simp: ws_suffix_def dest!: find_in_set ws_not_Nil)
  then show "(take (length s - length w) s, s) \<in> measure length"
    by (cases w) (auto simp: ends_with_def)
qed simp

declare trim_start.simps [simp del] trim_end.simps [simp del]

definition trim :: "string \<Rightarrow> string" where
  "trim s = trim_end (trim_start s)"

lemma ws_prefix_None [simp]: "ws_prefix [] = None" and ws_suffix_None [simp]: "ws_suffix [] = None"
  by (simp_all add: ws_prefix_def ws_suffix_def ws_encodings_def starts_with_def ends_with_def)

lemma trim_Nil [simp]: "trim [] = []"
  by (simp add: trim_def trim_start.simps trim_end.simps)

lemma ws_prefix_trim_start [simp]: "ws_prefix (trim_start s) = None"
proof (induction s rule: trim_start.induct)
  case (1 s)
  then show ?case by (subst trim_start.simps) (auto split: option.splits)
qed

lemma ws_suffix_trim_end [simp]: "ws_suffix (trim_end s) = None"
proof (induction s rule: trim_end.induct)
  case (1 s)
  then show ?case by (subst trim_end.simps) (auto split: option.splits)
qed

lemma trim_start_id: "ws_prefix s = None \<Longrightarrow> trim_start s = s"
  by (subst trim_start.simps) simp

lemma trim_end_id: "ws_suffix s = None \<Longrightarrow> trim_end s = s"
  by (subst trim_end.simps) simp

lemma trim_end_prefix: "\<exists>v. s = trim_end s @ v"
proof (induction s rule: trim_end.induct)
  case (1 s)
  show ?case
  proof (cases "ws_suffix s")
    case None
    then show ?thesis by (simp add: trim_end_id)
  next
    case (Some w)
    with 1 obtain v where "take (length s - length w) s = trim_end s @ v"
      by (auto simp: trim_end.simps [of s])
    then show ?thesis by (metis append_assoc append_take_drop_id)
  qed
qed

text \<open>Trimming what is trimmed changes nothing.\<close>

lemma ws_prefix_prefix_None:
  assumes "ws_prefix (u @ v) = None"
  shows "ws_prefix u = None"
proof (rule ccontr)
  assume "ws_prefix u \<noteq> None"
  then obtain w where "ws_prefix u = Some w" by auto
  then have "w \<in> set ws_encodings" "starts_with (u @ v) w"
    by (auto simp: ws_prefix_def starts_with_iff dest!: find_in_set)
  with assms show False by (auto simp: ws_prefix_def find_None_iff)
qed

lemma trim_idem [simp]: "trim (trim s) = trim s"
proof -
  obtain v where "trim_start s = trim_end (trim_start s) @ v" using trim_end_prefix by blast
  then have "ws_prefix (trim_end (trim_start s)) = None"
    using ws_prefix_trim_start [of s] ws_prefix_prefix_None by metis
  then show ?thesis by (simp add: trim_def trim_start_id trim_end_id)
qed

lemma ws_encodings_head:
  "w \<in> set ws_encodings \<Longrightarrow> \<not> (32 < byte (hd w) \<and> byte (hd w) < 127)"
proof -
  have "list_all (\<lambda>w. \<not> (32 < byte (hd w) \<and> byte (hd w) < 127)) ws_encodings" by code_simp
  then show "w \<in> set ws_encodings \<Longrightarrow> \<not> (32 < byte (hd w) \<and> byte (hd w) < 127)"
    by (auto simp: list_all_iff)
qed

lemma ws_encodings_last:
  "w \<in> set ws_encodings \<Longrightarrow> \<not> (32 < byte (last w) \<and> byte (last w) < 127)"
proof -
  have "list_all (\<lambda>w. \<not> (32 < byte (last w) \<and> byte (last w) < 127)) ws_encodings" by code_simp
  then show "w \<in> set ws_encodings \<Longrightarrow> \<not> (32 < byte (last w) \<and> byte (last w) < 127)"
    by (auto simp: list_all_iff)
qed

text \<open>A space at either end is one step of trimming.\<close>

lemma ws_encodings_space:
  "list_all (\<lambda>w. (hd w = CHR '' '' \<longrightarrow> w = '' '') \<and> (last w = CHR '' '' \<longrightarrow> w = '' '')) ws_encodings"
  "'' '' \<in> set ws_encodings"
  by code_simp+

lemma ws_prefix_space: "ws_prefix (CHR '' '' # s) = Some '' ''"
proof -
  have "starts_with (CHR '' '' # s) '' ''" by (simp add: starts_with_def)
  then obtain w where w: "ws_prefix (CHR '' '' # s) = Some w"
    using ws_encodings_space(2) by (cases "ws_prefix (CHR '' '' # s)") (auto simp: ws_prefix_def find_None_iff)
  then have "w \<in> set ws_encodings" "starts_with (CHR '' '' # s) w"
    by (auto simp: ws_prefix_def dest!: find_in_set)
  moreover then have "hd w = CHR '' ''" using ws_not_Nil [of w]
    by (auto simp: starts_with_iff Cons_eq_append_conv)
  ultimately show ?thesis using w ws_encodings_space(1) by (auto simp: list_all_iff)
qed

lemma ws_suffix_space: "ws_suffix (s @ '' '') = Some '' ''"
proof -
  obtain w where w: "ws_suffix (s @ '' '') = Some w"
    using ws_encodings_space(2) ends_with_append [of s "'' ''"]
    by (cases "ws_suffix (s @ '' '')") (auto simp: ws_suffix_def find_None_iff)
  then have "w \<in> set ws_encodings" "ends_with (s @ '' '') w"
    by (auto simp: ws_suffix_def dest!: find_in_set)
  moreover then have "last w = CHR '' ''" using ws_not_Nil
    by (metis ends_with_iff last_appendR last_snoc)
  ultimately show ?thesis using w ws_encodings_space(1) by (auto simp: list_all_iff)
qed

lemma trim_start_space [simp]: "trim_start (CHR '' '' # s) = trim_start s"
  by (subst trim_start.simps) (simp add: ws_prefix_space)

lemma trim_end_space [simp]: "trim_end (s @ '' '') = trim_end s"
  by (subst trim_end.simps) (simp add: ws_suffix_space)

definition printable :: "char \<Rightarrow> bool" where
  "printable c \<longleftrightarrow> 32 < byte c \<and> byte c < 127"

lemma trim_start_printable: "s \<noteq> [] \<Longrightarrow> printable (hd s) \<Longrightarrow> trim_start s = s"
proof (rule trim_start_id, rule ccontr)
  assume s: "s \<noteq> []" "printable (hd s)" and "ws_prefix s \<noteq> None"
  then obtain w where w: "w \<in> set ws_encodings" "starts_with s w"
    by (auto simp: ws_prefix_def dest!: find_in_set)
  then have "hd w = hd s" using ws_not_Nil by (auto simp: starts_with_iff)
  with ws_encodings_head [OF w(1)] s show False by (simp add: printable_def)
qed

lemma trim_end_printable: "s \<noteq> [] \<Longrightarrow> printable (last s) \<Longrightarrow> trim_end s = s"
proof (rule trim_end_id, rule ccontr)
  assume s: "s \<noteq> []" "printable (last s)" and "ws_suffix s \<noteq> None"
  then obtain w where w: "w \<in> set ws_encodings" "ends_with s w"
    by (auto simp: ws_suffix_def dest!: find_in_set)
  then have "last w = last s" using ws_not_Nil by (auto simp: ends_with_iff)
  with ws_encodings_last [OF w(1)] s show False by (simp add: printable_def)
qed

lemma trim_printable:
  "s \<noteq> [] \<Longrightarrow> printable (hd s) \<Longrightarrow> printable (last s) \<Longrightarrow> trim s = s"
  by (simp add: trim_def trim_start_printable trim_end_printable)

end
