(* ===== verification/Interfaces.thy ===== *)
theory Interfaces
  imports Numbers Utf8
begin

text \<open>
  The contracts the components share, as locales: a textual codec (the
  \<open>Display\<close>/\<open>FromStr\<close> pairs of the core crate), an event system with an invariant
  (the relay's and the agent's shared state under any interleaving of handlers), and a
  validated setting. The theory of each component interprets them on its own definitions.
\<close>

section \<open>Textual codecs\<close>

locale text_codec =
  fixes show_text :: "'a \<Rightarrow> string"
    and parse_text :: "string \<Rightarrow> ('e, 'a) result"
    and wf :: "'a \<Rightarrow> bool"
  assumes parse_show: "wf x \<Longrightarrow> parse_text (show_text x) = Inr x"
    and parse_wf: "parse_text s = Inr x \<Longrightarrow> wf x"
begin

lemma codec_inject: "wf x \<Longrightarrow> wf y \<Longrightarrow> show_text x = show_text y \<longleftrightarrow> x = y"
  by (metis parse_show sum.inject(2))

lemma reparse: "parse_text s = Inr x \<Longrightarrow> parse_text (show_text x) = Inr x"
  by (blast intro: parse_show parse_wf)

lemma wf_iff_parsed: "wf x \<longleftrightarrow> (\<exists>s. parse_text s = Inr x)"
  by (blast intro: parse_show parse_wf)

end

text \<open>A codec whose parser accepts one spelling of each value.\<close>

locale canonical_codec = text_codec +
  assumes show_parse: "parse_text s = Inr x \<Longrightarrow> show_text x = s"
begin

lemma parse_inject: "parse_text s = Inr x \<Longrightarrow> parse_text t = Inr x \<Longrightarrow> s = t"
  using show_parse by blast

lemma accepted_iff: "is_ok (parse_text s) \<longleftrightarrow> (\<exists>x. wf x \<and> s = show_text x)"
  unfolding is_ok_iff using parse_show parse_wf show_parse by blast

end

section \<open>Event systems\<close>

text \<open>
  The states a system can reach when its handlers run in any order: \<open>step e s s'\<close> says
  that the event \<open>e\<close> can take \<open>s\<close> to \<open>s'\<close>.
\<close>

inductive reaches :: "('e \<Rightarrow> 's \<Rightarrow> 's \<Rightarrow> bool) \<Rightarrow> 's \<Rightarrow> 's \<Rightarrow> bool" for step where
  reaches_refl: "reaches step s s"
| reaches_step: "reaches step s t \<Longrightarrow> step e t u \<Longrightarrow> reaches step s u"

locale event_system =
  fixes step :: "'e \<Rightarrow> 's \<Rightarrow> 's \<Rightarrow> bool"
    and inv :: "'s \<Rightarrow> bool"
  assumes step_inv: "inv s \<Longrightarrow> step e s t \<Longrightarrow> inv t"
begin

lemma reaches_inv: "reaches step s t \<Longrightarrow> inv s \<Longrightarrow> inv t"
  by (induction rule: reaches.induct) (auto intro: step_inv)

end

text \<open>An event system whose steps also never decrease a measure of progress.\<close>

locale monotone_system = event_system +
  fixes measure_of :: "'s \<Rightarrow> nat"
  assumes step_mono: "inv s \<Longrightarrow> step e s t \<Longrightarrow> measure_of s \<le> measure_of t"
begin

lemma reaches_mono: "reaches step s t \<Longrightarrow> inv s \<Longrightarrow> measure_of s \<le> measure_of t"
proof (induction rule: reaches.induct)
  case (reaches_step s t e u)
  then have "inv t" by (blast intro: reaches_inv)
  with reaches_step show ?case using step_mono le_trans by blast
qed simp

end

text \<open>
  A concrete system that refines an abstract one through \<open>abst\<close>: under the
  invariant, each concrete step is an abstract step or changes nothing abstractly.
\<close>

locale refined_system = event_system +
  fixes astep :: "'a \<Rightarrow> 't \<Rightarrow> 't \<Rightarrow> bool"
    and abst :: "'s \<Rightarrow> 't"
  assumes step_refines: "inv s \<Longrightarrow> step e s t \<Longrightarrow> abst t = abst s \<or> (\<exists>a. astep a (abst s) (abst t))"
begin

lemma reaches_refines: "reaches step s t \<Longrightarrow> inv s \<Longrightarrow> reaches astep (abst s) (abst t)"
proof (induction rule: reaches.induct)
  case (reaches_step s t e u)
  then have "inv t" "reaches astep (abst s) (abst t)" by (blast intro: reaches_inv)+
  with step_refines[OF \<open>inv t\<close> reaches_step.hyps(2)] show ?case
    by (auto intro: reaches.reaches_step)
qed (rule reaches.reaches_refl)

end

lemma reaches_trans: "reaches step s t \<Longrightarrow> reaches step t u \<Longrightarrow> reaches step s u"
  by (rotate_tac, induction rule: reaches.induct) (auto intro: reaches.intros)

text \<open>A schedule of events run from a state, if each of them can happen in its turn.\<close>

fun run_events :: "('e \<Rightarrow> 's \<Rightarrow> 's option) \<Rightarrow> 'e list \<Rightarrow> 's \<Rightarrow> 's option" where
  "run_events step [] s = Some s"
| "run_events step (e # es) s = (case step e s of Some t \<Rightarrow> run_events step es t | None \<Rightarrow> None)"

lemma run_events_reaches:
  "run_events step es s = Some t \<Longrightarrow> reaches (\<lambda>e s t. step e s = Some t) s t"
proof (induction es arbitrary: s)
  case (Cons e es)
  then obtain u where "step e s = Some u" "run_events step es u = Some t" by (auto split: option.splits)
  with Cons.IH show ?case by (blast intro: reaches_trans reaches.intros)
qed (auto intro: reaches.intros)

end
