(* ===== verification/BoxIds.thy ===== *)
theory BoxIds
  imports Interfaces
begin

text \<open>
  Public box identifiers: \<open>PboxId\<close> of \<open>crates/pbox-core/src/id.rs\<close>, the relay's
  \<open>valid_box_id\<close> and \<open>valid_route\<close> (\<open>crates/pbox-relay/src/lib.rs\<close>) and the
  certificate subjects of \<open>crates/pbox-crypto/src/lib.rs\<close>, with their agreement.
\<close>

section \<open>PboxId\<close>

definition ID_PREFIX :: string where "ID_PREFIX = ''pbx_''"
definition ID_LENGTH :: nat where "ID_LENGTH = 8"
definition ID_ALPHABET :: string where "ID_ALPHABET = ''0123456789abcdefghjkmnpqrstvwxyz''"

datatype pbox_id_error = InvalidPrefix | InvalidLength | InvalidCharacter nat

text \<open>\<open>character as u8\<close> keeps the low eight bits of the scalar value.\<close>

fun check_id_chars :: "nat list \<Rightarrow> (pbox_id_error, unit) result" where
  "check_id_chars [] = Inr ()"
| "check_id_chars (c # cs) =
     (if char_of (c mod 256) \<notin> set ID_ALPHABET then Inl (InvalidCharacter c)
      else check_id_chars cs)"

definition parse_id :: "string \<Rightarrow> (pbox_id_error, string) result" where
  "parse_id value =
     (if \<not> starts_with value ID_PREFIX then Inl InvalidPrefix
      else let suffix = drop (length ID_PREFIX) value in
        if length (utf8_chars suffix) \<noteq> ID_LENGTH then Inl InvalidLength
        else and_then (check_id_chars (utf8_chars suffix)) (\<lambda>_. Inr value))"

text \<open>\<open>generate\<close>, with the random source as the index drawn for each position.\<close>

definition generate_id :: "(nat \<Rightarrow> nat) \<Rightarrow> string" where
  "generate_id rng = ID_PREFIX @ map (\<lambda>i. ID_ALPHABET ! rng i) [0..<ID_LENGTH]"

lemma ID_PREFIX_len [simp]: "length ID_PREFIX = 4"
  by (simp add: ID_PREFIX_def)

lemma ID_ALPHABET_len [simp]: "length ID_ALPHABET = 32"
  by (simp add: ID_ALPHABET_def)

lemma check_id_chars_ok_iff:
  "check_id_chars cs = Inr u \<longleftrightarrow> list_all (\<lambda>c. char_of (c mod 256) \<in> set ID_ALPHABET) cs"
  by (induction cs) auto

lemma parse_id_Inr: "parse_id v = Inr x \<Longrightarrow> x = v"
  by (auto simp: parse_id_def Let_def res_simps split: if_splits)

section \<open>The relay's and the certificate authority's checks\<close>

definition is_id_byte :: "char \<Rightarrow> bool" where
  "is_id_byte b \<longleftrightarrow> is_lower b \<or> is_digit b"

definition valid_box_id :: "string \<Rightarrow> bool" where
  "valid_box_id value \<longleftrightarrow>
     starts_with value ''pbx_'' \<and> length value = 12
     \<and> list_all (\<lambda>b. is_lower b \<or> is_digit b) (drop 4 value)"

definition valid_route :: "string \<Rightarrow> bool" where
  "valid_route value \<longleftrightarrow>
     (case split_once value ''~'' of
        Some (parent, child) \<Rightarrow> valid_box_id parent \<and> valid_box_id child
      | None \<Rightarrow> valid_box_id value)"

datatype crypto_error = Certificate string | KeyEncoding string | InvalidBoxId string

definition server_subject :: "string \<Rightarrow> (crypto_error, string) result" where
  "server_subject box_id =
     (if \<not> starts_with box_id ''pbx_'' \<or> length box_id \<noteq> 12
         \<or> \<not> list_all is_id_byte (drop 4 box_id)
      then Inl (InvalidBoxId box_id)
      else Inr (''pbox.cwd.dev/box/'' @ box_id))"

definition server_dns_name :: "string \<Rightarrow> (crypto_error, string) result" where
  "server_dns_name box_id = and_then (server_subject box_id) (\<lambda>_. Inr (''pbox-'' @ box_id))"

lemma server_subject_iff:
  "server_subject b = Inr s \<longleftrightarrow> valid_box_id b \<and> s = ''pbox.cwd.dev/box/'' @ b"
  by (auto simp: server_subject_def valid_box_id_def is_id_byte_def list_all_iff)

lemma valid_box_id_chars: "valid_box_id b \<Longrightarrow> c \<in> set b \<Longrightarrow> is_lower c \<or> is_digit c \<or> c = CHR ''_''"
proof -
  assume v: "valid_box_id b" and c: "c \<in> set b"
  then have "b = ''pbx_'' @ drop 4 b" by (auto simp: valid_box_id_def starts_with_iff)
  with c have "c \<in> set ''pbx_'' \<or> c \<in> set (drop 4 b)" by (metis Un_iff set_append)
  with v show ?thesis
    by (auto simp: valid_box_id_def list_all_iff is_lower_def byte_def)
qed

lemma valid_box_id_no_sep:
  "valid_box_id b \<Longrightarrow> CHR ''/'' \<notin> set b \<and> CHR ''~'' \<notin> set b \<and> CHR ''.'' \<notin> set b"
  using valid_box_id_chars [of b "CHR ''/''"] valid_box_id_chars [of b "CHR ''~''"]
    valid_box_id_chars [of b "CHR ''.''"]
  by (auto simp: char_class_defs)

lemma alphabet_id_byte: "c \<in> set ID_ALPHABET \<Longrightarrow> is_id_byte c \<and> byte c < 128"
  by (auto simp: ID_ALPHABET_def is_id_byte_def char_class_defs)

section \<open>Agreement\<close>

text \<open>On ASCII text the parser accepts exactly the documented shape.\<close>

lemma parse_id_ascii:
  assumes "ascii v"
  shows "is_ok (parse_id v) \<longleftrightarrow>
    (\<exists>w. v = ID_PREFIX @ w \<and> length w = ID_LENGTH \<and> set w \<subseteq> set ID_ALPHABET)"
proof -
  have a: "utf8_chars (drop 4 v) = map byte (drop 4 v)"
    using assms by (intro utf8_chars_ascii) (auto simp: ascii_def list_all_iff dest: in_set_dropD)
  have m: "char_of (byte c mod 256) = c" for c by simp
  have "is_ok (parse_id v) \<longleftrightarrow> starts_with v ID_PREFIX \<and> length (drop 4 v) = ID_LENGTH
      \<and> set (drop 4 v) \<subseteq> set ID_ALPHABET"
    by (auto simp: parse_id_def Let_def res_simps a check_id_chars_ok_iff list_all_iff m)
  also have "\<dots> \<longleftrightarrow> (\<exists>w. v = ID_PREFIX @ w \<and> length w = ID_LENGTH \<and> set w \<subseteq> set ID_ALPHABET)"
    by (auto simp: starts_with_iff)
  finally show ?thesis .
qed

lemma parse_id_show: "is_ok (parse_id x) \<Longrightarrow> parse_id x = Inr x"
  by (auto simp: is_ok_iff dest: parse_id_Inr)

interpretation box_id: canonical_codec "\<lambda>x. x" parse_id "\<lambda>x. is_ok (parse_id x)"
  by unfold_locales (auto simp: is_ok_iff dest: parse_id_Inr intro: parse_id_show)

lemma generate_id_shape:
  assumes "\<And>i. rng i < 32"
  shows "\<exists>w. generate_id rng = ID_PREFIX @ w \<and> length w = ID_LENGTH \<and> set w \<subseteq> set ID_ALPHABET"
  using assms by (auto simp: generate_id_def intro!: nth_mem)

lemma shape_valid_box_id:
  assumes "length w = ID_LENGTH" and "set w \<subseteq> set ID_ALPHABET"
  shows "valid_box_id (ID_PREFIX @ w)"
proof -
  have "is_lower c \<or> is_digit c" if "c \<in> set w" for c
    using that assms(2) alphabet_id_byte is_id_byte_def by blast
  then show ?thesis
    using assms(1) by (simp add: valid_box_id_def ID_PREFIX_def ID_LENGTH_def list_all_iff starts_with_def)
qed

lemma shape_ascii: "set w \<subseteq> set ID_ALPHABET \<Longrightarrow> ascii (ID_PREFIX @ w)"
  using alphabet_id_byte by (auto simp: ascii_def ID_PREFIX_def list_all_iff byte_def)

text \<open>
  An identifier drawn by \<open>PboxId::generate\<close> is accepted, unchanged, by every part of
  the system that checks identifiers: the core parser, the relay's route check and the
  certificate authority.
\<close>

theorem generated_id_accepted:
  assumes "\<And>i. rng i < 32"
  shows "parse_id (generate_id rng) = Inr (generate_id rng)
    \<and> valid_box_id (generate_id rng) \<and> valid_route (generate_id rng)
    \<and> server_dns_name (generate_id rng) = Inr (''pbox-'' @ generate_id rng)"
proof -
  obtain w where w: "generate_id rng = ID_PREFIX @ w" "length w = ID_LENGTH"
      "set w \<subseteq> set ID_ALPHABET"
    using generate_id_shape [of rng, OF assms] by blast
  have v: "valid_box_id (generate_id rng)" using w shape_valid_box_id by simp
  then have "split_once (generate_id rng) ''~'' = None"
    using valid_box_id_no_sep by (simp add: split_once_None_iff contains_char_iff)
  with v have r: "valid_route (generate_id rng)" by (simp add: valid_route_def)
  have "is_ok (parse_id (generate_id rng))"
    using parse_id_ascii [OF shape_ascii [OF w(3)]] w by auto
  then have "parse_id (generate_id rng) = Inr (generate_id rng)" by (rule box_id.parse_show)
  moreover have "server_subject (generate_id rng) = Inr (''pbox.cwd.dev/box/'' @ generate_id rng)"
    using v by (simp add: server_subject_iff)
  ultimately show ?thesis using v r by (simp add: server_dns_name_def)
qed

theorem generated_id_accepted_witness:
  "parse_id (generate_id (\<lambda>i. 3 * i)) = Inr ''pbx_0369cfjn''
   \<and> valid_box_id (generate_id (\<lambda>i. i mod 32))"
proof
  have "generate_id (\<lambda>i. (3 * i) mod 32) = ''pbx_0369cfjn''" by code_simp
  moreover have "generate_id (\<lambda>i. 3 * i) = generate_id (\<lambda>i. (3 * i) mod 32)" by code_simp
  ultimately show "parse_id (generate_id (\<lambda>i. 3 * i)) = Inr ''pbx_0369cfjn''"
    using generated_id_accepted [of "\<lambda>i. (3 * i) mod 32"] by simp
  show "valid_box_id (generate_id (\<lambda>i. i mod 32))"
    using generated_id_accepted [of "\<lambda>i. i mod 32"] by simp
qed

text \<open>
  The parser truncates each character to its low byte before it looks it up, so
  it accepts identifiers that are not in the documented alphabet, and that the relay and the
  certificate authority refuse: eight times the letter U+0130.
\<close>

theorem parse_id_accepts_non_ascii:
  "\<exists>v. parse_id v = Inr v \<and> \<not> ascii v \<and> length v = 20
     \<and> \<not> valid_box_id v \<and> \<not> is_ok (server_subject v)"
proof -
  let ?v = "''pbx_'' @ concat (replicate 8 [char_of (196 :: nat), char_of (176 :: nat)])"
  have "parse_id ?v = Inr ?v" "\<not> ascii ?v" "length ?v = 20" "\<not> valid_box_id ?v"
    "\<not> is_ok (server_subject ?v)"
    by code_simp+
  then show ?thesis by blast
qed

end
