(* ===== verification/Metadata.thy ===== *)
theory Metadata
  imports BoxIds
begin

text \<open>
  \<open>crates/pbox-core/src/metadata.rs\<close>: the marker comment in a container's notes that
  holds pbox's record of the box. JSON and base64 are library code, so they are
  parameters, collected in a record.
\<close>

record recipe_provenance =
  rp_id :: string
  rp_repository :: string
  rp_revision :: string
  rp_applied_at :: "string option"
  rp_result :: "string option"

record pbox_metadata =
  pm_id :: string
  pm_vmid :: nat
  pm_image :: "string option"
  pm_snapshot :: "string option"
  pm_node :: "string option"
  pm_recipes :: "recipe_provenance list"
  pm_capabilities :: "string list"

definition metadata_new :: "string \<Rightarrow> nat \<Rightarrow> pbox_metadata" where
  "metadata_new box_id vmid =
     \<lparr>pm_id = box_id, pm_vmid = vmid, pm_image = None, pm_snapshot = None, pm_node = None,
      pm_recipes = [], pm_capabilities = []\<rparr>"

definition with_node :: "pbox_metadata \<Rightarrow> string \<Rightarrow> pbox_metadata" where
  "with_node m node = m\<lparr>pm_node := Some node\<rparr>"

datatype metadata_error = UnterminatedMarker | MultipleMarkers | InvalidJson

text \<open>\<open>serde_json\<close> and the URL-safe unpadded base64 engine, on bytes.\<close>

record meta_codec =
  to_json :: "pbox_metadata \<Rightarrow> string option"
  from_json :: "string \<Rightarrow> pbox_metadata option"
  b64_encode :: "string \<Rightarrow> string"
  b64_decode :: "string \<Rightarrow> string option"

definition MARKER_PREFIX :: string where "MARKER_PREFIX = ''<!-- pbox-meta-v1''"
definition MARKER_SUFFIX :: string where "MARKER_SUFFIX = ''-->''"

section \<open>Operations\<close>

definition encode_metadata :: "meta_codec \<Rightarrow> pbox_metadata \<Rightarrow> (metadata_error, string) result" where
  "encode_metadata c metadata =
     and_then (ok_or InvalidJson (to_json c metadata)) (\<lambda>json.
       Inr (MARKER_PREFIX @ '' '' @ b64_encode c json @ '' '' @ MARKER_SUFFIX))"

lemma find_prefix_nonempty: "find_sub MARKER_PREFIX s = Some r \<Longrightarrow> 0 < length s"
  by (cases s) (auto simp: MARKER_PREFIX_def)

text \<open>The loop of \<open>marker_spans\<close>: \<open>rest\<close> is the text from the offset \<open>search_from\<close> on.\<close>

function spans_from :: "nat \<Rightarrow> string \<Rightarrow> (metadata_error, (nat \<times> nat) list) result" where
  "spans_from search_from rest =
     (case find_sub MARKER_PREFIX rest of
        None \<Rightarrow> Inr []
      | Some relative_start \<Rightarrow>
          (case find_sub MARKER_SUFFIX (drop relative_start rest) of
             None \<Rightarrow> Inl UnterminatedMarker
           | Some relative_end \<Rightarrow>
               let n = relative_start + relative_end + length MARKER_SUFFIX in
               and_then (spans_from (search_from + n) (drop n rest))
                 (\<lambda>spans. Inr ((search_from + relative_start, search_from + n) # spans))))"
  by pat_completeness auto
termination
  by (relation "measure (\<lambda>(_, rest). length rest)")
     (auto simp: MARKER_SUFFIX_def dest!: find_prefix_nonempty)

declare spans_from.simps [simp del]

definition marker_spans :: "string \<Rightarrow> (metadata_error, (nat \<times> nat) list) result" where
  "marker_spans markdown = spans_from 0 markdown"

definition parse_span ::
  "meta_codec \<Rightarrow> string \<Rightarrow> nat \<times> nat \<Rightarrow> (metadata_error, pbox_metadata) result" where
  "parse_span c markdown span =
     (let marker = take (snd span - fst span) (drop (fst span) markdown);
          payload = (case strip_prefix marker MARKER_PREFIX of
                       None \<Rightarrow> []
                     | Some v \<Rightarrow> (case strip_suffix v MARKER_SUFFIX of
                                   None \<Rightarrow> []
                                 | Some w \<Rightarrow> trim w))
      in case b64_decode c payload of
           Some decoded \<Rightarrow> ok_or InvalidJson (from_json c decoded)
         | None \<Rightarrow> ok_or InvalidJson (from_json c payload))"

definition parse_metadata ::
  "meta_codec \<Rightarrow> string \<Rightarrow> (metadata_error, pbox_metadata option) result" where
  "parse_metadata c markdown =
     and_then (marker_spans markdown) (\<lambda>spans.
       case spans of
         [] \<Rightarrow> Inr None
       | [span] \<Rightarrow> and_then (parse_span c markdown span) (\<lambda>m. Inr (Some m))
       | _ \<Rightarrow> Inl MultipleMarkers)"

text \<open>The rewriting loop: \<open>first\<close> is \<open>index == 0\<close>.\<close>

fun splice_spans :: "string \<Rightarrow> string \<Rightarrow> bool \<Rightarrow> nat \<Rightarrow> (nat \<times> nat) list \<Rightarrow> string" where
  "splice_spans markdown marker first cursor [] = drop cursor markdown"
| "splice_spans markdown marker first cursor ((start, e) # spans) =
     take (start - cursor) (drop cursor markdown) @ (if first then marker else [])
     @ splice_spans markdown marker False e spans"

definition append_marker :: "string \<Rightarrow> string \<Rightarrow> string" where
  "append_marker markdown marker =
     (if markdown = [] then marker
      else if \<not> ends_with markdown ''\<newline>'' then markdown @ ''\<newline>\<newline>'' @ marker
      else markdown @ ''\<newline>'' @ marker)"

definition preserve_metadata ::
  "meta_codec \<Rightarrow> string \<Rightarrow> pbox_metadata \<Rightarrow> (metadata_error, string) result" where
  "preserve_metadata c markdown metadata =
     and_then (encode_metadata c metadata) (\<lambda>marker.
     and_then (marker_spans markdown) (\<lambda>spans.
       if spans = [] then Inr (append_marker markdown marker)
       else Inr (splice_spans markdown marker True 0 spans)))"

section \<open>Finding markers\<close>

definition b64_char :: "char \<Rightarrow> bool" where
  "b64_char ch \<longleftrightarrow> is_alnum ch \<or> ch = CHR ''-'' \<or> ch = CHR ''_''"

definition marker_of :: "string \<Rightarrow> string" where
  "marker_of payload = MARKER_PREFIX @ '' '' @ payload @ '' '' @ MARKER_SUFFIX"

text \<open>What is relied on of the libraries for one record.\<close>

definition codec_ok :: "meta_codec \<Rightarrow> pbox_metadata \<Rightarrow> bool" where
  "codec_ok c m \<longleftrightarrow>
     (case to_json c m of
        None \<Rightarrow> False
      | Some j \<Rightarrow> b64_decode c (b64_encode c j) = Some j \<and> from_json c j = Some m
                  \<and> list_all b64_char (b64_encode c j))"

lemma codec_ok_encode:
  "codec_ok c m \<Longrightarrow> \<exists>j. to_json c m = Some j \<and> list_all b64_char (b64_encode c j)
     \<and> encode_metadata c m = Inr (marker_of (b64_encode c j))
     \<and> b64_decode c (b64_encode c j) = Some j \<and> from_json c j = Some m"
  by (auto simp: codec_ok_def encode_metadata_def marker_of_def split: option.splits)

lemma find_marker_prefix:
  "find_sub MARKER_PREFIX u = None \<Longrightarrow> find_sub MARKER_PREFIX (u @ MARKER_PREFIX @ v) = Some (length u)"
  by (rule find_sub_unique_head [where x = "CHR ''<''" and q = "''!-- pbox-meta-v1''"])
     (simp_all add: MARKER_PREFIX_def)

lemma find_marker_suffix:
  "CHR ''>'' \<notin> set u \<Longrightarrow> find_sub MARKER_SUFFIX (u @ MARKER_SUFFIX @ v) = Some (length u)"
  by (rule find_sub_unique_last [where x = "CHR ''>''" and q = "''--''"])
     (simp_all add: MARKER_SUFFIX_def)

lemma b64_no_gt: "list_all b64_char p \<Longrightarrow> CHR ''>'' \<notin> set p"
  by (auto simp: list_all_iff b64_char_def char_class_defs)

lemma spans_from_None: "find_sub MARKER_PREFIX u = None \<Longrightarrow> spans_from n u = Inr []"
  by (simp add: spans_from.simps)

lemma spans_from_marker:
  assumes u: "find_sub MARKER_PREFIX u = None" and p: "list_all b64_char p"
  shows "spans_from n (u @ marker_of p @ v) =
    and_then (spans_from (n + length u + length (marker_of p)) v)
      (\<lambda>spans. Inr ((n + length u, n + length u + length (marker_of p)) # spans))"
proof -
  let ?body = "MARKER_PREFIX @ '' '' @ p @ '' ''"
  have m: "marker_of p = ?body @ MARKER_SUFFIX" by (simp add: marker_of_def)
  have s: "find_sub MARKER_PREFIX (u @ marker_of p @ v) = Some (length u)"
    using find_marker_prefix [OF u] by (simp add: marker_of_def)
  have "CHR ''>'' \<notin> set ?body" using b64_no_gt [OF p] by (simp add: MARKER_PREFIX_def)
  from find_marker_suffix [OF this, of v]
  obtain k where e: "find_sub MARKER_SUFFIX (marker_of p @ v) = Some k"
    and k: "k + length MARKER_SUFFIX = length (marker_of p)"
    by (auto simp: m)
  show ?thesis
    by (subst spans_from.simps) (simp add: s e k Let_def add.assoc)
qed

lemma trim_payload:
  assumes "list_all b64_char p"
  shows "trim ('' '' @ p @ '' '') = p"
proof (cases "p = []")
  case True
  then show ?thesis
    using trim_end_space [of "[]"] by (simp add: trim_def trim_start_id trim_end_id)
next
  case False
  have r: "printable x" if "x \<in> set p" for x
    using assms that by (auto simp: list_all_iff b64_char_def char_class_defs printable_def)
  have "trim_start (p @ '' '') = p @ '' ''"
    using False r by (intro trim_start_printable) auto
  moreover have "trim_end p = p" using False r by (intro trim_end_printable) auto
  ultimately show ?thesis by (simp add: trim_def)
qed

lemma spans_from_Nil_iff: "spans_from n u = Inr [] \<longleftrightarrow> find_sub MARKER_PREFIX u = None"
  by (subst spans_from.simps) (auto simp: Let_def res_simps split: option.splits)

lemma spans_from_Cons:
  assumes "spans_from n rest = Inr ((s, e) # spans)"
  shows "\<exists>u b v. rest = u @ b @ v \<and> s = n + length u \<and> e = n + length u + length b
    \<and> find_sub MARKER_PREFIX u = None \<and> spans_from e v = Inr spans"
proof -
  from assms obtain r k where r: "find_sub MARKER_PREFIX rest = Some r"
    and k: "find_sub MARKER_SUFFIX (drop r rest) = Some k"
    and s: "s = n + r" and e: "e = n + (r + k + length MARKER_SUFFIX)"
    and sp: "spans_from e (drop (r + k + length MARKER_SUFFIX) rest) = Inr spans"
    by (subst (asm) spans_from.simps)
       (auto simp: Let_def res_simps split: option.splits)
  let ?u = "take r rest" and ?b = "take (k + length MARKER_SUFFIX) (drop r rest)"
    and ?v = "drop (r + k + length MARKER_SUFFIX) rest"
  have v: "drop (k + length MARKER_SUFFIX) (drop r rest) = ?v"
    unfolding drop_drop by (simp only: ac_simps)
  have "rest = ?u @ ?b @ ?v"
    using append_take_drop_id [of r rest]
      append_take_drop_id [of "k + length MARKER_SUFFIX" "drop r rest"] unfolding v by metis
  moreover have "length ?u = r" using find_sub_SomeD [OF r] by simp
  moreover have "length ?b = k + length MARKER_SUFFIX"
  proof -
    obtain w where "drop k (drop r rest) = MARKER_SUFFIX @ w"
      using find_sub_SomeD [OF k] by (auto simp: starts_with_iff)
    then have "length (drop k (drop r rest)) = length MARKER_SUFFIX + length w" by simp
    then show ?thesis by (simp add: MARKER_SUFFIX_def)
  qed
  moreover have "find_sub MARKER_PREFIX ?u = None"
    using find_sub_take_None [OF r] by (simp add: MARKER_PREFIX_def)
  ultimately show ?thesis using s e sp by (intro exI [of _ ?u] exI [of _ ?b] exI [of _ ?v]) simp
qed

lemma marker_spans_around:
  assumes "find_sub MARKER_PREFIX u = None" "find_sub MARKER_PREFIX v = None" "list_all b64_char p"
  shows "marker_spans (u @ marker_of p @ v) = Inr [(length u, length u + length (marker_of p))]"
  using spans_from_marker [OF assms(1,3), of 0 v] spans_from_None [OF assms(2)]
  by (simp add: marker_spans_def)

lemma parse_around:
  assumes "find_sub MARKER_PREFIX u = None" "find_sub MARKER_PREFIX v = None" "codec_ok c m"
    and "encode_metadata c m = Inr mk"
  shows "parse_metadata c (u @ mk @ v) = Inr (Some m)"
proof -
  from codec_ok_encode [OF assms(3)] assms(4) obtain j where
    j: "list_all b64_char (b64_encode c j)" "mk = marker_of (b64_encode c j)"
      "b64_decode c (b64_encode c j) = Some j" "from_json c j = Some m" by auto
  let ?mk = "marker_of (b64_encode c j)"
  have t: "take (length ?mk) (drop (length u) (u @ ?mk @ v)) = ?mk" by simp
  have "strip_prefix ?mk MARKER_PREFIX = Some ('' '' @ b64_encode c j @ '' '' @ MARKER_SUFFIX)"
    by (simp add: marker_of_def strip_prefix_Some_iff)
  moreover have "strip_suffix ('' '' @ b64_encode c j @ '' '' @ MARKER_SUFFIX) MARKER_SUFFIX
      = Some ('' '' @ b64_encode c j @ '' '')"
    by (simp add: strip_suffix_Some_iff)
  ultimately have "parse_span c (u @ ?mk @ v) (length u, length u + length ?mk) = Inr m"
    using j(3,4) trim_payload [OF j(1)] by (simp add: parse_span_def t Let_def)
  then show ?thesis
    using marker_spans_around [OF assms(1,2) j(1)] j(2) by (simp add: parse_metadata_def)
qed

lemma append_marker_shape:
  assumes "find_sub MARKER_PREFIX md = None"
  shows "\<exists>u. append_marker md mk = u @ mk @ [] \<and> find_sub MARKER_PREFIX u = None"
proof -
  have p: "MARKER_PREFIX = ''<!-- pbox-meta-v'' @ ''1''" by (simp add: MARKER_PREFIX_def)
  have "find_sub MARKER_PREFIX (md @ w) = None" if "set w \<subseteq> {CHR 0x0A}" for w
    using find_sub_append_None [OF p assms, of w] that by auto
  from this [of "''\<newline>''"] this [of "''\<newline>\<newline>''"] show ?thesis
    by (auto simp: append_marker_def MARKER_PREFIX_def
        intro: exI [of _ "[]"] exI [of _ "md @ ''\<newline>''"] exI [of _ "md @ ''\<newline>\<newline>''"])
qed

lemma single_span_shape:
  assumes "marker_spans md = Inr [(s, e)]"
  shows "\<exists>u b v. md = u @ b @ v \<and> s = length u \<and> e = length u + length b
    \<and> find_sub MARKER_PREFIX u = None \<and> find_sub MARKER_PREFIX v = None"
  using spans_from_Cons [OF assms [unfolded marker_spans_def]] by (auto simp: spans_from_Nil_iff)

lemma preserve_single:
  assumes "marker_spans md = Inr [(s, e)]" and "encode_metadata c m = Inr mk"
  shows "preserve_metadata c md m = Inr (take s md @ mk @ drop e md)"
  using assms by (simp add: preserve_metadata_def)

lemma preserve_parse:
  assumes "codec_ok c m" and "marker_spans md = Inr spans" and "length spans \<le> 1"
  shows "\<exists>out. preserve_metadata c md m = Inr out \<and> parse_metadata c out = Inr (Some m)"
proof -
  obtain mk where mk: "encode_metadata c m = Inr mk" using codec_ok_encode [OF assms(1)] by blast
  show ?thesis
  proof (cases spans)
    case Nil
    with assms(2) have "find_sub MARKER_PREFIX md = None"
      by (simp add: marker_spans_def spans_from_Nil_iff)
    from append_marker_shape [OF this, of mk] obtain u where
      u: "append_marker md mk = u @ mk @ []" "find_sub MARKER_PREFIX u = None" by blast
    have "parse_metadata c (u @ mk @ []) = Inr (Some m)"
      using u(2) assms(1) mk by (intro parse_around) (auto simp: MARKER_PREFIX_def)
    with u(1) Nil assms(2) mk show ?thesis by (simp add: preserve_metadata_def)
  next
    case (Cons sp rest)
    then obtain s e where spans: "spans = [(s, e)]" using assms(3) by (cases sp) auto
    with assms(2) obtain u b v where d: "md = u @ b @ v" "s = length u" "e = length u + length b"
      "find_sub MARKER_PREFIX u = None" "find_sub MARKER_PREFIX v = None"
      using single_span_shape by blast
    have "parse_metadata c (u @ mk @ v) = Inr (Some m)"
      using d(4,5) assms(1) mk by (rule parse_around)
    moreover have "preserve_metadata c md m = Inr (u @ mk @ v)"
      using preserve_single [OF assms(2) [unfolded spans] mk] d by simp
    ultimately show ?thesis by blast
  qed
qed

section \<open>Properties\<close>

text \<open>
  C9: Writing a record into notes that hold at most one marker succeeds, and reading the
  notes gives the record back.
\<close>

theorem metadata_roundtrip:
  assumes "codec_ok c m" and "marker_spans md = Inr spans" and "length spans \<le> 1"
  shows "\<exists>out. preserve_metadata c md m = Inr out \<and> parse_metadata c out = Inr (Some m)"
  using assms by (rule preserve_parse)

text \<open>A concrete codec for the examples: it knows one record.\<close>

definition example_metadata :: pbox_metadata where
  "example_metadata = with_node (metadata_new ''pbx_t3yzd9y3'' 9000) ''pve-a''"

definition example_codec :: meta_codec where
  "example_codec =
     \<lparr>to_json = (\<lambda>_. Some ''{}''), from_json = (\<lambda>_. Some example_metadata),
      b64_encode = (\<lambda>_. ''e30''), b64_decode = (\<lambda>_. Some ''{}'')\<rparr>"

lemma example_codec_ok: "codec_ok example_codec example_metadata"
  by (simp add: codec_ok_def example_codec_def b64_char_def char_class_defs)

theorem metadata_roundtrip_witness:
  "\<exists>out. preserve_metadata example_codec ''Keep this'' example_metadata = Inr out
     \<and> parse_metadata example_codec out = Inr (Some example_metadata)"
proof -
  have "marker_spans ''Keep this'' = Inr []" by code_simp
  from metadata_roundtrip [OF example_codec_ok this] show ?thesis by simp
qed

text \<open>
  C10: Where the notes hold one marker, the text before and after it is kept byte for byte,
  and a later update replaces an earlier one in place.
\<close>

theorem preserve_metadata_in_place:
  assumes "codec_ok c m" and "codec_ok c m'" and "marker_spans md = Inr [(s, e)]"
  shows "\<exists>mk. encode_metadata c m = Inr mk
    \<and> preserve_metadata c md m = Inr (take s md @ mk @ drop e md)
    \<and> preserve_metadata c (take s md @ mk @ drop e md) m' = preserve_metadata c md m'"
proof -
  obtain j mk' where mk: "encode_metadata c m = Inr (marker_of (b64_encode c j))"
    "list_all b64_char (b64_encode c j)" "encode_metadata c m' = Inr mk'"
    using codec_ok_encode [OF assms(1)] codec_ok_encode [OF assms(2)] by blast
  let ?mk = "marker_of (b64_encode c j)"
  from single_span_shape [OF assms(3)] obtain u b v where
    d: "md = u @ b @ v" "s = length u" "e = length u + length b"
      "find_sub MARKER_PREFIX u = None" "find_sub MARKER_PREFIX v = None" by blast
  have out: "take s md @ ?mk @ drop e md = u @ ?mk @ v" using d by simp
  have "marker_spans (u @ ?mk @ v) = Inr [(length u, length u + length ?mk)]"
    using d(4,5) mk(2) by (rule marker_spans_around)
  from preserve_single [OF this mk(3)]
  have "preserve_metadata c (u @ ?mk @ v) m' = Inr (u @ mk' @ v)" by simp
  moreover have "preserve_metadata c md m' = Inr (u @ mk' @ v)"
    using preserve_single [OF assms(3) mk(3)] d by simp
  ultimately show ?thesis using preserve_single [OF assms(3) mk(1)] mk(1) out by auto
qed

theorem preserve_metadata_in_place_witness:
  "\<exists>mk. encode_metadata example_codec example_metadata = Inr mk
     \<and> preserve_metadata example_codec (''a'' @ marker_of ''QQ'' @ ''b'') example_metadata
       = Inr (take 1 (''a'' @ marker_of ''QQ'' @ ''b'') @ mk @ drop 25 (''a'' @ marker_of ''QQ'' @ ''b''))"
proof -
  have "marker_spans (''a'' @ marker_of ''QQ'' @ ''b'') = Inr [(1, 25)]" by code_simp
  from preserve_metadata_in_place [OF example_codec_ok example_codec_ok this] show ?thesis by blast
qed

text \<open>
  C11: Removing a stale second marker can join the text on its two sides into the start
  of a new, unterminated marker: notes that parse into two markers are rewritten into notes
  that no longer parse.
\<close>

theorem collapse_can_corrupt:
  assumes "codec_ok c m"
  shows "\<exists>md out a b. marker_spans md = Inr [a, b] \<and> preserve_metadata c md m = Inr out
    \<and> parse_metadata c out = Inl UnterminatedMarker"
proof -
  let ?md = "marker_of ''QQ'' @ ''<!-- pbox'' @ marker_of ''QQ'' @ ''-meta-v1''"
  obtain j where j: "list_all b64_char (b64_encode c j)"
    "encode_metadata c m = Inr (marker_of (b64_encode c j))"
    using codec_ok_encode [OF assms] by blast
  let ?mk = "marker_of (b64_encode c j)"
  have s: "marker_spans ?md = Inr [(0, 24), (33, 57)]" by code_simp
  have d: "drop 24 ?md = ''<!-- pbox'' @ marker_of ''QQ'' @ ''-meta-v1''" "drop 57 ?md = ''-meta-v1''"
    "take 9 (drop 24 ?md) = ''<!-- pbox''"
    by (simp_all add: marker_of_def MARKER_PREFIX_def MARKER_SUFFIX_def)
  have out: "preserve_metadata c ?md m = Inr (?mk @ ''<!-- pbox-meta-v1'')"
    using s j(2) d by (simp add: preserve_metadata_def)
  have bad: "spans_from n ''<!-- pbox-meta-v1'' = Inl UnterminatedMarker" for n
  proof -
    have "find_sub MARKER_PREFIX ''<!-- pbox-meta-v1'' = Some 0"
      "find_sub MARKER_SUFFIX (drop 0 ''<!-- pbox-meta-v1'') = None" by code_simp+
    then show ?thesis by (subst spans_from.simps) simp
  qed
  have "find_sub MARKER_PREFIX [] = None" by (simp add: MARKER_PREFIX_def)
  from spans_from_marker [OF this j(1), of 0 "''<!-- pbox-meta-v1''"]
  have "marker_spans (?mk @ ''<!-- pbox-meta-v1'') = Inl UnterminatedMarker"
    by (simp add: marker_spans_def bad)
  then have "parse_metadata c (?mk @ ''<!-- pbox-meta-v1'') = Inl UnterminatedMarker"
    by (simp add: parse_metadata_def)
  with s out show ?thesis by blast
qed

theorem collapse_can_corrupt_witness:
  "\<exists>md out a b. marker_spans md = Inr [a, b]
     \<and> preserve_metadata example_codec md example_metadata = Inr out
     \<and> parse_metadata example_codec out = Inl UnterminatedMarker"
  using collapse_can_corrupt [OF example_codec_ok] .

end
