(* ===== verification/Vmid.thy ===== *)
theory Vmid
  imports Interfaces
begin

text \<open>
  \<open>crates/pbox-core/src/vmid.rs\<close>: the pattern of numeric container ids pbox may
  use (a decimal prefix and wildcard digits), its range, its text and the allocation of
  the lowest free id.
\<close>

record vmid_pattern =
  vp_prefix :: nat
  vp_wildcard_digits :: nat
  vp_first :: nat
  vp_last :: nat

datatype vmid_error = InvalidPattern | Overflow | Exhausted string

section \<open>Parsing and printing\<close>

definition parse_pattern :: "string \<Rightarrow> (vmid_error, vmid_pattern) result" where
  "parse_pattern pattern =
     (if length pattern < 2 \<or> \<not> is_digit (hd pattern) \<or> hd pattern = CHR ''0''
      then Inl InvalidPattern
      else and_then (ok_or InvalidPattern (find_sub ''x'' pattern)) (\<lambda>wildcard_start.
        if wildcard_start = 0
           \<or> \<not> list_all (\<lambda>b. b = CHR ''x'') (drop wildcard_start pattern)
           \<or> \<not> list_all is_digit (take wildcard_start pattern)
        then Inl InvalidPattern
        else let prefix_text = take wildcard_start pattern in
          if length prefix_text > 1 \<and> starts_with prefix_text ''0'' then Inl InvalidPattern
          else and_then (ok_or Overflow (parse_u64 prefix_text)) (\<lambda>prefix.
            and_then (ok_or Overflow (if length pattern - wildcard_start \<le> U32_MAX
                                      then Some (length pattern - wildcard_start) else None))
              (\<lambda>wildcard_digits.
            and_then (ok_or Overflow (checked_pow 10 wildcard_digits)) (\<lambda>factor.
            and_then (ok_or Overflow (checked_mul prefix factor)) (\<lambda>first.
            and_then (ok_or Overflow (checked_add first (factor - 1))) (\<lambda>last.
            Inr \<lparr>vp_prefix = prefix, vp_wildcard_digits = wildcard_digits,
                 vp_first = first, vp_last = last\<rparr>)))))))"

definition show_pattern :: "vmid_pattern \<Rightarrow> string" where
  "show_pattern p = show_nat (vp_prefix p) @ replicate (vp_wildcard_digits p) (CHR ''x'')"

definition vmid_contains :: "vmid_pattern \<Rightarrow> nat \<Rightarrow> bool" where
  "vmid_contains p vmid \<longleftrightarrow> vp_first p \<le> vmid \<and> vmid \<le> vp_last p"

text \<open>What a parsed pattern satisfies.\<close>

definition wf_pattern :: "vmid_pattern \<Rightarrow> bool" where
  "wf_pattern p \<longleftrightarrow>
     0 < vp_prefix p \<and> 0 < vp_wildcard_digits p \<and> vp_wildcard_digits p \<le> U32_MAX
     \<and> vp_first p = vp_prefix p * 10 ^ vp_wildcard_digits p
     \<and> vp_last p = vp_first p + (10 ^ vp_wildcard_digits p - 1)
     \<and> vp_last p \<le> U64_MAX"

lemma checked_Some_iff:
  "checked_add a b = Some c \<longleftrightarrow> c = a + b \<and> c \<le> U64_MAX"
  "checked_mul a b = Some c \<longleftrightarrow> c = a * b \<and> c \<le> U64_MAX"
  "checked_pow a b = Some c \<longleftrightarrow> c = a ^ b \<and> c \<le> U64_MAX"
  by (auto simp: checked_add_def checked_mul_def checked_pow_def)

lemma list_all_eq_replicate: "list_all (\<lambda>b. b = c) s \<longleftrightarrow> s = replicate (length s) c"
  by (induction s) auto

lemma parse_uint_digits:
  "s \<noteq> [] \<Longrightarrow> list_all is_digit s \<Longrightarrow> parse_uint limit s = (if digits_val s \<le> limit then Some (digits_val s) else None)"
  by (cases s) (auto simp: parse_uint_def strip_prefix_def starts_with_def parse_digits_def)

text \<open>The text of a pattern: digits without a leading zero, then at least one wildcard.\<close>

lemma pattern_text_shape:
  assumes "\<not> (length t < 2 \<or> \<not> is_digit (hd t) \<or> hd t = CHR ''0'')"
    and w: "find_sub ''x'' t = Some w"
    and ok: "\<not> (w = 0 \<or> \<not> list_all (\<lambda>b. b = CHR ''x'') (drop w t)
                \<or> \<not> list_all is_digit (take w t))"
  shows "t = take w t @ replicate (length t - w) (CHR ''x'')" and "take w t \<noteq> []"
    and "hd (take w t) \<noteq> CHR ''0''" and "0 < length t - w"
proof -
  from find_sub_SomeD [OF w] obtain v where v: "drop w t = ''x'' @ v"
    by (auto simp: starts_with_iff)
  then have "length (drop w t) = Suc (length v)" by simp
  then show wl: "0 < length t - w" by simp
  have "drop w t = replicate (length t - w) (CHR ''x'')"
    using ok by (simp add: list_all_eq_replicate)
  then show "t = take w t @ replicate (length t - w) (CHR ''x'')"
    by (metis append_take_drop_id)
  show ne: "take w t \<noteq> []" using ok assms(1) by (cases t) auto
  show "hd (take w t) \<noteq> CHR ''0''" using assms(1) ok by (cases t; cases w) auto
qed

lemma parse_pattern_shape:
  assumes "parse_pattern t = Inr p"
  shows "show_pattern p = t \<and> wf_pattern p"
proof -
  from assms obtain w where g: "\<not> (length t < 2 \<or> \<not> is_digit (hd t) \<or> hd t = CHR ''0'')"
    and w: "find_sub ''x'' t = Some w"
    and ok: "\<not> (w = 0 \<or> \<not> list_all (\<lambda>b. b = CHR ''x'') (drop w t)
                \<or> \<not> list_all is_digit (take w t))"
    by (auto simp: parse_pattern_def Let_def res_simps split: if_splits)
  note sh = pattern_text_shape [OF g w ok]
  have dg: "list_all is_digit (take w t)" using ok by simp
  have u: "parse_u64 (take w t) =
      (if digits_val (take w t) \<le> U64_MAX then Some (digits_val (take w t)) else None)"
    using sh(2) dg by (rule parse_uint_digits)
  have p: "vp_prefix p = digits_val (take w t)" "vp_wildcard_digits p = length t - w"
    "vp_wildcard_digits p \<le> U32_MAX"
    "vp_first p = vp_prefix p * 10 ^ vp_wildcard_digits p"
    "vp_last p = vp_first p + (10 ^ vp_wildcard_digits p - 1)" "vp_last p \<le> U64_MAX"
    using assms g w ok
    by (auto simp: parse_pattern_def Let_def res_simps checked_Some_iff u split: if_splits)
  have "0 < vp_prefix p" using digits_val_pos [OF dg sh(2,3)] p(1) by simp
  moreover have "show_pattern p = t"
    using sh(1) show_nat_digits_val [OF dg sh(2,3)] p(1,2) by (simp add: show_pattern_def)
  ultimately show ?thesis using p sh(4) by (simp add: wf_pattern_def)
qed

lemma wf_pattern_le:
  assumes "wf_pattern p"
  shows "vp_first p \<le> vp_last p" "vp_prefix p \<le> vp_first p"
    "10 ^ vp_wildcard_digits p \<le> vp_first p"
proof -
  from assms have e: "vp_last p = vp_first p + (10 ^ vp_wildcard_digits p - 1)"
    "vp_first p = vp_prefix p * 10 ^ vp_wildcard_digits p" "0 < vp_prefix p"
    unfolding wf_pattern_def by blast+
  show "vp_first p \<le> vp_last p" unfolding e(1) by (rule le_add1)
  show "vp_prefix p \<le> vp_first p" "10 ^ vp_wildcard_digits p \<le> vp_first p"
    unfolding e(2) using e(3) by simp_all
qed

lemma parse_show_pattern:
  assumes "wf_pattern p"
  shows "parse_pattern (show_pattern p) = Inr p"
proof -
  let ?d = "show_nat (vp_prefix p)" and ?n = "vp_wildcard_digits p"
  let ?t = "?d @ replicate ?n (CHR ''x'')"
  have n: "0 < ?n" "?n \<le> U32_MAX" and pos: "0 < vp_prefix p"
    using assms by (auto simp: wf_pattern_def)
  then obtain m where m: "?n = Suc m" by (cases ?n) auto
  have dl: "0 < length ?d" by simp
  have hd: "hd ?t = hd ?d" using dl by simp
  have hdd: "is_digit (hd ?d)" using show_nat_digits [of "vp_prefix p"]
    by (cases ?d) auto
  have nx: "CHR ''x'' \<notin> set ?d" using show_nat_digit_in by fastforce
  have "find_sub ''x'' (?d @ ''x'' @ replicate m (CHR ''x'')) = Some (length ?d)"
    using nx by (intro find_sub_unique_last [where q = "[]"]) auto
  then have w: "find_sub ''x'' ?t = Some (length ?d)" by (simp add: m)
  have nz: "hd ?d \<noteq> CHR ''0''" using pos by (rule show_nat_no_leading_zero)
  note f = wf_pattern_le [OF assms]
  have le: "vp_last p \<le> U64_MAX" using assms unfolding wf_pattern_def by blast
  have len2: "\<not> length ?t < 2" using dl n(1) by (simp add: m)
  have p10: "10 ^ ?n \<le> U64_MAX" using f le by linarith
  have u: "parse_u64 ?d = Some (vp_prefix p)" using f le by (intro parse_uint_show_nat) linarith
  have nz2: "\<not> starts_with ?d ''0''" using nz dl by (cases ?d) (auto simp: starts_with_def)
  have le1: "vp_first p \<le> U64_MAX" using f(1) le by linarith
  from assms have e: "vp_prefix p * 10 ^ ?n = vp_first p"
    "vp_first p + (10 ^ ?n - 1) = vp_last p"
    unfolding wf_pattern_def by metis+
  have c1: "checked_pow 10 ?n = Some (10 ^ ?n)" by (simp add: checked_pow_def p10)
  have c2: "checked_mul (vp_prefix p) (10 ^ ?n) = Some (vp_first p)"
    unfolding checked_mul_def e(1) by (simp only: le1 if_True)
  have c3: "checked_add (vp_first p) (10 ^ ?n - 1) = Some (vp_last p)"
    unfolding checked_add_def e(2) by (simp only: le if_True)
  have lx: "length ?t - length ?d = ?n" by simp
  show ?thesis
    unfolding parse_pattern_def show_pattern_def
    using lx len2 hd hdd nz nz2 w dl u n c1 c2 c3
    by (simp add: show_nat_digits list_all_eq_replicate Let_def del: length_append)
qed

section \<open>The codec and the range\<close>

interpretation vmid_text: canonical_codec show_pattern parse_pattern wf_pattern
  by unfold_locales (auto simp: parse_show_pattern dest: parse_pattern_shape)

text \<open>
  \<open>VmidPattern\<close> is a canonical codec: the pattern read from a text prints that very
  text, a well-formed pattern is read back unchanged, and exactly the texts of well-formed
  patterns are accepted.
\<close>

theorem vmid_pattern_roundtrip:
  "(is_ok (parse_pattern t) \<longleftrightarrow> (\<exists>p. wf_pattern p \<and> t = show_pattern p))
   \<and> (wf_pattern p \<longleftrightarrow> parse_pattern (show_pattern p) = Inr p)"
  using vmid_text.accepted_iff vmid_text.parse_show vmid_text.parse_wf by blast

lemma div_in_range:
  assumes "0 < (k::nat)"
  shows "a * k \<le> v \<and> v \<le> a * k + (k - 1) \<longleftrightarrow> v div k = a"
proof
  assume "a * k \<le> v \<and> v \<le> a * k + (k - 1)"
  then have "v - a * k < k" "v = a * k + (v - a * k)" using assms by auto
  then show "v div k = a"
    by (metis add.commute assms div_less div_mult_self3 less_nat_zero_code add_0)
next
  assume "v div k = a"
  then have "v = a * k + v mod k" by (metis div_mult_mod_eq)
  moreover have "v mod k \<le> k - 1" using assms by (simp add: less_Suc_eq_le [symmetric])
  ultimately show "a * k \<le> v \<and> v \<le> a * k + (k - 1)" by linarith
qed

lemma vmid_contains_div:
  "wf_pattern p \<Longrightarrow> vmid_contains p v \<longleftrightarrow> v div 10 ^ vp_wildcard_digits p = vp_prefix p"
  using div_in_range [of "10 ^ vp_wildcard_digits p" "vp_prefix p" v]
  by (simp add: vmid_contains_def wf_pattern_def)

lemma show_nat_div_pow:
  "0 < v div 10 ^ n \<Longrightarrow>
   \<exists>ds. length ds = n \<and> list_all is_digit ds \<and> show_nat v = show_nat (v div 10 ^ n) @ ds"
proof (induction n arbitrary: v)
  case (Suc n)
  then have pos: "0 < v div 10 div 10 ^ n" by (simp add: div_mult2_eq)
  then have "\<not> v < 10" by (auto intro!: Nat.gr0I)
  then have "show_nat v = show_nat (v div 10) @ [digit_char (v mod 10)]"
    by (simp add: show_nat.simps [of v])
  with Suc.IH [OF pos] show ?case by (force simp: div_mult2_eq)
qed simp

text \<open>
  A pattern contains exactly the numbers whose decimal text is its prefix followed by
  one digit for each wildcard.
\<close>

theorem vmid_contains_text:
  assumes "wf_pattern p"
  shows "vmid_contains p v \<longleftrightarrow>
    (\<exists>ds. length ds = vp_wildcard_digits p \<and> list_all is_digit ds
          \<and> show_nat v = show_nat (vp_prefix p) @ ds)"
proof
  assume "vmid_contains p v"
  with assms have "v div 10 ^ vp_wildcard_digits p = vp_prefix p"
    by (simp add: vmid_contains_div)
  with assms show_nat_div_pow [of v "vp_wildcard_digits p"]
  show "\<exists>ds. length ds = vp_wildcard_digits p \<and> list_all is_digit ds
          \<and> show_nat v = show_nat (vp_prefix p) @ ds"
    by (simp add: wf_pattern_def)
next
  assume "\<exists>ds. length ds = vp_wildcard_digits p \<and> list_all is_digit ds
          \<and> show_nat v = show_nat (vp_prefix p) @ ds"
  then obtain ds where ds: "length ds = vp_wildcard_digits p" "list_all is_digit ds"
    "show_nat v = show_nat (vp_prefix p) @ ds" by blast
  from ds(3) have "v = digits_val (show_nat (vp_prefix p) @ ds)" by (metis digits_val_show_nat)
  also have "\<dots> = vp_prefix p * 10 ^ length ds + digits_val ds"
    by (simp add: digits_val_append)
  finally have "v div 10 ^ length ds = vp_prefix p"
    using digits_val_less [OF ds(2)] by simp
  with assms ds(1) show "vmid_contains p v" by (simp add: vmid_contains_div)
qed

theorem vmid_contains_text_witness:
  "wf_pattern \<lparr>vp_prefix = 9, vp_wildcard_digits = 3, vp_first = 9000, vp_last = 9999\<rparr>
   \<and> (\<exists>ds. length ds = 3 \<and> list_all is_digit ds \<and> show_nat 9042 = show_nat 9 @ ds)"
proof -
  have p: "wf_pattern \<lparr>vp_prefix = 9, vp_wildcard_digits = 3, vp_first = 9000, vp_last = 9999\<rparr>"
    by (simp add: wf_pattern_def U64_MAX_def U32_MAX_def)
  with vmid_contains_text [OF p, of 9042] show ?thesis by (simp add: vmid_contains_def)
qed

section \<open>Allocation\<close>

text \<open>
  The candidate loop. A candidate that is used leaves fewer used ids at or above it, so
  the loop stops; on a well-formed pattern it never passes \<open>last\<close>, so the addition
  does not overflow.
\<close>

function allocate_from :: "vmid_pattern \<Rightarrow> nat list \<Rightarrow> nat \<Rightarrow> (vmid_error, nat) result" where
  "allocate_from p used candidate =
     (if candidate \<notin> set used then Inr candidate
      else if candidate = vp_last p then Inl (Exhausted (show_pattern p))
      else allocate_from p used (candidate + 1))"
  by pat_completeness auto
termination
proof (relation "measure (\<lambda>(p, used, c). card {u \<in> set used. c \<le> u})")
  fix p :: vmid_pattern and used :: "nat list" and c :: nat
  assume "\<not> c \<notin> set used"
  then have "c \<in> {u \<in> set used. c \<le> u}" by simp
  moreover have "c \<notin> {u \<in> set used. c + 1 \<le> u}" by simp
  moreover have "{u \<in> set used. c + 1 \<le> u} \<subseteq> {u \<in> set used. c \<le> u}" by auto
  ultimately have "{u \<in> set used. c + 1 \<le> u} \<subset> {u \<in> set used. c \<le> u}" by blast
  then have "card {u \<in> set used. c + 1 \<le> u} < card {u \<in> set used. c \<le> u}"
    by (intro psubset_card_mono) auto
  then show "((p, used, c + 1), p, used, c) \<in> measure (\<lambda>(p, used, c). card {u \<in> set used. c \<le> u})"
    by simp
qed simp

declare allocate_from.simps [simp del]

definition allocate_lowest :: "vmid_pattern \<Rightarrow> nat list \<Rightarrow> (vmid_error, nat) result" where
  "allocate_lowest p used = allocate_from p used (vp_first p)"

lemma allocate_from_spec:
  assumes "c \<le> vp_last p"
  shows "(\<exists>v. allocate_from p used c = Inr v \<and> c \<le> v \<and> v \<le> vp_last p \<and> v \<notin> set used
            \<and> {c..<v} \<subseteq> set used)
         \<or> (allocate_from p used c = Inl (Exhausted (show_pattern p)) \<and> {c..vp_last p} \<subseteq> set used)"
  using assms
proof (induction p used c rule: allocate_from.induct)
  case (1 p used c)
  consider "c \<notin> set used" | "c \<in> set used" "c = vp_last p" | "c \<in> set used" "c < vp_last p"
    using "1.prems" by force
  then show ?case
  proof cases
    case 1
    then show ?thesis using "1.prems" by (simp add: allocate_from.simps [of p used c])
  next
    case 2
    then have "allocate_from p used c = Inl (Exhausted (show_pattern p))"
      by (subst allocate_from.simps) simp
    with 2 show ?thesis by auto
  next
    case 3
    then have step: "allocate_from p used c = allocate_from p used (c + 1)"
      by (simp add: allocate_from.simps [of p used c])
    have ins: "{c..<v} = insert c {c + 1..<v}" if "c < v" for v using that by auto
    have ins2: "{c..vp_last p} = insert c {c + 1..vp_last p}" using 3 by auto
    from 3 "1.IH" show ?thesis unfolding step ins2 by (auto simp: ins)
  qed
qed

text \<open>
  \<open>allocate_lowest\<close> returns the least number of the pattern's range that is not in
  use, and the exhaustion error names the pattern exactly when every number is in use.
\<close>

theorem allocate_lowest_correct:
  assumes "wf_pattern p"
  shows "(allocate_lowest p used = Inr v \<longleftrightarrow>
            vmid_contains p v \<and> v \<notin> set used
            \<and> (\<forall>u. vmid_contains p u \<and> u \<notin> set used \<longrightarrow> v \<le> u))
         \<and> (allocate_lowest p used = Inl e \<longleftrightarrow>
            e = Exhausted (show_pattern p) \<and> (\<forall>u. vmid_contains p u \<longrightarrow> u \<in> set used))"
proof -
  note le = wf_pattern_le(1) [OF assms]
  from allocate_from_spec [OF le, of used, folded allocate_lowest_def] show ?thesis
  proof (elim disjE exE conjE)
    fix w
    assume w: "allocate_lowest p used = Inr w" "vp_first p \<le> w" "w \<le> vp_last p"
      "w \<notin> set used" "{vp_first p..<w} \<subseteq> set used"
    have least: "w \<le> u" if "vp_first p \<le> u" "u \<notin> set used" for u
      using that w(5) by (meson atLeastLessThan_iff in_mono leI)
    show ?thesis unfolding w(1) using w(2-4) least
      by (auto simp: vmid_contains_def intro: antisym)
  next
    assume "allocate_lowest p used = Inl (Exhausted (show_pattern p))"
      "{vp_first p..vp_last p} \<subseteq> set used"
    then show ?thesis by (auto simp: vmid_contains_def)
  qed
qed

theorem allocate_lowest_correct_witness:
  "wf_pattern \<lparr>vp_prefix = 42, vp_wildcard_digits = 2, vp_first = 4200, vp_last = 4299\<rparr>
   \<and> allocate_lowest \<lparr>vp_prefix = 42, vp_wildcard_digits = 2, vp_first = 4200, vp_last = 4299\<rparr>
       [4202, 4200, 4201] = Inr 4203"
proof -
  let ?p = "\<lparr>vp_prefix = 42, vp_wildcard_digits = 2, vp_first = 4200, vp_last = 4299\<rparr> :: vmid_pattern"
  have p: "wf_pattern ?p" by (simp add: wf_pattern_def U64_MAX_def U32_MAX_def)
  have "vmid_contains ?p 4203 \<and> 4203 \<notin> set [4202, 4200, 4201::nat]
        \<and> (\<forall>u. vmid_contains ?p u \<and> u \<notin> set [4202, 4200, 4201::nat] \<longrightarrow> 4203 \<le> u)"
    by (auto simp: vmid_contains_def)
  with allocate_lowest_correct [OF p, of "[4202, 4200, 4201]" 4203] p show ?thesis by blast
qed

end
