(* ===== verification/Config.thy ===== *)
theory Config
  imports Vmid
begin

text \<open>
  \<open>crates/pbox-core/src/config.rs\<close>, first part: the configuration and its defaults,
  the validators, \<open>validate\<close>, \<open>set_value\<close>, \<open>unset_value\<close> and the redacted views.
  URL parsing is library code and a parameter; paths are their text.
\<close>

section \<open>Data\<close>

record pve_defaults =
  pd_cores :: nat
  pd_memory :: nat
  pd_swap :: nat
  pd_disk :: string
  pd_unprivileged :: bool
  pd_onboot :: bool

definition default_pve_defaults :: pve_defaults where
  "default_pve_defaults =
     \<lparr>pd_cores = 2, pd_memory = 1024, pd_swap = 256, pd_disk = ''8G'',
      pd_unprivileged = True, pd_onboot = False\<rparr>"

record pve_config =
  pv_url :: "string option"
  pv_token_id :: "string option"
  pv_token_secret :: "string option"
  pv_tls_insecure :: bool
  pv_node :: string
  pv_storage :: string
  pv_template_storage :: string
  pv_bridge :: string
  pv_defaults :: pve_defaults

definition default_pve_config :: pve_config where
  "default_pve_config =
     \<lparr>pv_url = None, pv_token_id = None, pv_token_secret = None, pv_tls_insecure = False,
      pv_node = ''auto'', pv_storage = ''auto'', pv_template_storage = ''local'',
      pv_bridge = ''vmbr0'', pv_defaults = default_pve_defaults\<rparr>"

record agent_config =
  ag_binary :: "string option"
  ag_port :: nat

definition default_agent_config :: agent_config where
  "default_agent_config = \<lparr>ag_binary = None, ag_port = 7443\<rparr>"

record recipe_config =
  rc_repository :: string
  rc_reference :: string
  rc_auto_sync :: bool
  rc_sync_ttl :: string
  rc_snapshot_before_apply :: string
  rc_rollback_on_failure :: bool

definition default_recipe_config :: recipe_config where
  "default_recipe_config =
     \<lparr>rc_repository = ''https://github.com/kierandrewett/pbox-recipes.git'',
      rc_reference = ''main'', rc_auto_sync = True, rc_sync_ttl = ''15m'',
      rc_snapshot_before_apply = ''auto'', rc_rollback_on_failure = False\<rparr>"

record image_config =
  ic_default :: string

definition default_image_config :: image_config where
  "default_image_config = \<lparr>ic_default = ''debian-13''\<rparr>"

record relay_config =
  rl_url :: "string option"
  rl_key_file :: "string option"

definition default_relay_config :: relay_config where
  "default_relay_config = \<lparr>rl_url = None, rl_key_file = None\<rparr>"

record config =
  cf_pve :: pve_config
  cf_agent :: agent_config
  cf_relay :: relay_config
  cf_images :: image_config
  cf_recipes :: recipe_config
  cf_vmid_pattern :: vmid_pattern

definition default_vmid_pattern :: vmid_pattern where
  "default_vmid_pattern =
     (case parse_pattern ''9xxx'' of
        Inr p \<Rightarrow> p
      | Inl _ \<Rightarrow> \<lparr>vp_prefix = 0, vp_wildcard_digits = 0, vp_first = 0, vp_last = 0\<rparr>)"

definition default_config :: config where
  "default_config =
     \<lparr>cf_pve = default_pve_config, cf_agent = default_agent_config,
      cf_relay = default_relay_config, cf_images = default_image_config,
      cf_recipes = default_recipe_config, cf_vmid_pattern = default_vmid_pattern\<rparr>"

text \<open>The \<open>expect\<close> on the default pattern does not fail.\<close>

lemma default_pattern_parses: "parse_pattern ''9xxx'' = Inr default_vmid_pattern"
proof -
  define p where
    "p = \<lparr>vp_prefix = 9, vp_wildcard_digits = 3, vp_first = 9000, vp_last = 9999\<rparr>"
  have "wf_pattern p" by (simp add: p_def wf_pattern_def U32_MAX_def U64_MAX_def)
  then have "parse_pattern (show_pattern p) = Inr p" by (rule parse_show_pattern)
  moreover have "show_pattern p = ''9xxx''" by (simp add: p_def) code_simp
  ultimately show ?thesis by (simp add: default_vmid_pattern_def)
qed

text \<open>\<open>reqwest::Url\<close>: the components of a parsed URL, and its parser and printer.\<close>

record url =
  u_scheme :: string
  u_username :: string
  u_password :: "string option"
  u_host :: "string option"
  u_path :: string
  u_query :: "string option"
  u_fragment :: "string option"

record url_lib =
  url_parse :: "string \<Rightarrow> url option"
  url_text :: "url \<Rightarrow> string"

text \<open>A library that parses no URL, for examples that have none.\<close>

definition no_urls :: url_lib where
  "no_urls = \<lparr>url_parse = \<lambda>_. None, url_text = \<lambda>_. []\<rparr>"

section \<open>Errors and validators\<close>

datatype config_error =
    ReadError string
  | WriteError string
  | ParseError
  | SerializeError
  | UnknownKey string
  | InvalidValue string string

definition validate_relay_url :: "url_lib \<Rightarrow> string \<Rightarrow> string \<Rightarrow> (config_error, unit) result" where
  "validate_relay_url lib key value =
     (case url_parse lib value of
        None \<Rightarrow> Inl (InvalidValue key ''expected a relay HTTP(S) or WS(S) origin'')
      | Some url \<Rightarrow>
          if u_scheme url \<notin> {''http'', ''https'', ''ws'', ''wss''}
             \<or> u_host url = None \<or> u_username url \<noteq> [] \<or> u_password url \<noteq> None
             \<or> u_query url \<noteq> None \<or> u_fragment url \<noteq> None
             \<or> u_path url \<notin> {'''', ''/''}
          then Inl (InvalidValue key
            ''expected a relay origin without credentials, path, query, or fragment'')
          else Inr ())"

definition parse_duration :: "string \<Rightarrow> (string, nat) result" where
  "parse_duration value =
     (let trimmed = trim value in
      if trimmed = [] then Inl ''duration cannot be empty''
      else
        let lst = last trimmed;
            scaled = (\<lambda>amount_text multiplier.
              and_then (ok_or ''duration amount must be an integer'' (parse_u64 amount_text))
                (\<lambda>amount. ok_or ''duration is too large'' (checked_mul amount multiplier)))
        in if lst = CHR ''s'' then scaled (butlast trimmed) 1
           else if lst = CHR ''m'' then scaled (butlast trimmed) 60
           else if lst = CHR ''h'' then scaled (butlast trimmed) (60 * 60)
           else if lst = CHR ''d'' then scaled (butlast trimmed) (60 * 60 * 24)
           else if is_digit lst then scaled trimmed 1
           else Inl ''use seconds, minutes, hours, or days'')"

definition validate_non_empty :: "string \<Rightarrow> string \<Rightarrow> string \<Rightarrow> (config_error, unit) result" where
  "validate_non_empty key value reason = ensure (trim value \<noteq> []) (InvalidValue key reason)"

definition validate_pve_url :: "url_lib \<Rightarrow> string \<Rightarrow> string \<Rightarrow> (config_error, unit) result" where
  "validate_pve_url lib key value =
     (if value \<noteq> trim value
      then Inl (InvalidValue key ''URL must not have surrounding whitespace'')
      else case url_parse lib (trim value) of
        None \<Rightarrow> Inl (InvalidValue key ''URL must be a valid HTTPS URL'')
      | Some parsed \<Rightarrow>
          if u_scheme parsed \<noteq> ''https'' \<or> u_host parsed = None
          then Inl (InvalidValue key ''URL must use HTTPS and include a host'')
          else if u_username parsed \<noteq> [] \<or> u_password parsed \<noteq> None
            \<or> u_query parsed \<noteq> None \<or> u_fragment parsed \<noteq> None
          then Inl (InvalidValue key
            ''URL must not contain credentials, query, or fragment data'')
          else Inr ())"

definition validate_snapshot_policy :: "string \<Rightarrow> string \<Rightarrow> (config_error, unit) result" where
  "validate_snapshot_policy key value =
     ensure (value \<in> {''auto'', ''always'', ''never''})
       (InvalidValue key ''expected auto, always, or never'')"

definition parse_bool :: "string \<Rightarrow> string \<Rightarrow> (config_error, bool) result" where
  "parse_bool key value =
     (if value = ''true'' then Inr True
      else if value = ''false'' then Inr False
      else Inl (InvalidValue key ''expected true or false''))"

definition parse_port :: "string \<Rightarrow> string \<Rightarrow> (config_error, nat) result" where
  "parse_port key value =
     and_then (ok_or (InvalidValue key ''expected a TCP port from 1 to 65535'') (parse_u16 value))
       (\<lambda>port. if port = 0
                then Inl (InvalidValue key ''expected a TCP port from 1 to 65535'')
                else Inr port)"

definition validate_positive :: "string \<Rightarrow> nat \<Rightarrow> (config_error, unit) result" where
  "validate_positive key value =
     ensure (value \<noteq> 0) (InvalidValue key ''expected a value greater than zero'')"

definition parse_unsigned :: "string \<Rightarrow> string \<Rightarrow> (config_error, nat) result" where
  "parse_unsigned key value =
     ok_or (InvalidValue key ''expected a non-negative integer'') (parse_u64 value)"

definition parse_positive :: "string \<Rightarrow> string \<Rightarrow> (config_error, nat) result" where
  "parse_positive key value =
     and_then (parse_unsigned key value) (\<lambda>parsed.
     and_then (validate_positive key parsed) (\<lambda>_. Inr parsed))"

definition validate_repository_reference ::
  "string \<Rightarrow> string \<Rightarrow> (config_error, unit) result" where
  "validate_repository_reference key value =
     and_then (validate_non_empty key value ''recipe repository cannot be empty'') (\<lambda>_.
     if CHR ''?'' \<in> set value \<or> CHR ''#'' \<in> set value
     then Inl (InvalidValue key ''recipe repository must not contain query or fragment data'')
     else if contains value ''::''
     then Inl (InvalidValue key ''recipe repository must not use Git external transport'')
     else case split_once value ''://'' of
       None \<Rightarrow> Inr ()
     | Some (scheme, authority_and_path) \<Rightarrow>
         let scheme = lowercase scheme;
             authority = takeWhile (\<lambda>c. c \<noteq> CHR ''/'' \<and> c \<noteq> CHR 0x5C) authority_and_path
         in if scheme \<notin> {''https'', ''ssh'', ''file''}
            then Inl (InvalidValue key
              ''recipe repository URLs must use HTTPS, SSH, or file transport'')
            else if CHR ''@'' \<in> set authority
            then Inl (InvalidValue key
              ''recipe repository URLs must not contain embedded credentials'')
            else if scheme \<noteq> ''file'' \<and> authority = []
            then Inl (InvalidValue key ''recipe repository URL must include a host'')
            else Inr ())"

section \<open>validate\<close>

definition opt_check :: "'a option \<Rightarrow> ('a \<Rightarrow> ('e, unit) result list) \<Rightarrow> ('e, unit) result list" where
  "opt_check x f = (case x of None \<Rightarrow> [] | Some a \<Rightarrow> f a)"

definition validate :: "url_lib \<Rightarrow> config \<Rightarrow> (config_error, unit) result" where
  "validate lib c =
     (let pve = cf_pve c; defaults = pv_defaults pve; recipes = cf_recipes c in
      all_checks
       (opt_check (rl_url (cf_relay c)) (\<lambda>url. [validate_relay_url lib ''relay.url'' url])
      @ opt_check (rl_key_file (cf_relay c)) (\<lambda>path.
          [validate_non_empty ''relay.key-file'' path ''relay key file path cannot be empty''])
      @ opt_check (pv_url pve) (\<lambda>url.
          [validate_non_empty ''pve.url'' url ''URL cannot be empty'',
           validate_pve_url lib ''pve.url'' url])
      @ opt_check (pv_token_id pve) (\<lambda>token_id.
          [validate_non_empty ''pve.token_id'' token_id ''token id cannot be empty''])
      @ opt_check (pv_token_secret pve) (\<lambda>secret.
          [ensure (secret \<noteq> []) (InvalidValue ''pve.token_secret'' ''token secret cannot be empty'')])
      @ opt_check (ag_binary (cf_agent c)) (\<lambda>binary.
          [ensure (binary \<noteq> []) (InvalidValue ''agent.binary'' ''agent binary path cannot be empty'')])
      @ [ensure (ag_port (cf_agent c) \<noteq> 0)
           (InvalidValue ''agent.port'' ''expected a TCP port from 1 to 65535''),
         validate_non_empty ''pve.node'' (pv_node pve) ''PVE node cannot be empty'',
         validate_non_empty ''pve.storage'' (pv_storage pve) ''PVE storage cannot be empty'',
         validate_non_empty ''pve.template-storage'' (pv_template_storage pve)
           ''PVE template storage cannot be empty'',
         validate_non_empty ''pve.bridge'' (pv_bridge pve) ''PVE bridge cannot be empty'',
         validate_positive ''pve.defaults.cores'' (pd_cores defaults),
         validate_positive ''pve.defaults.memory'' (pd_memory defaults),
         validate_non_empty ''pve.defaults.disk'' (pd_disk defaults)
           ''default disk size cannot be empty'',
         validate_non_empty ''images.default'' (ic_default (cf_images c))
           ''default image cannot be empty'',
         validate_repository_reference ''recipes.repository'' (rc_repository recipes),
         validate_non_empty ''recipes.ref'' (rc_reference recipes)
           ''recipe reference cannot be empty'',
         (case parse_duration (rc_sync_ttl recipes) of
            Inl reason \<Rightarrow> Inl (InvalidValue ''recipes.sync-ttl'' reason)
          | Inr _ \<Rightarrow> Inr ()),
         validate_snapshot_policy ''recipes.snapshot-before-apply''
           (rc_snapshot_before_apply recipes)]))"

section \<open>Keys\<close>

text \<open>One constructor for each arm of the matches on the key's text.\<close>

datatype config_key =
    KPveUrl | KPveTokenId | KPveTokenSecret | KPveTlsInsecure | KPveNode | KPveStorage
  | KPveTemplateStorage | KPveBridge | KCores | KMemory | KSwap | KDisk | KUnprivileged | KOnboot
  | KImagesDefault | KAgentBinary | KRelayUrl | KRelayKeyFile | KAgentPort | KRepository | KRef
  | KAutoSync | KSyncTtl | KSnapshotBeforeApply | KRollbackOnFailure | KVmidPattern

primrec key_name :: "config_key \<Rightarrow> string" where
  "key_name KPveUrl = ''pve.url''"
| "key_name KPveTokenId = ''pve.token_id''"
| "key_name KPveTokenSecret = ''pve.token_secret''"
| "key_name KPveTlsInsecure = ''pve.tls_insecure''"
| "key_name KPveNode = ''pve.node''"
| "key_name KPveStorage = ''pve.storage''"
| "key_name KPveTemplateStorage = ''pve.template-storage''"
| "key_name KPveBridge = ''pve.bridge''"
| "key_name KCores = ''pve.defaults.cores''"
| "key_name KMemory = ''pve.defaults.memory''"
| "key_name KSwap = ''pve.defaults.swap''"
| "key_name KDisk = ''pve.defaults.disk''"
| "key_name KUnprivileged = ''pve.defaults.unprivileged''"
| "key_name KOnboot = ''pve.defaults.onboot''"
| "key_name KImagesDefault = ''images.default''"
| "key_name KAgentBinary = ''agent.binary''"
| "key_name KRelayUrl = ''relay.url''"
| "key_name KRelayKeyFile = ''relay.key-file''"
| "key_name KAgentPort = ''agent.port''"
| "key_name KRepository = ''recipes.repository''"
| "key_name KRef = ''recipes.ref''"
| "key_name KAutoSync = ''recipes.auto-sync''"
| "key_name KSyncTtl = ''recipes.sync-ttl''"
| "key_name KSnapshotBeforeApply = ''recipes.snapshot-before-apply''"
| "key_name KRollbackOnFailure = ''recipes.rollback-on-failure''"
| "key_name KVmidPattern = ''pve.vmid-pattern''"

definition all_keys :: "config_key list" where
  "all_keys =
     [KPveUrl, KPveTokenId, KPveTokenSecret, KPveTlsInsecure, KPveNode, KPveStorage,
      KPveTemplateStorage, KPveBridge, KCores, KMemory, KSwap, KDisk, KUnprivileged, KOnboot,
      KImagesDefault, KAgentBinary, KRelayUrl, KRelayKeyFile, KAgentPort, KRepository, KRef,
      KAutoSync, KSyncTtl, KSnapshotBeforeApply, KRollbackOnFailure, KVmidPattern]"

definition key_of :: "string \<Rightarrow> config_key option" where
  "key_of s = find (\<lambda>k. key_name k = s) all_keys"

lemma all_keys_complete: "k \<in> set all_keys"
  by (cases k) (simp_all add: all_keys_def)

lemma key_names_distinct: "distinct (map key_name all_keys)"
  by code_simp

lemma key_name_inject [simp]: "key_name k = key_name k' \<longleftrightarrow> k = k'"
  using key_names_distinct all_keys_complete
  by (auto simp: distinct_map dest: inj_onD)

lemma key_of_key_name [simp]: "key_of (key_name k) = Some k"
proof (cases "key_of (key_name k)")
  case None
  then show ?thesis using all_keys_complete by (auto simp: key_of_def find_None_iff)
next
  case (Some k')
  then show ?thesis by (auto simp: key_of_def dest!: find_in_set)
qed

lemma key_of_Some_iff: "key_of s = Some k \<longleftrightarrow> s = key_name k"
proof
  assume "key_of s = Some k"
  then show "s = key_name k" by (auto simp: key_of_def dest!: find_in_set)
qed simp

end
