(* ===== verification/ConfigKeys.thy ===== *)
theory ConfigKeys
  imports Config
begin

text \<open>
  \<open>crates/pbox-core/src/config.rs\<close>, second part: \<open>Config::set_value\<close>,
  \<open>unset_value\<close> and the redacted view, over the keys of \<open>config_key\<close>. Setting a
  key stores a normal form of the value, leaves every other key alone and keeps a valid
  configuration valid; the redacted view does not depend on secrets.
\<close>

section \<open>set_value\<close>

fun vmid_error_text :: "vmid_error \<Rightarrow> string" where
  "vmid_error_text InvalidPattern = ''VMID pattern must match ^[1-9][0-9]*x+$''"
| "vmid_error_text Overflow = ''VMID pattern is too large for a 64-bit VMID''"
| "vmid_error_text (Exhausted p) = ''all VMIDs in pattern '' @ p @ '' are already in use''"

definition upd_defaults :: "(pve_defaults \<Rightarrow> pve_defaults) \<Rightarrow> config \<Rightarrow> config" where
  "upd_defaults f = cf_pve_update (pv_defaults_update f)"

primrec set_key :: "url_lib \<Rightarrow> config_key \<Rightarrow> string \<Rightarrow> config \<Rightarrow> (config_error, config) result" where
  "set_key lib KPveUrl v c =
     and_then (validate_non_empty ''pve.url'' v ''URL cannot be empty'') (\<lambda>_.
     and_then (validate_pve_url lib ''pve.url'' v) (\<lambda>_.
     Inr (cf_pve_update (pv_url_update (\<lambda>_. Some (trim v))) c)))"
| "set_key lib KPveTokenId v c =
     and_then (validate_non_empty ''pve.token_id'' v ''token id cannot be empty'') (\<lambda>_.
     Inr (cf_pve_update (pv_token_id_update (\<lambda>_. Some v)) c))"
| "set_key lib KPveTokenSecret v c =
     (if v = [] then Inl (InvalidValue ''pve.token_secret'' ''token secret cannot be empty'')
      else Inr (cf_pve_update (pv_token_secret_update (\<lambda>_. Some v)) c))"
| "set_key lib KPveTlsInsecure v c =
     and_then (parse_bool ''pve.tls_insecure'' v) (\<lambda>b.
     Inr (cf_pve_update (pv_tls_insecure_update (\<lambda>_. b)) c))"
| "set_key lib KPveNode v c =
     and_then (validate_non_empty ''pve.node'' v ''PVE node cannot be empty'') (\<lambda>_.
     Inr (cf_pve_update (pv_node_update (\<lambda>_. trim v)) c))"
| "set_key lib KPveStorage v c =
     and_then (validate_non_empty ''pve.storage'' v ''PVE storage cannot be empty'') (\<lambda>_.
     Inr (cf_pve_update (pv_storage_update (\<lambda>_. trim v)) c))"
| "set_key lib KPveTemplateStorage v c =
     and_then (validate_non_empty ''pve.template-storage'' v
       ''PVE template storage cannot be empty'') (\<lambda>_.
     Inr (cf_pve_update (pv_template_storage_update (\<lambda>_. trim v)) c))"
| "set_key lib KPveBridge v c =
     and_then (validate_non_empty ''pve.bridge'' v ''PVE bridge cannot be empty'') (\<lambda>_.
     Inr (cf_pve_update (pv_bridge_update (\<lambda>_. trim v)) c))"
| "set_key lib KCores v c =
     and_then (parse_positive ''pve.defaults.cores'' v) (\<lambda>n.
     Inr (upd_defaults (pd_cores_update (\<lambda>_. n)) c))"
| "set_key lib KMemory v c =
     and_then (parse_positive ''pve.defaults.memory'' v) (\<lambda>n.
     Inr (upd_defaults (pd_memory_update (\<lambda>_. n)) c))"
| "set_key lib KSwap v c =
     and_then (parse_unsigned ''pve.defaults.swap'' v) (\<lambda>n.
     Inr (upd_defaults (pd_swap_update (\<lambda>_. n)) c))"
| "set_key lib KDisk v c =
     and_then (validate_non_empty ''pve.defaults.disk'' v ''default disk size cannot be empty'') (\<lambda>_.
     Inr (upd_defaults (pd_disk_update (\<lambda>_. trim v)) c))"
| "set_key lib KUnprivileged v c =
     and_then (parse_bool ''pve.defaults.unprivileged'' v) (\<lambda>b.
     Inr (upd_defaults (pd_unprivileged_update (\<lambda>_. b)) c))"
| "set_key lib KOnboot v c =
     and_then (parse_bool ''pve.defaults.onboot'' v) (\<lambda>b.
     Inr (upd_defaults (pd_onboot_update (\<lambda>_. b)) c))"
| "set_key lib KImagesDefault v c =
     and_then (validate_non_empty ''images.default'' v ''default image cannot be empty'') (\<lambda>_.
     Inr (cf_images_update (ic_default_update (\<lambda>_. trim v)) c))"
| "set_key lib KAgentBinary v c =
     (if trim v = []
      then Inl (InvalidValue ''agent.binary'' ''agent binary path cannot be empty'')
      else Inr (cf_agent_update (ag_binary_update (\<lambda>_. Some v)) c))"
| "set_key lib KRelayUrl v c =
     and_then (validate_relay_url lib ''relay.url'' v) (\<lambda>_.
     Inr (cf_relay_update (rl_url_update (\<lambda>_. Some v)) c))"
| "set_key lib KRelayKeyFile v c = Inr (cf_relay_update (rl_key_file_update (\<lambda>_. Some v)) c)"
| "set_key lib KAgentPort v c =
     and_then (parse_port ''agent.port'' v) (\<lambda>n.
     Inr (cf_agent_update (ag_port_update (\<lambda>_. n)) c))"
| "set_key lib KRepository v c =
     and_then (validate_repository_reference ''recipes.repository'' v) (\<lambda>_.
     Inr (cf_recipes_update (rc_repository_update (\<lambda>_. v)) c))"
| "set_key lib KRef v c =
     and_then (validate_non_empty ''recipes.ref'' v ''recipe reference cannot be empty'') (\<lambda>_.
     Inr (cf_recipes_update (rc_reference_update (\<lambda>_. v)) c))"
| "set_key lib KAutoSync v c =
     and_then (parse_bool ''recipes.auto-sync'' v) (\<lambda>b.
     Inr (cf_recipes_update (rc_auto_sync_update (\<lambda>_. b)) c))"
| "set_key lib KSyncTtl v c =
     and_then (map_err (InvalidValue ''recipes.sync-ttl'') (parse_duration v)) (\<lambda>_.
     Inr (cf_recipes_update (rc_sync_ttl_update (\<lambda>_. v)) c))"
| "set_key lib KSnapshotBeforeApply v c =
     and_then (validate_snapshot_policy ''recipes.snapshot-before-apply'' v) (\<lambda>_.
     Inr (cf_recipes_update (rc_snapshot_before_apply_update (\<lambda>_. v)) c))"
| "set_key lib KRollbackOnFailure v c =
     and_then (parse_bool ''recipes.rollback-on-failure'' v) (\<lambda>b.
     Inr (cf_recipes_update (rc_rollback_on_failure_update (\<lambda>_. b)) c))"
| "set_key lib KVmidPattern v c =
     and_then (map_err (\<lambda>e. InvalidValue ''pve.vmid-pattern'' (vmid_error_text e))
       (parse_pattern v)) (\<lambda>p.
     Inr (cf_vmid_pattern_update (\<lambda>_. p) c))"

definition set_value ::
  "url_lib \<Rightarrow> string \<Rightarrow> string \<Rightarrow> config \<Rightarrow> (config_error, config) result" where
  "set_value lib key v c =
     (case key_of key of Some k \<Rightarrow> set_key lib k v c | None \<Rightarrow> Inl (UnknownKey key))"

section \<open>unset_value\<close>

primrec unset_key :: "config_key \<Rightarrow> config \<Rightarrow> config" where
  "unset_key KPveUrl c = cf_pve_update (pv_url_update (\<lambda>_. None)) c"
| "unset_key KPveTokenId c = cf_pve_update (pv_token_id_update (\<lambda>_. None)) c"
| "unset_key KPveTokenSecret c = cf_pve_update (pv_token_secret_update (\<lambda>_. None)) c"
| "unset_key KPveTlsInsecure c = cf_pve_update (pv_tls_insecure_update (\<lambda>_. False)) c"
| "unset_key KPveNode c =
     cf_pve_update (pv_node_update (\<lambda>_. pv_node default_pve_config)) c"
| "unset_key KPveStorage c =
     cf_pve_update (pv_storage_update (\<lambda>_. pv_storage default_pve_config)) c"
| "unset_key KPveTemplateStorage c =
     cf_pve_update (pv_template_storage_update (\<lambda>_. pv_template_storage default_pve_config)) c"
| "unset_key KPveBridge c =
     cf_pve_update (pv_bridge_update (\<lambda>_. pv_bridge default_pve_config)) c"
| "unset_key KCores c = upd_defaults (pd_cores_update (\<lambda>_. pd_cores default_pve_defaults)) c"
| "unset_key KMemory c = upd_defaults (pd_memory_update (\<lambda>_. pd_memory default_pve_defaults)) c"
| "unset_key KSwap c = upd_defaults (pd_swap_update (\<lambda>_. pd_swap default_pve_defaults)) c"
| "unset_key KDisk c = upd_defaults (pd_disk_update (\<lambda>_. pd_disk default_pve_defaults)) c"
| "unset_key KUnprivileged c =
     upd_defaults (pd_unprivileged_update (\<lambda>_. pd_unprivileged default_pve_defaults)) c"
| "unset_key KOnboot c = upd_defaults (pd_onboot_update (\<lambda>_. pd_onboot default_pve_defaults)) c"
| "unset_key KImagesDefault c =
     cf_images_update (ic_default_update (\<lambda>_. ic_default default_image_config)) c"
| "unset_key KAgentBinary c = cf_agent_update (ag_binary_update (\<lambda>_. None)) c"
| "unset_key KRelayUrl c = cf_relay_update (rl_url_update (\<lambda>_. None)) c"
| "unset_key KRelayKeyFile c = cf_relay_update (rl_key_file_update (\<lambda>_. None)) c"
| "unset_key KAgentPort c =
     cf_agent_update (ag_port_update (\<lambda>_. ag_port default_agent_config)) c"
| "unset_key KRepository c =
     cf_recipes_update (rc_repository_update (\<lambda>_. rc_repository default_recipe_config)) c"
| "unset_key KRef c =
     cf_recipes_update (rc_reference_update (\<lambda>_. rc_reference default_recipe_config)) c"
| "unset_key KAutoSync c =
     cf_recipes_update (rc_auto_sync_update (\<lambda>_. rc_auto_sync default_recipe_config)) c"
| "unset_key KSyncTtl c =
     cf_recipes_update (rc_sync_ttl_update (\<lambda>_. rc_sync_ttl default_recipe_config)) c"
| "unset_key KSnapshotBeforeApply c =
     cf_recipes_update (rc_snapshot_before_apply_update
       (\<lambda>_. rc_snapshot_before_apply default_recipe_config)) c"
| "unset_key KRollbackOnFailure c =
     cf_recipes_update (rc_rollback_on_failure_update
       (\<lambda>_. rc_rollback_on_failure default_recipe_config)) c"
| "unset_key KVmidPattern c = cf_vmid_pattern_update (\<lambda>_. cf_vmid_pattern default_config) c"

definition unset_value :: "string \<Rightarrow> config \<Rightarrow> (config_error, config) result" where
  "unset_value key c =
     (case key_of key of Some k \<Rightarrow> Inr (unset_key k c) | None \<Rightarrow> Inl (UnknownKey key))"

section \<open>The redacted view\<close>

text \<open>
  The setters of \<open>reqwest::Url\<close> used here fail only on a URL without a host, which
  has no credentials to clear.
\<close>

definition redact_url :: "url_lib \<Rightarrow> string option \<Rightarrow> string option" where
  "redact_url lib value =
     map_option (\<lambda>v. case url_parse lib v of
         None \<Rightarrow> ''<invalid>''
       | Some u \<Rightarrow> url_text lib (u\<lparr>u_username := [], u_password := None,
                                   u_query := None, u_fragment := None\<rparr>)) value"

definition optional_value :: "string option \<Rightarrow> string" where
  "optional_value value = (case value of Some v \<Rightarrow> v | None \<Rightarrow> ''<unset>'')"

primrec pair_value :: "url_lib \<Rightarrow> config \<Rightarrow> config_key \<Rightarrow> string" where
  "pair_value lib c KPveUrl = optional_value (redact_url lib (pv_url (cf_pve c)))"
| "pair_value lib c KPveTokenId = optional_value (pv_token_id (cf_pve c))"
| "pair_value lib c KPveTokenSecret =
     (if pv_token_secret (cf_pve c) \<noteq> None then ''<redacted>'' else ''<unset>'')"
| "pair_value lib c KPveTlsInsecure = show_bool (pv_tls_insecure (cf_pve c))"
| "pair_value lib c KPveNode = pv_node (cf_pve c)"
| "pair_value lib c KPveStorage = pv_storage (cf_pve c)"
| "pair_value lib c KPveTemplateStorage = pv_template_storage (cf_pve c)"
| "pair_value lib c KPveBridge = pv_bridge (cf_pve c)"
| "pair_value lib c KCores = show_nat (pd_cores (pv_defaults (cf_pve c)))"
| "pair_value lib c KMemory = show_nat (pd_memory (pv_defaults (cf_pve c)))"
| "pair_value lib c KSwap = show_nat (pd_swap (pv_defaults (cf_pve c)))"
| "pair_value lib c KDisk = pd_disk (pv_defaults (cf_pve c))"
| "pair_value lib c KUnprivileged = show_bool (pd_unprivileged (pv_defaults (cf_pve c)))"
| "pair_value lib c KOnboot = show_bool (pd_onboot (pv_defaults (cf_pve c)))"
| "pair_value lib c KImagesDefault = ic_default (cf_images c)"
| "pair_value lib c KAgentBinary = optional_value (ag_binary (cf_agent c))"
| "pair_value lib c KRelayUrl = (case rl_url (cf_relay c) of Some v \<Rightarrow> v | None \<Rightarrow> [])"
| "pair_value lib c KRelayKeyFile = (case rl_key_file (cf_relay c) of Some v \<Rightarrow> v | None \<Rightarrow> [])"
| "pair_value lib c KAgentPort = show_nat (ag_port (cf_agent c))"
| "pair_value lib c KRepository = rc_repository (cf_recipes c)"
| "pair_value lib c KRef = rc_reference (cf_recipes c)"
| "pair_value lib c KAutoSync = show_bool (rc_auto_sync (cf_recipes c))"
| "pair_value lib c KSyncTtl = rc_sync_ttl (cf_recipes c)"
| "pair_value lib c KSnapshotBeforeApply = rc_snapshot_before_apply (cf_recipes c)"
| "pair_value lib c KRollbackOnFailure = show_bool (rc_rollback_on_failure (cf_recipes c))"
| "pair_value lib c KVmidPattern = show_pattern (cf_vmid_pattern c)"

definition redacted_pairs :: "url_lib \<Rightarrow> config \<Rightarrow> (string \<times> string) list" where
  "redacted_pairs lib c = map (\<lambda>k. (key_name k, pair_value lib c k)) all_keys"

definition get_redacted :: "url_lib \<Rightarrow> config \<Rightarrow> string \<Rightarrow> string option" where
  "get_redacted lib c key = map_of (redacted_pairs lib c) key"

text \<open>\<open>Config::redacted\<close>: the same structure with the URL and the secret masked.\<close>

definition redacted :: "url_lib \<Rightarrow> config \<Rightarrow> config" where
  "redacted lib c =
     cf_pve_update (\<lambda>p. p\<lparr>pv_url := redact_url lib (pv_url p),
       pv_token_secret := map_option (\<lambda>_. ''<redacted>'') (pv_token_secret p)\<rparr>) c"

section \<open>The value of a key\<close>

text \<open>The unmasked text of a key, and the normal form \<open>set_value\<close> stores.\<close>

fun raw_value :: "config \<Rightarrow> config_key \<Rightarrow> string option" where
  "raw_value c KPveUrl = pv_url (cf_pve c)"
| "raw_value c KPveTokenId = pv_token_id (cf_pve c)"
| "raw_value c KPveTokenSecret = pv_token_secret (cf_pve c)"
| "raw_value c KAgentBinary = ag_binary (cf_agent c)"
| "raw_value c KRelayUrl = rl_url (cf_relay c)"
| "raw_value c KRelayKeyFile = rl_key_file (cf_relay c)"
| "raw_value c k = Some (pair_value no_urls c k)"

fun stored :: "config_key \<Rightarrow> string \<Rightarrow> string" where
  "stored KPveUrl v = trim v"
| "stored KPveNode v = trim v"
| "stored KPveStorage v = trim v"
| "stored KPveTemplateStorage v = trim v"
| "stored KPveBridge v = trim v"
| "stored KDisk v = trim v"
| "stored KImagesDefault v = trim v"
| "stored KCores v = show_nat (the (parse_u64 v))"
| "stored KMemory v = show_nat (the (parse_u64 v))"
| "stored KSwap v = show_nat (the (parse_u64 v))"
| "stored KAgentPort v = show_nat (the (parse_u16 v))"
| "stored _ v = v"

lemma default_config_simps [simp]:
  "cf_pve default_config = default_pve_config" "cf_agent default_config = default_agent_config"
  "cf_relay default_config = default_relay_config" "cf_images default_config = default_image_config"
  "cf_recipes default_config = default_recipe_config"
  "pv_defaults default_pve_config = default_pve_defaults"
  "pv_tls_insecure default_pve_config = False" "pv_url default_pve_config = None"
  "pv_token_id default_pve_config = None" "pv_token_secret default_pve_config = None"
  "ag_binary default_agent_config = None" "rl_url default_relay_config = None"
  "rl_key_file default_relay_config = None"
  by (simp_all add: default_config_def default_pve_config_def default_agent_config_def
      default_relay_config_def)

lemma parse_bool_ok: "parse_bool key v = Inr b \<Longrightarrow> show_bool b = v"
  by (auto simp: parse_bool_def show_bool_def split: if_splits)

lemma parse_bool_show [simp]: "parse_bool key (show_bool b) = Inr b"
  by (simp add: parse_bool_def show_bool_def)

lemma show_parse_pattern: "parse_pattern s = Inr p \<Longrightarrow> show_pattern p = s"
  by (rule vmid_text.show_parse)

lemmas number_validators = parse_unsigned_def parse_positive_def parse_port_def
  validate_positive_def

lemmas set_key_unfold = res_simps number_validators upd_defaults_def

text \<open>
  A successful set changes its own key to the stored form and no other key. Every field of
  the configuration is under one of the keys, so this describes the whole result.
\<close>

lemma set_key_raw_same:
  "set_key lib k v c = Inr c' \<Longrightarrow> raw_value c' k = Some (stored k v)"
  by (cases k) (auto simp: set_key_unfold dest!: parse_bool_ok show_parse_pattern split: if_splits)

lemma set_key_raw_other:
  assumes "set_key lib k v c = Inr c'" and "k' \<noteq> k"
  shows "raw_value c' k' = raw_value c k'"
  using assms
  by (cases k; clarsimp simp: set_key_unfold split: if_splits; cases k'; simp)

lemma unset_key_raw:
  "raw_value (unset_key k c) k' = (if k' = k then raw_value default_config k else raw_value c k')"
  by (cases k; cases k'; simp add: upd_defaults_def)

text \<open>What \<open>validate\<close> asks of the field of each key.\<close>

fun field_ok :: "url_lib \<Rightarrow> config \<Rightarrow> config_key \<Rightarrow> bool" where
  "field_ok lib c KPveUrl =
     (\<forall>u \<in> set_option (pv_url (cf_pve c)). trim u \<noteq> [] \<and> validate_pve_url lib ''pve.url'' u = Inr ())"
| "field_ok lib c KPveTokenId = (\<forall>t \<in> set_option (pv_token_id (cf_pve c)). trim t \<noteq> [])"
| "field_ok lib c KPveTokenSecret = (pv_token_secret (cf_pve c) \<noteq> Some [])"
| "field_ok lib c KPveNode = (trim (pv_node (cf_pve c)) \<noteq> [])"
| "field_ok lib c KPveStorage = (trim (pv_storage (cf_pve c)) \<noteq> [])"
| "field_ok lib c KPveTemplateStorage = (trim (pv_template_storage (cf_pve c)) \<noteq> [])"
| "field_ok lib c KPveBridge = (trim (pv_bridge (cf_pve c)) \<noteq> [])"
| "field_ok lib c KCores = (pd_cores (pv_defaults (cf_pve c)) \<noteq> 0)"
| "field_ok lib c KMemory = (pd_memory (pv_defaults (cf_pve c)) \<noteq> 0)"
| "field_ok lib c KDisk = (trim (pd_disk (pv_defaults (cf_pve c))) \<noteq> [])"
| "field_ok lib c KImagesDefault = (trim (ic_default (cf_images c)) \<noteq> [])"
| "field_ok lib c KAgentBinary = (ag_binary (cf_agent c) \<noteq> Some [])"
| "field_ok lib c KRelayUrl =
     (\<forall>u \<in> set_option (rl_url (cf_relay c)). validate_relay_url lib ''relay.url'' u = Inr ())"
| "field_ok lib c KRelayKeyFile = (\<forall>p \<in> set_option (rl_key_file (cf_relay c)). trim p \<noteq> [])"
| "field_ok lib c KAgentPort = (ag_port (cf_agent c) \<noteq> 0)"
| "field_ok lib c KRepository =
     (validate_repository_reference ''recipes.repository'' (rc_repository (cf_recipes c)) = Inr ())"
| "field_ok lib c KRef = (trim (rc_reference (cf_recipes c)) \<noteq> [])"
| "field_ok lib c KSyncTtl = is_ok (parse_duration (rc_sync_ttl (cf_recipes c)))"
| "field_ok lib c KSnapshotBeforeApply =
     (rc_snapshot_before_apply (cf_recipes c) \<in> {''auto'', ''always'', ''never''})"
| "field_ok lib c _ = True"

lemma all_keys_iff: "(\<forall>k. P k) \<longleftrightarrow> list_all P all_keys"
  using all_keys_complete by (auto simp: list_all_iff)

lemma all_checks_Cons_ok: "all_checks (x # xs) = Inr () \<longleftrightarrow> x = Inr () \<and> all_checks xs = Inr ()"
  by (cases x) auto

lemma all_checks_append_ok:
  "all_checks (xs @ ys) = Inr () \<longleftrightarrow> all_checks xs = Inr () \<and> all_checks ys = Inr ()"
  by (auto simp: all_checks_append res_simps)

lemma opt_check_ok:
  "all_checks (opt_check x f) = Inr () \<longleftrightarrow> (\<forall>a \<in> set_option x. all_checks (f a) = Inr ())"
  by (cases x) (simp_all add: opt_check_def)

lemma ensure_unit_iff: "ensure b e = Inr () \<longleftrightarrow> b"
  by (simp add: ensure_def)

lemma duration_check_ok:
  "(case parse_duration v of Inl reason \<Rightarrow> Inl (InvalidValue k reason) | Inr _ \<Rightarrow> Inr ()) = Inr ()
     \<longleftrightarrow> is_ok (parse_duration v)"
  by (cases "parse_duration v") auto

lemma not_Some_iff: "x \<noteq> Some a \<longleftrightarrow> (\<forall>b \<in> set_option x. b \<noteq> a)"
  by (cases x) auto

lemma validate_iff: "validate lib c = Inr () \<longleftrightarrow> (\<forall>k. field_ok lib c k)"
  unfolding all_keys_iff all_keys_def validate_def Let_def
  by (simp add: all_checks_append_ok all_checks_Cons_ok opt_check_ok ensure_unit_iff
      duration_check_ok validate_non_empty_def validate_snapshot_policy_def validate_positive_def
      not_Some_iff conj_ac del: all_checks.simps(2))

lemma set_key_field_other:
  assumes "set_key lib k v c = Inr c'" and "k' \<noteq> k"
  shows "field_ok lib c' k' = field_ok lib c k'"
  using assms
  by (cases k; clarsimp simp: set_key_unfold split: if_splits; cases k'; simp)

lemma set_key_field_same:
  assumes "set_key lib k v c = Inr c'"
  shows "field_ok lib c' k \<longleftrightarrow> (k = KRelayKeyFile \<longrightarrow> trim v \<noteq> [])"
  using assms
  by (cases k) (auto simp: set_key_unfold validate_non_empty_def validate_snapshot_policy_def
      validate_pve_url_def split: if_splits)

text \<open>
  C1: Setting a key through \<open>set_value\<close> changes the stored text of that key to the normal
  form of the value (trimmed, or the canonical number) and changes no other key, so the
  redacted view the user sees differs at that key only.
\<close>

theorem set_value_effect:
  assumes "set_value lib key v c = Inr c'"
  shows "\<exists>k. key_of key = Some k
    \<and> (\<forall>k'. raw_value c' k' = (if k' = k then Some (stored k v) else raw_value c k'))"
proof -
  from assms obtain k where k: "key_of key = Some k" and s: "set_key lib k v c = Inr c'"
    by (auto simp: set_value_def split: option.splits)
  then show ?thesis using set_key_raw_same[OF s] set_key_raw_other[OF s] by auto
qed

theorem set_value_effect_witness:
  "\<exists>k. key_of ''pve.node'' = Some k
    \<and> (\<forall>k'. raw_value (cf_pve_update (pv_node_update (\<lambda>_. ''n1'')) default_config) k'
         = (if k' = k then Some (stored k '' n1'') else raw_value default_config k'))"
proof (rule set_value_effect[where lib = "no_urls"])
  have "key_of ''pve.node'' = Some KPveNode" by code_simp
  moreover have "trim '' n1'' = ''n1''" by code_simp
  ultimately show "set_value no_urls ''pve.node'' '' n1''
      default_config = Inr (cf_pve_update (pv_node_update (\<lambda>_. ''n1'')) default_config)"
    by (simp add: set_value_def validate_non_empty_def ensure_def)
qed

text \<open>
  C2: \<open>set_value\<close> keeps a valid configuration valid, for every key and value it accepts,
  with one exception: it stores any text, also a blank one, for the relay key file, which
  \<open>validate\<close> then refuses.
\<close>

theorem set_value_keeps_valid:
  assumes "validate lib c = Inr ()" and "set_value lib key v c = Inr c'"
  shows "validate lib c' = Inr () \<longleftrightarrow> (key = ''relay.key-file'' \<longrightarrow> trim v \<noteq> [])"
proof -
  from assms(2) obtain k where k: "key = key_name k" and s: "set_key lib k v c = Inr c'"
    by (auto simp: set_value_def key_of_Some_iff split: option.splits)
  have "key = ''relay.key-file'' \<longleftrightarrow> k = KRelayKeyFile"
    using k key_name_inject[of k KRelayKeyFile] by simp
  then show ?thesis
    using assms(1) set_key_field_same[OF s] set_key_field_other[OF s]
    unfolding validate_iff by metis
qed

text \<open>
  The redacted views show nothing of the secrets. Two configurations that differ in the
  token secret, and in the user, password, query and fragment of the API URL, have the same
  redacted pairs and the same redacted structure.
\<close>

theorem redaction_hides_secrets:
  assumes "pv_token_secret (cf_pve c) = Some s1"
    and "pv_url (cf_pve c) = Some v1" and "url_parse lib v1 = Some u"
    and "url_parse lib v2 = Some (u\<lparr>u_username := name, u_password := pass,
           u_query := query, u_fragment := fragment\<rparr>)"
  shows "redacted_pairs lib
      (cf_pve_update (\<lambda>p. p\<lparr>pv_token_secret := Some s2, pv_url := Some v2\<rparr>) c)
        = redacted_pairs lib c
    \<and> redacted lib (cf_pve_update (\<lambda>p. p\<lparr>pv_token_secret := Some s2, pv_url := Some v2\<rparr>) c)
        = redacted lib c"
proof
  let ?c = "cf_pve_update (\<lambda>p. p\<lparr>pv_token_secret := Some s2, pv_url := Some v2\<rparr>) c"
  have "pair_value lib ?c k = pair_value lib c k" for k
    using assms by (cases k) (simp_all add: redact_url_def)
  then show "redacted_pairs lib ?c = redacted_pairs lib c"
    by (simp add: redacted_pairs_def)
  show "redacted lib ?c = redacted lib c"
    using assms by (cases c; cases "cf_pve c") (auto simp: redacted_def redact_url_def)
qed

definition host_only :: url where
  "host_only = \<lparr>u_scheme = ''https'', u_username = [], u_password = None,
     u_host = Some ''pve'', u_path = ''/'', u_query = None, u_fragment = None\<rparr>"

definition two_urls :: url_lib where
  "two_urls =
     \<lparr>url_parse = (\<lambda>v. if v = ''https://pve/'' then Some host_only
        else if v = ''https://u:p@pve/?q'' then Some (host_only\<lparr>u_username := ''u'',
          u_password := Some ''p'', u_query := Some ''q'', u_fragment := None\<rparr>)
        else None),
      url_text = (\<lambda>u. u_scheme u @ ''://'' @ u_username u @ (case u_host u of None \<Rightarrow> [] | Some h \<Rightarrow> h)
        @ u_path u)\<rparr>"

definition secret_config :: config where
  "secret_config =
     cf_pve_update (\<lambda>p. p\<lparr>pv_token_secret := Some ''s1'', pv_url := Some ''https://pve/''\<rparr>) default_config"

theorem redaction_hides_secrets_witness:
  "redacted_pairs two_urls (cf_pve_update
      (\<lambda>p. p\<lparr>pv_token_secret := Some ''s2'', pv_url := Some ''https://u:p@pve/?q''\<rparr>) secret_config)
      = redacted_pairs two_urls secret_config
   \<and> redacted two_urls (cf_pve_update
      (\<lambda>p. p\<lparr>pv_token_secret := Some ''s2'', pv_url := Some ''https://u:p@pve/?q''\<rparr>) secret_config)
      = redacted two_urls secret_config"
  by (rule redaction_hides_secrets[where ?s1.0 = "''s1''" and ?v1.0 = "''https://pve/''"
        and u = host_only and name = "''u''" and pass = "Some ''p''" and query = "Some ''q''"
        and fragment = None])
     (simp_all add: secret_config_def two_urls_def)

end
