(* ===== verification/Files.thy ===== *)
theory Files
  imports Numbers
begin

text \<open>
  An explicit file system: paths, as lists of components, map to nodes. Directories are
  made along a path; a rename moves a node in one step.
\<close>

type_synonym path = "string list"

text \<open>A regular file with its contents and permission bits, a symbolic link, a directory.\<close>

datatype node = File string nat | Symlink path | Dir

type_synonym fs = "path \<rightharpoonup> node"

definition path_text :: "path \<Rightarrow> string" where
  "path_text p = concat (map (\<lambda>c. CHR ''/'' # c) p)"

fun is_symlink :: "node option \<Rightarrow> bool" where
  "is_symlink (Some (Symlink _)) = True"
| "is_symlink _ = False"

definition make_dirs :: "nat \<Rightarrow> path \<Rightarrow> fs \<Rightarrow> fs" where
  "make_dirs n parent fs =
     (\<lambda>p. if fs p = None \<and> length p \<le> n \<and> p = take (length p) parent then Some Dir else fs p)"

definition node_contents :: "node option \<Rightarrow> string option" where
  "node_contents n = (case n of Some (File c _) \<Rightarrow> Some c | _ \<Rightarrow> None)"

definition set_node_mode :: "path \<Rightarrow> nat \<Rightarrow> fs \<Rightarrow> fs" where
  "set_node_mode p mode fs =
     (case fs p of Some (File c _) \<Rightarrow> fs(p \<mapsto> File c mode) | _ \<Rightarrow> fs)"

lemma set_node_mode_other [simp]: "p \<noteq> q \<Longrightarrow> set_node_mode p m fs q = fs q"
  by (auto simp: set_node_mode_def split: option.splits node.splits)

lemma set_node_mode_None_iff [simp]: "set_node_mode p m fs q = None \<longleftrightarrow> fs q = None"
  by (auto simp: set_node_mode_def split: option.splits node.splits)

lemma node_contents_simps [simp]:
  "node_contents None = None" "node_contents (Some (File c m)) = Some c"
  "node_contents (Some (Symlink t)) = None" "node_contents (Some Dir) = None"
  by (simp_all add: node_contents_def)

lemma node_contents_set_mode [simp]: "node_contents (set_node_mode p m fs q) = node_contents (fs q)"
  by (auto simp: set_node_mode_def split: option.splits node.splits)

end
