(* ===== verification/ConfigStore.thy ===== *)
theory ConfigStore
  imports ConfigKeys Files
begin

text \<open>
  \<open>crates/pbox-core/src/config.rs\<close>, third part: overrides from the environment and
  the command line, \<open>ConfigStore::load\<close>, and the atomic \<open>save_file\<close> on an
  explicit file system whose operations may fail. The TOML library and the process
  environment are parameters.
\<close>

section \<open>Overrides\<close>

record overrides =
  ov_pve_url :: "string option"
  ov_pve_token_id :: "string option"
  ov_pve_token_secret :: "string option"
  ov_pve_tls_insecure :: "bool option"
  ov_agent_binary :: "string option"
  ov_agent_port :: "string option"
  ov_recipes_repository :: "string option"
  ov_recipes_reference :: "string option"
  ov_recipes_auto_sync :: "bool option"
  ov_recipes_sync_ttl :: "string option"
  ov_recipes_snapshot_before_apply :: "string option"
  ov_recipes_rollback_on_failure :: "bool option"
  ov_vmid_pattern :: "string option"

definition no_overrides :: overrides where
  "no_overrides =
     \<lparr>ov_pve_url = None, ov_pve_token_id = None, ov_pve_token_secret = None,
      ov_pve_tls_insecure = None, ov_agent_binary = None, ov_agent_port = None,
      ov_recipes_repository = None, ov_recipes_reference = None, ov_recipes_auto_sync = None,
      ov_recipes_sync_ttl = None, ov_recipes_snapshot_before_apply = None,
      ov_recipes_rollback_on_failure = None, ov_vmid_pattern = None\<rparr>"

definition set_opt ::
  "url_lib \<Rightarrow> config_key \<Rightarrow> string option \<Rightarrow> config \<Rightarrow> (config_error, config) result" where
  "set_opt lib k value c =
     (case value of Some v \<Rightarrow> set_value lib (key_name k) v c | None \<Rightarrow> Inr c)"

definition put_opt :: "('a \<Rightarrow> config \<Rightarrow> config) \<Rightarrow> 'a option \<Rightarrow> config \<Rightarrow> (config_error, config) result"
  where
  "put_opt put value c = (case value of Some v \<Rightarrow> Inr (put v c) | None \<Rightarrow> Inr c)"

definition apply_overrides ::
  "url_lib \<Rightarrow> overrides \<Rightarrow> config \<Rightarrow> (config_error, config) result" where
  "apply_overrides lib ov c =
     and_then (set_opt lib KPveUrl (ov_pve_url ov) c) (\<lambda>c.
     and_then (set_opt lib KPveTokenId (ov_pve_token_id ov) c) (\<lambda>c.
     and_then (set_opt lib KPveTokenSecret (ov_pve_token_secret ov) c) (\<lambda>c.
     and_then (put_opt (\<lambda>v. cf_pve_update (pv_tls_insecure_update (\<lambda>_. v)))
       (ov_pve_tls_insecure ov) c) (\<lambda>c.
     and_then (set_opt lib KAgentBinary (ov_agent_binary ov) c) (\<lambda>c.
     and_then (set_opt lib KAgentPort (ov_agent_port ov) c) (\<lambda>c.
     and_then (set_opt lib KRepository (ov_recipes_repository ov) c) (\<lambda>c.
     and_then (set_opt lib KRef (ov_recipes_reference ov) c) (\<lambda>c.
     and_then (put_opt (\<lambda>v. cf_recipes_update (rc_auto_sync_update (\<lambda>_. v)))
       (ov_recipes_auto_sync ov) c) (\<lambda>c.
     and_then (set_opt lib KSyncTtl (ov_recipes_sync_ttl ov) c) (\<lambda>c.
     and_then (set_opt lib KSnapshotBeforeApply (ov_recipes_snapshot_before_apply ov) c) (\<lambda>c.
     and_then (put_opt (\<lambda>v. cf_recipes_update (rc_rollback_on_failure_update (\<lambda>_. v)))
       (ov_recipes_rollback_on_failure ov) c) (\<lambda>c.
     set_opt lib KVmidPattern (ov_vmid_pattern ov) c))))))))))))"

section \<open>The environment\<close>

definition env_names :: "(string \<times> config_key) list" where
  "env_names =
     [(''PBOX_PVE_URL'', KPveUrl), (''PBOX_PVE_TOKEN_ID'', KPveTokenId),
      (''PBOX_PVE_TOKEN_SECRET'', KPveTokenSecret), (''PBOX_PVE_TLS_INSECURE'', KPveTlsInsecure),
      (''PBOX_AGENT_BINARY'', KAgentBinary), (''PBOX_AGENT_PORT'', KAgentPort),
      (''PBOX_RECIPES_REPOSITORY'', KRepository), (''PBOX_RECIPES_REF'', KRef),
      (''PBOX_RECIPES_AUTO_SYNC'', KAutoSync), (''PBOX_RECIPES_SYNC_TTL'', KSyncTtl),
      (''PBOX_RECIPES_SNAPSHOT_BEFORE_APPLY'', KSnapshotBeforeApply),
      (''PBOX_RECIPES_ROLLBACK_ON_FAILURE'', KRollbackOnFailure),
      (''PBOX_VMID_PATTERN'', KVmidPattern)]"

text \<open>One arm of the match for the variable that overrides the key.\<close>

fun put_env :: "config_key \<Rightarrow> string \<Rightarrow> overrides \<Rightarrow> (config_error, overrides) result" where
  "put_env KPveUrl v ov = Inr (ov\<lparr>ov_pve_url := Some v\<rparr>)"
| "put_env KPveTokenId v ov = Inr (ov\<lparr>ov_pve_token_id := Some v\<rparr>)"
| "put_env KPveTokenSecret v ov = Inr (ov\<lparr>ov_pve_token_secret := Some v\<rparr>)"
| "put_env KPveTlsInsecure v ov =
     and_then (parse_bool ''PBOX_PVE_TLS_INSECURE'' v) (\<lambda>b.
     Inr (ov\<lparr>ov_pve_tls_insecure := Some b\<rparr>))"
| "put_env KAgentBinary v ov = Inr (ov\<lparr>ov_agent_binary := Some v\<rparr>)"
| "put_env KAgentPort v ov = Inr (ov\<lparr>ov_agent_port := Some v\<rparr>)"
| "put_env KRepository v ov = Inr (ov\<lparr>ov_recipes_repository := Some v\<rparr>)"
| "put_env KRef v ov = Inr (ov\<lparr>ov_recipes_reference := Some v\<rparr>)"
| "put_env KAutoSync v ov =
     and_then (parse_bool ''PBOX_RECIPES_AUTO_SYNC'' v) (\<lambda>b.
     Inr (ov\<lparr>ov_recipes_auto_sync := Some b\<rparr>))"
| "put_env KSyncTtl v ov = Inr (ov\<lparr>ov_recipes_sync_ttl := Some v\<rparr>)"
| "put_env KSnapshotBeforeApply v ov = Inr (ov\<lparr>ov_recipes_snapshot_before_apply := Some v\<rparr>)"
| "put_env KRollbackOnFailure v ov =
     and_then (parse_bool ''PBOX_RECIPES_ROLLBACK_ON_FAILURE'' v) (\<lambda>b.
     Inr (ov\<lparr>ov_recipes_rollback_on_failure := Some b\<rparr>))"
| "put_env KVmidPattern v ov = Inr (ov\<lparr>ov_vmid_pattern := Some v\<rparr>)"
| "put_env _ v ov = Inr ov"

fun collect_env :: "(string \<times> string) list \<Rightarrow> overrides \<Rightarrow> (config_error, overrides) result" where
  "collect_env [] ov = Inr ov"
| "collect_env ((name, v) # vars) ov =
     and_then (case map_of env_names name of Some k \<Rightarrow> put_env k v ov | None \<Rightarrow> Inr ov)
       (collect_env vars)"

definition apply_environment ::
  "url_lib \<Rightarrow> (string \<times> string) list \<Rightarrow> config \<Rightarrow> (config_error, config) result" where
  "apply_environment lib env c =
     and_then (collect_env env no_overrides) (\<lambda>ov. apply_overrides lib ov c)"

section \<open>Loading\<close>

datatype read_outcome = Contents string | NotFound | ReadFailed

definition load_file ::
  "url_lib \<Rightarrow> (string \<Rightarrow> config option) \<Rightarrow> string \<Rightarrow> read_outcome \<Rightarrow> (config_error, config) result"
  where
  "load_file lib toml_parse path outcome =
     (case outcome of
        Contents text \<Rightarrow>
          and_then (ok_or ParseError (toml_parse text)) (\<lambda>c.
          and_then (validate lib c) (\<lambda>_. Inr c))
      | NotFound \<Rightarrow> Inr default_config
      | ReadFailed \<Rightarrow> Inl (ReadError path))"

definition load ::
  "url_lib \<Rightarrow> (string \<Rightarrow> config option) \<Rightarrow> string \<Rightarrow> read_outcome \<Rightarrow> (string \<times> string) list
     \<Rightarrow> overrides \<Rightarrow> (config_error, config) result" where
  "load lib toml_parse path outcome env ov =
     and_then (load_file lib toml_parse path outcome) (\<lambda>c.
     and_then (apply_environment lib env c) (\<lambda>c.
     and_then (apply_overrides lib ov c) (\<lambda>c.
     and_then (validate lib c) (\<lambda>_. Inr c))))"

section \<open>Saving\<close>

text \<open>
  \<open>save_io\<close> says how each operation of one call ends. A failed
  \<open>create_dir_all\<close> may have made some of the directories, a failed write may
  have written a part.
\<close>

record save_io =
  io_mkdir_failed_at :: "nat option"
  io_stamp :: nat
  io_pid :: nat
  io_open_ok :: bool
  io_write_failed_at :: "nat option"
  io_rename_ok :: bool
  io_remove_ok :: bool

definition create_dir_all :: "save_io \<Rightarrow> path \<Rightarrow> fs \<Rightarrow> bool \<times> fs" where
  "create_dir_all io parent fs =
     (case io_mkdir_failed_at io of
        None \<Rightarrow> (True, make_dirs (length parent) parent fs)
      | Some n \<Rightarrow> (False, make_dirs n parent fs))"

definition temporary_name :: "save_io \<Rightarrow> path \<Rightarrow> path" where
  "temporary_name io path =
     butlast path
     @ [''.'' @ last path @ ''.tmp-'' @ show_nat (io_pid io) @ ''-'' @ show_nat (io_stamp io)]"

definition remove_file :: "save_io \<Rightarrow> path \<Rightarrow> fs \<Rightarrow> fs" where
  "remove_file io p fs = (if io_remove_ok io \<and> fs p \<noteq> Some Dir then fs(p := None) else fs)"

definition write_temporary ::
  "save_io \<Rightarrow> path \<Rightarrow> path \<Rightarrow> string \<Rightarrow> fs \<Rightarrow> (config_error, unit) result \<times> fs" where
  "write_temporary io path temporary contents fs =
     (if \<not> io_open_ok io \<or> fs temporary \<noteq> None then (Inl (WriteError (path_text temporary)), fs)
      else case io_write_failed_at io of
        Some n \<Rightarrow> (Inl (WriteError (path_text temporary)), fs(temporary \<mapsto> File (take n contents) 384))
      | None \<Rightarrow>
          let fs = fs(temporary \<mapsto> File contents 384) in
          if \<not> io_rename_ok io \<or> fs path = Some Dir then (Inl (WriteError (path_text path)), fs)
          else (Inr (), fs(path := fs temporary, temporary := None)))"

definition save_file ::
  "url_lib \<Rightarrow> (config \<Rightarrow> string option) \<Rightarrow> save_io \<Rightarrow> path \<Rightarrow> config \<Rightarrow> fs
     \<Rightarrow> (config_error, unit) result \<times> fs" where
  "save_file lib toml_text io path c fs =
     (case validate lib c of
        Inl e \<Rightarrow> (Inl e, fs)
      | Inr _ \<Rightarrow>
          (case create_dir_all io (butlast path) fs of
             (False, fs) \<Rightarrow> (Inl (WriteError (path_text path)), fs)
           | (True, fs) \<Rightarrow>
               if is_symlink (fs path)
               then (Inl (WriteError (path_text path)), fs)
               else case toml_text c of
                 None \<Rightarrow> (Inl SerializeError, fs)
               | Some text \<Rightarrow>
                   let temporary = temporary_name io path in
                   case write_temporary io path temporary (text @ ''\<newline>'') fs of
                     (Inr u, fs) \<Rightarrow> (Inr u, fs)
                   | (Inl e, fs) \<Rightarrow> (Inl e, remove_file io temporary fs)))"

section \<open>Precedence\<close>

text \<open>The text a set of overrides gives a key.\<close>

fun override_text :: "overrides \<Rightarrow> config_key \<Rightarrow> string option" where
  "override_text ov KPveUrl = ov_pve_url ov"
| "override_text ov KPveTokenId = ov_pve_token_id ov"
| "override_text ov KPveTokenSecret = ov_pve_token_secret ov"
| "override_text ov KPveTlsInsecure = map_option show_bool (ov_pve_tls_insecure ov)"
| "override_text ov KAgentBinary = ov_agent_binary ov"
| "override_text ov KAgentPort = ov_agent_port ov"
| "override_text ov KRepository = ov_recipes_repository ov"
| "override_text ov KRef = ov_recipes_reference ov"
| "override_text ov KAutoSync = map_option show_bool (ov_recipes_auto_sync ov)"
| "override_text ov KSyncTtl = ov_recipes_sync_ttl ov"
| "override_text ov KSnapshotBeforeApply = ov_recipes_snapshot_before_apply ov"
| "override_text ov KRollbackOnFailure = map_option show_bool (ov_recipes_rollback_on_failure ov)"
| "override_text ov KVmidPattern = ov_vmid_pattern ov"
| "override_text ov _ = None"

definition layered :: "config_key \<Rightarrow> string option \<Rightarrow> string option \<Rightarrow> string option" where
  "layered k upper lower = (case upper of Some v \<Rightarrow> Some (stored k v) | None \<Rightarrow> lower)"

text \<open>An override is the same as setting its key, the boolean ones included.\<close>

fun set_all :: "url_lib \<Rightarrow> (config_key \<times> string option) list \<Rightarrow> config \<Rightarrow> (config_error, config) result"
  where
  "set_all lib [] c = Inr c"
| "set_all lib ((k, v) # kvs) c = and_then (set_opt lib k v c) (set_all lib kvs)"

definition override_keys :: "config_key list" where
  "override_keys =
     [KPveUrl, KPveTokenId, KPveTokenSecret, KPveTlsInsecure, KAgentBinary, KAgentPort,
      KRepository, KRef, KAutoSync, KSyncTtl, KSnapshotBeforeApply, KRollbackOnFailure,
      KVmidPattern]"

lemma set_opt_key: "set_opt lib k v c = (case v of Some t \<Rightarrow> set_key lib k t c | None \<Rightarrow> Inr c)"
  by (simp add: set_opt_def set_value_def split: option.splits)

lemma put_opt_set:
  "put_opt (\<lambda>v. cf_pve_update (pv_tls_insecure_update (\<lambda>_. v))) b c
     = set_opt lib KPveTlsInsecure (map_option show_bool b) c"
  "put_opt (\<lambda>v. cf_recipes_update (rc_auto_sync_update (\<lambda>_. v))) b c
     = set_opt lib KAutoSync (map_option show_bool b) c"
  "put_opt (\<lambda>v. cf_recipes_update (rc_rollback_on_failure_update (\<lambda>_. v))) b c
     = set_opt lib KRollbackOnFailure (map_option show_bool b) c"
  by (simp_all add: put_opt_def set_opt_key split: option.splits)

lemma and_then_Inr_right [simp]: "and_then r Inr = r"
  by (cases r) auto

lemma set_all_fun:
  "set_all lib [] = Inr"
  "set_all lib ((k, v) # kvs) = (\<lambda>c. and_then (set_opt lib k v c) (set_all lib kvs))"
  by (simp_all add: fun_eq_iff)

lemma apply_overrides_set_all:
  "apply_overrides lib ov c = set_all lib (map (\<lambda>k. (k, override_text ov k)) override_keys) c"
  by (simp add: apply_overrides_def put_opt_set[of _ _ lib] override_keys_def set_all_fun
      del: set_all.simps)

lemma set_opt_raw:
  "set_opt lib k v c = Inr c' \<Longrightarrow>
     raw_value c' k' = (if k' = k then layered k v (raw_value c k) else raw_value c k')"
  by (auto simp: set_opt_key layered_def set_key_raw_same set_key_raw_other split: option.splits)

lemma set_all_raw:
  assumes "set_all lib kvs c = Inr c'" and "distinct (map fst kvs)"
  shows "raw_value c' k = layered k (case map_of kvs k of Some v \<Rightarrow> v | None \<Rightarrow> None) (raw_value c k)"
  using assms
proof (induction kvs arbitrary: c)
  case (Cons kv kvs)
  obtain k1 v1 where kv: "kv = (k1, v1)" by (cases kv)
  with Cons.prems obtain c1 where c1: "set_opt lib k1 v1 c = Inr c1" "set_all lib kvs c1 = Inr c'"
    by (auto simp: and_then_Inr_iff)
  have fresh: "k1 = k \<Longrightarrow> map_of kvs k = None"
    using Cons.prems(2) kv by (simp add: map_of_eq_None_iff)
  show ?case
    using Cons.IH[OF c1(2)] Cons.prems(2) kv set_opt_raw[OF c1(1), of k] fresh
    by (auto simp: layered_def)
qed (simp add: layered_def)

lemma override_keys_distinct: "distinct override_keys"
  by (simp add: override_keys_def)

lemma override_text_outside: "k \<notin> set override_keys \<Longrightarrow> override_text ov k = None"
  by (cases k) (simp_all add: override_keys_def)

lemma apply_overrides_raw:
  assumes "apply_overrides lib ov c = Inr c'"
  shows "raw_value c' k = layered k (override_text ov k) (raw_value c k)"
proof -
  have "(case map_of (map (\<lambda>k. (k, override_text ov k)) override_keys) k of
           Some v \<Rightarrow> v | None \<Rightarrow> None) = override_text ov k"
    using override_text_outside[of k ov]
    by (cases "k \<in> set override_keys") (auto simp: map_of_map_restrict restrict_map_def)
  then show ?thesis
    using set_all_raw[OF assms[unfolded apply_overrides_set_all], of k] override_keys_distinct
    by (simp add: comp_def)
qed

lemma put_env_text:
  assumes "put_env k v ov = Inr ov'" and "k \<in> set override_keys"
  shows "override_text ov' k' = (if k' = k then Some v else override_text ov k')"
  using assms
  by (cases k; clarsimp simp: res_simps override_keys_def; cases k'; simp add: parse_bool_ok)

lemma env_names_distinct: "distinct (map snd env_names)"
  by (simp add: env_names_def)

lemma env_names_key: "map_of env_names name = Some k \<Longrightarrow> k \<in> set override_keys"
proof -
  have "set (map snd env_names) = set override_keys" by (simp add: env_names_def override_keys_def)
  then show "map_of env_names name = Some k \<Longrightarrow> k \<in> set override_keys"
    by (force dest: map_of_SomeD)
qed

definition env_text :: "(string \<times> string) list \<Rightarrow> config_key \<Rightarrow> string option" where
  "env_text env k =
     map_option snd (find (\<lambda>(name, _). map_of env_names name = Some k) (rev env))"

lemma find_append: "find P (xs @ ys) = (case find P xs of None \<Rightarrow> find P ys | Some x \<Rightarrow> Some x)"
  by (induction xs) auto

lemma collect_env_text:
  "collect_env env ov = Inr ov' \<Longrightarrow>
     override_text ov' k = (case env_text env k of Some v \<Rightarrow> Some v | None \<Rightarrow> override_text ov k)"
proof (induction env ov rule: collect_env.induct)
  case (1 ov)
  then show ?case by (simp add: env_text_def)
next
  case (2 name v vars ov)
  then obtain ov1 where
    ov1: "(case map_of env_names name of Some k \<Rightarrow> put_env k v ov | None \<Rightarrow> Inr ov) = Inr ov1"
    and rest: "collect_env vars ov1 = Inr ov'"
    by (auto simp: and_then_Inr_iff)
  from ov1 have "override_text ov1 k =
      (if map_of env_names name = Some k then Some v else override_text ov k)"
    by (auto split: option.splits dest: env_names_key simp: put_env_text)
  with 2(1)[OF rest] show ?case
    by (simp add: env_text_def find_append split: option.splits)
qed

text \<open>
  Loading a configuration layers its sources key by key: the command line overrides the
  environment, the environment overrides the file (or the defaults, when there is none),
  each override is stored in the normal form \<open>set_value\<close> stores, and the result is valid.
\<close>

theorem load_precedence:
  assumes "load lib toml_parse path outcome env ov = Inr c"
  shows "\<exists>base. load_file lib toml_parse path outcome = Inr base \<and> validate lib c = Inr ()
    \<and> (\<forall>k. raw_value c k
          = layered k (override_text ov k) (layered k (env_text env k) (raw_value base k)))"
proof -
  from assms obtain base eov c1 where
    base: "load_file lib toml_parse path outcome = Inr base"
    and eov: "collect_env env no_overrides = Inr eov"
    and c1: "apply_overrides lib eov base = Inr c1" "apply_overrides lib ov c1 = Inr c"
    and valid: "validate lib c = Inr ()"
    by (auto simp: load_def apply_environment_def and_then_Inr_iff)
  have "override_text no_overrides k = None" for k
    by (cases k) (simp_all add: no_overrides_def)
  then have "override_text eov k = env_text env k" for k
    using collect_env_text[OF eov, of k] by (simp split: option.splits)
  then show ?thesis
    using base valid apply_overrides_raw[OF c1(1)] apply_overrides_raw[OF c1(2)] by simp
qed

lemma default_field_ok: "field_ok lib default_config k"
proof -
  have trims: "trim ''auto'' \<noteq> []" "trim ''local'' \<noteq> []" "trim ''vmbr0'' \<noteq> []" "trim ''8G'' \<noteq> []"
    "trim ''debian-13'' \<noteq> []" "trim ''main'' \<noteq> []" "trim ''15m'' = ''15m''"
    by code_simp+
  have "validate_repository_reference ''recipes.repository''
      ''https://github.com/kierandrewett/pbox-recipes.git'' = Inr ()" by code_simp
  moreover have "is_ok (parse_duration ''15m'')"
  proof -
    have "parse_u64 (show_nat 15) = Some 15" by (rule parse_uint_show_nat) (simp add: U64_MAX_def)
    moreover have "show_nat 15 = ''15''" by code_simp
    ultimately have "parse_u64 ''15'' = Some 15" by simp
    then show ?thesis
      by (simp add: parse_duration_def trims checked_mul_def U64_MAX_def)
  qed
  ultimately show ?thesis
    by (cases k) (simp_all add: trims default_pve_config_def default_pve_defaults_def
        default_agent_config_def default_recipe_config_def default_image_config_def)
qed

text \<open>
  The built-in defaults are valid, whatever the URL library does, and unsetting a key
  restores its default, leaves every other key alone, and keeps a valid configuration valid.
\<close>

theorem unset_value_restores_default:
  "validate lib default_config = Inr ()
   \<and> (case unset_value (key_name k) c of
        Inl _ \<Rightarrow> False
      | Inr c' \<Rightarrow>
          raw_value c' k = raw_value default_config k
          \<and> (\<forall>k'. k' = k \<or> raw_value c' k' = raw_value c k')
          \<and> (validate lib c' = Inr ()) = (\<forall>k'. k' = k \<or> field_ok lib c k'))"
proof -
  have field: "field_ok lib (unset_key k c) k' = (k' = k \<or> field_ok lib c k')" for k'
  proof (cases "k' = k")
    case True
    have "field_ok lib (unset_key k c) k = field_ok lib default_config k"
      by (cases k) (simp_all add: upd_defaults_def)
    with True default_field_ok show ?thesis by simp
  next
    case False
    then show ?thesis by (cases k; cases k'; simp add: upd_defaults_def)
  qed
  show ?thesis
    by (simp add: unset_value_def unset_key_raw validate_iff default_field_ok field
        del: field_ok.simps unset_key.simps raw_value.simps)
qed

theorem load_precedence_witness:
  "\<exists>base. load_file no_urls (\<lambda>_. None) ''config.toml'' NotFound = Inr base
    \<and> validate no_urls (cf_agent_update (ag_port_update (\<lambda>_. 80)) default_config) = Inr ()
    \<and> (\<forall>k. raw_value (cf_agent_update (ag_port_update (\<lambda>_. 80)) default_config) k
          = layered k (override_text (no_overrides\<lparr>ov_agent_port := Some ''80''\<rparr>) k)
              (layered k (env_text [(''PBOX_AGENT_PORT'', ''90'')] k) (raw_value base k)))"
proof (rule load_precedence)
  have ports: "set_key no_urls KAgentPort (show_nat n) c
      = Inr (cf_agent_update (ag_port_update (\<lambda>_. n)) c)" if "0 < n" "n \<le> U16_MAX" for n c
    using that by (simp add: parse_port_def parse_uint_show_nat)
  have texts: "show_nat 80 = ''80''" "show_nat 90 = ''90''" by code_simp+
  have sets: "set_key no_urls KAgentPort ''80'' c = Inr (cf_agent_update (ag_port_update (\<lambda>_. 80)) c)"
    "set_key no_urls KAgentPort ''90'' c = Inr (cf_agent_update (ag_port_update (\<lambda>_. 90)) c)" for c
    using ports[of 80 c] ports[of 90 c] texts by (simp_all add: U16_MAX_def)
  have ok: "validate no_urls (cf_agent_update (ag_port_update (\<lambda>_. 80)) default_config) = Inr ()"
    unfolding validate_iff
    using default_field_ok[of no_urls] set_key_field_other[OF sets(1)] set_key_field_same[OF sets(1)]
    by (metis config_key.distinct)
  have env: "collect_env [(''PBOX_AGENT_PORT'', ''90'')] no_overrides
      = Inr (no_overrides\<lparr>ov_agent_port := Some ''90''\<rparr>)"
    by (simp add: env_names_def)
  show "load no_urls (\<lambda>_. None) ''config.toml'' NotFound [(''PBOX_AGENT_PORT'', ''90'')]
      (no_overrides\<lparr>ov_agent_port := Some ''80''\<rparr>)
      = Inr (cf_agent_update (ag_port_update (\<lambda>_. 80)) default_config)"
    unfolding load_def load_file_def apply_environment_def apply_overrides_def put_opt_def
      set_opt_key env
    using ok by (simp add: no_overrides_def sets comp_def del: set_key.simps)
qed

theorem set_value_keeps_valid_witness:
  "validate no_urls (cf_agent_update (ag_port_update (\<lambda>_. 80)) default_config) = Inr ()
     \<longleftrightarrow> (''agent.port'' = ''relay.key-file'' \<longrightarrow> trim ''80'' \<noteq> [])"
proof (rule set_value_keeps_valid)
  show "validate no_urls default_config = Inr ()"
    by (simp add: validate_iff default_field_ok)
  have "parse_u16 (show_nat 80) = Some 80" by (rule parse_uint_show_nat) (simp add: U16_MAX_def)
  moreover have "show_nat 80 = ''80''" "key_of ''agent.port'' = Some KAgentPort" by code_simp+
  ultimately show "set_value no_urls ''agent.port'' ''80'' default_config
      = Inr (cf_agent_update (ag_port_update (\<lambda>_. 80)) default_config)"
    by (simp add: set_value_def parse_port_def)
qed

section \<open>Saving is atomic\<close>

lemma create_dir_all_other:
  "create_dir_all io parent fs = (b, fs') \<Longrightarrow> fs p \<noteq> None \<or> length parent < length p \<Longrightarrow> fs' p = fs p"
  by (auto simp: create_dir_all_def make_dirs_def split: option.splits if_splits)

text \<open>
  C2: \<open>save_file\<close> is atomic. When it succeeds the configuration was valid, the target was
  no symbolic link and it now holds the whole serialised text, readable by its owner only;
  when it fails, at whatever point, the target is exactly what it was. Every other existing
  file is untouched, and the temporary file is gone unless its removal failed.
\<close>

theorem save_file_atomic:
  assumes "path \<noteq> []" and "save_file lib toml_text io path c fs = (r, fs')"
    and "fs (temporary_name io path) = None" and "temporary_name io path \<noteq> path"
  shows "(case r of
            Inr _ \<Rightarrow> validate lib c = Inr () \<and> \<not> is_symlink (fs path)
              \<and> (\<exists>text. toml_text c = Some text \<and> fs' path = Some (File (text @ ''\<newline>'') 384))
          | Inl _ \<Rightarrow> fs' path = fs path)
    \<and> (\<forall>p. fs p \<noteq> None \<longrightarrow> p \<noteq> path \<longrightarrow> fs' p = fs p)
    \<and> (is_ok r \<or> io_remove_ok io \<longrightarrow> fs' (temporary_name io path) = None)"
proof -
  let ?t = "temporary_name io path"
  have len: "length (butlast path) < length path" "length (butlast path) < length ?t"
    using assms(1) by (auto simp: temporary_name_def length_greater_0_conv[symmetric] simp del: length_greater_0_conv)
  obtain b fs1 where fs1: "create_dir_all io (butlast path) fs = (b, fs1)" by fastforce
  have same: "fs1 path = fs path" "fs1 ?t = None" "\<And>p. fs p \<noteq> None \<Longrightarrow> fs1 p = fs p"
    using create_dir_all_other[OF fs1] len assms(3) by auto
  show ?thesis
    using assms same fs1
    by (auto simp: save_file_def write_temporary_def remove_file_def Let_def unit_result_cases
        split: sum.splits bool.splits option.splits if_splits)
qed

text \<open>A run that is interrupted while it writes.\<close>

definition torn_write :: save_io where
  "torn_write = \<lparr>io_mkdir_failed_at = None, io_stamp = 1, io_pid = 2, io_open_ok = True,
     io_write_failed_at = Some 3, io_rename_ok = True, io_remove_ok = True\<rparr>"

lemma torn_write_simps [simp]:
  "io_mkdir_failed_at torn_write = None" "io_open_ok torn_write"
  "io_write_failed_at torn_write = Some 3" "io_remove_ok torn_write"
  by (simp_all add: torn_write_def)

theorem save_file_atomic_witness:
  "snd (save_file no_urls (\<lambda>_. Some ''new'') torn_write [''etc'', ''c''] default_config
      [[''etc'', ''c''] \<mapsto> File ''old'' 384]) [''etc'', ''c''] = Some (File ''old'' 384)
   \<and> snd (save_file no_urls (\<lambda>_. Some ''new'') torn_write [''etc'', ''c''] default_config
      [[''etc'', ''c''] \<mapsto> File ''old'' 384]) [''etc'', ''.c.tmp-2-1''] = None"
proof -
  let ?fs = "[[''etc'', ''c''] \<mapsto> File ''old'' 384] :: fs"
  let ?r = "save_file no_urls (\<lambda>_. Some ''new'') torn_write [''etc'', ''c''] default_config ?fs"
  have tmp: "temporary_name torn_write [''etc'', ''c''] = [''etc'', ''.c.tmp-2-1'']"
    by code_simp
  have "validate no_urls default_config = Inr ()"
    by (simp add: validate_iff default_field_ok)
  then have err: "\<not> is_ok (fst ?r)"
    by (simp add: save_file_def create_dir_all_def write_temporary_def make_dirs_def tmp Let_def)
  have "?r = (fst ?r, snd ?r)" by simp
  from save_file_atomic[OF _ this] tmp err
  have "snd ?r [''etc'', ''c''] = ?fs [''etc'', ''c'']" "snd ?r [''etc'', ''.c.tmp-2-1''] = None"
    by (cases "fst ?r"; simp add: tmp)+
  then show ?thesis by simp
qed

end
