(* ===== verification/Pve.thy ===== *)
theory Pve
  imports Config "HOL-Library.Product_Lexorder"
begin

text \<open>
  \<open>crates/pbox-core/src/pve.rs\<close>: the Proxmox VE client. Each operation of
  \<open>PveApi\<close> is a call; \<open>request_of\<close> gives the HTTP request the client sends
  for it, or the error it stops with before it sends anything. The HTTP exchange itself is
  library code; the decoding of a response takes the JSON parser as a parameter.
\<close>

section \<open>Errors and guards\<close>

datatype pve_error =
    RequestFailed string
  | UploadFile string
  | Decode string
  | Http nat string
  | InvalidBaseUrl
  | InvalidPathSegment string
  | InvalidSnapshotName string
  | Unsupported string

definition API_PREFIX :: string where "API_PREFIX = ''/api2/json''"

definition trim_end_char :: "char \<Rightarrow> string \<Rightarrow> string" where
  "trim_end_char c s = rev (dropWhile (\<lambda>d. d = c) (rev s))"

definition normalise_base_url :: "url_lib \<Rightarrow> string \<Rightarrow> (pve_error, string) result" where
  "normalise_base_url lib value =
     (let trimmed = trim_end_char CHR ''/'' (trim value) in
      if trimmed = [] then Inl InvalidBaseUrl
      else case url_parse lib trimmed of
        None \<Rightarrow> Inl InvalidBaseUrl
      | Some parsed \<Rightarrow>
          if u_scheme parsed \<noteq> ''https'' \<or> u_host parsed = None
             \<or> u_username parsed \<noteq> [] \<or> u_password parsed \<noteq> None
             \<or> u_query parsed \<noteq> None \<or> u_fragment parsed \<noteq> None
          then Inl InvalidBaseUrl
          else if ends_with trimmed API_PREFIX then Inr trimmed
          else Inr (trimmed @ API_PREFIX))"

definition validate_path_segment :: "string \<Rightarrow> string \<Rightarrow> (pve_error, unit) result" where
  "validate_path_segment value field =
     (if value = [] \<or> value \<in> {''.'', ''..''}
         \<or> list_ex (\<lambda>c. c \<in> {CHR ''/'', CHR 0x5C, CHR ''?'', CHR ''#'', CHR ''%''}) value
      then Inl (InvalidPathSegment field) else Inr ())"

definition validate_oci_reference :: "string \<Rightarrow> (pve_error, unit) result" where
  "validate_oci_reference value =
     (if value = []
         \<or> list_ex (\<lambda>c. is_ascii_control c
              \<or> c \<in> {CHR ''?'', CHR ''#'', CHR ''%'', CHR ''&'', CHR 0x5C}) value
      then Inl (InvalidPathSegment ''OCI reference'') else Inr ())"

definition hex_upper :: "nat \<Rightarrow> char" where
  "hex_upper d = (if d < 10 then char_of (48 + d) else char_of (55 + d))"

definition query_plain :: "char \<Rightarrow> bool" where
  "query_plain c \<longleftrightarrow> is_alnum c
     \<or> c \<in> {CHR ''-'', CHR ''.'', CHR ''_'', CHR ''~'', CHR ''/'', CHR '':'', CHR ''@''}"

definition encode_query_component :: "string \<Rightarrow> string" where
  "encode_query_component value =
     concat (map (\<lambda>b. if query_plain b then [b]
       else [CHR ''%'', hex_upper (byte b div 16), hex_upper (byte b mod 16)]) value)"

definition validate_snapshot_name :: "string \<Rightarrow> (pve_error, unit) result" where
  "validate_snapshot_name value =
     (if length value \<ge> 2 \<and> value \<noteq> [] \<and> length value \<le> 40
         \<and> value \<noteq> ''current'' \<and> value \<noteq> ''vzdump'' \<and> is_alpha (hd value)
         \<and> list_all (\<lambda>c. is_alnum c \<or> c \<in> {CHR ''_'', CHR ''-''}) (tl value)
      then Inr () else Inl (InvalidSnapshotName value))"

section \<open>Requests\<close>

record lxc_create_request =
  cr_entrypoint :: "string option"
  cr_ostype :: "string option"
  cr_ostemplate :: "string option"
  cr_hostname :: "string option"
  cr_memory :: "nat option"
  cr_swap :: "nat option"
  cr_cores :: "nat option"
  cr_rootfs :: "string option"
  cr_net0 :: "string option"
  cr_unprivileged :: "bool option"
  cr_onboot :: "bool option"
  cr_description :: "string option"
  cr_ssh_public_keys :: "string option"
  cr_start :: "bool option"

record lxc_config_update =
  cu_networks :: "(string \<times> string) list"
  cu_digest :: "string option"
  cu_hostname :: "string option"
  cu_memory :: "nat option"
  cu_swap :: "nat option"
  cu_cores :: "nat option"
  cu_rootfs :: "string option"
  cu_net0 :: "string option"
  cu_unprivileged :: "bool option"
  cu_description :: "string option"

record lxc_clone_request =
  cl_newid :: nat
  cl_hostname :: string
  cl_description :: string
  cl_full :: nat
  cl_storage :: "string option"

record lxc_snapshot_request =
  sn_snapname :: string
  sn_description :: "string option"

type_synonym form = "(string \<times> string) list"

definition opt_field :: "string \<Rightarrow> ('a \<Rightarrow> string) \<Rightarrow> 'a option \<Rightarrow> form" where
  "opt_field name show value = (case value of Some v \<Rightarrow> [(name, show v)] | None \<Rightarrow> [])"

text \<open>\<open>serialize_optional_bool_as_int\<close>.\<close>

definition bool_as_int :: "bool \<Rightarrow> string" where
  "bool_as_int b = (if b then ''1'' else ''0'')"

definition create_form :: "nat \<Rightarrow> lxc_create_request \<Rightarrow> form" where
  "create_form vmid r =
     [(''vmid'', show_nat vmid)]
     @ opt_field ''entrypoint'' (\<lambda>v. v) (cr_entrypoint r)
     @ opt_field ''ostype'' (\<lambda>v. v) (cr_ostype r)
     @ opt_field ''ostemplate'' (\<lambda>v. v) (cr_ostemplate r)
     @ opt_field ''hostname'' (\<lambda>v. v) (cr_hostname r)
     @ opt_field ''memory'' show_nat (cr_memory r)
     @ opt_field ''swap'' show_nat (cr_swap r)
     @ opt_field ''cores'' show_nat (cr_cores r)
     @ opt_field ''rootfs'' (\<lambda>v. v) (cr_rootfs r)
     @ opt_field ''net0'' (\<lambda>v. v) (cr_net0 r)
     @ opt_field ''unprivileged'' bool_as_int (cr_unprivileged r)
     @ opt_field ''onboot'' bool_as_int (cr_onboot r)
     @ opt_field ''description'' (\<lambda>v. v) (cr_description r)
     @ opt_field ''ssh-public-keys'' (\<lambda>v. v) (cr_ssh_public_keys r)
     @ opt_field ''start'' bool_as_int (cr_start r)"

definition update_form :: "lxc_config_update \<Rightarrow> form" where
  "update_form r =
     cu_networks r
     @ opt_field ''digest'' (\<lambda>v. v) (cu_digest r)
     @ opt_field ''hostname'' (\<lambda>v. v) (cu_hostname r)
     @ opt_field ''memory'' show_nat (cu_memory r)
     @ opt_field ''swap'' show_nat (cu_swap r)
     @ opt_field ''cores'' show_nat (cu_cores r)
     @ opt_field ''rootfs'' (\<lambda>v. v) (cu_rootfs r)
     @ opt_field ''net0'' (\<lambda>v. v) (cu_net0 r)
     @ opt_field ''unprivileged'' bool_as_int (cu_unprivileged r)
     @ opt_field ''description'' (\<lambda>v. v) (cu_description r)"

definition clone_form :: "lxc_clone_request \<Rightarrow> form" where
  "clone_form r =
     [(''newid'', show_nat (cl_newid r)), (''hostname'', cl_hostname r),
      (''description'', cl_description r), (''full'', show_nat (cl_full r))]
     @ opt_field ''storage'' (\<lambda>v. v) (cl_storage r)"

definition snapshot_form :: "lxc_snapshot_request \<Rightarrow> form" where
  "snapshot_form r =
     [(''snapname'', sn_snapname r)] @ opt_field ''description'' (\<lambda>v. v) (sn_description r)"

datatype pve_method = GET | POST | PUT | DELETE

datatype payload = NoBody | Form form | Multipart form string

record pve_request =
  rq_method :: pve_method
  rq_path :: string
  rq_payload :: payload

datatype api_call =
    ListClusterResources
  | LxcUsage string nat
  | GetLxcConfig string nat
  | ListLxcInterfaces string nat
  | ListLxcSnapshots string nat
  | GetTaskStatus string string
  | GetTaskLog string string nat nat
  | ListNodes
  | ListNodeStorages string
  | ListNodeNetworkInterfaces string
  | ListStorageContent string string string
  | ListOciRepoTags string string
  | PullOciRegistry string string string string
  | UploadStorageTemplate string string string string
  | DeleteBootstrapTemplate string string string
  | GetLxcState string nat
  | CreateLxc string nat lxc_create_request
  | UpdateLxcConfig string nat lxc_config_update
  | StatusAction string nat string
  | DeleteLxc string nat
  | ForceDeleteLxc string nat
  | CloneLxc string nat lxc_clone_request
  | TemplateLxc string nat
  | ActiveDeleteTasks string
  | TemplateTasks string nat
  | CreateLxcSnapshot string nat lxc_snapshot_request
  | RollbackLxcSnapshot string nat string bool
  | DeleteLxcSnapshot string nat string

definition rq :: "pve_method \<Rightarrow> string \<Rightarrow> payload \<Rightarrow> (pve_error, pve_request) result" where
  "rq method path body = Inr \<lparr>rq_method = method, rq_path = path, rq_payload = body\<rparr>"

definition guarded :: "(pve_error, unit) result list \<Rightarrow> (pve_error, 'a) result \<Rightarrow> (pve_error, 'a) result"
  where "guarded checks r = and_then (all_checks checks) (\<lambda>_. r)"

abbreviation node_ok :: "string \<Rightarrow> (pve_error, unit) result" where
  "node_ok node \<equiv> validate_path_segment node ''node''"

abbreviation lxc_path :: "string \<Rightarrow> nat \<Rightarrow> string" where
  "lxc_path node vmid \<equiv> ''/nodes/'' @ node @ ''/lxc/'' @ show_nat vmid"

primrec request_of :: "api_call \<Rightarrow> (pve_error, pve_request) result" where
  "request_of ListClusterResources = rq GET ''/cluster/resources?type=vm'' NoBody"
| "request_of (LxcUsage node vmid) = rq GET (lxc_path node vmid @ ''/status/current'') NoBody"
| "request_of (GetLxcConfig node vmid) =
     guarded [node_ok node] (rq GET (lxc_path node vmid @ ''/config?current=1'') NoBody)"
| "request_of (ListLxcInterfaces node vmid) =
     guarded [node_ok node] (rq GET (lxc_path node vmid @ ''/interfaces'') NoBody)"
| "request_of (ListLxcSnapshots node vmid) =
     guarded [node_ok node] (rq GET (lxc_path node vmid @ ''/snapshot'') NoBody)"
| "request_of (GetTaskStatus node upid) =
     guarded [node_ok node, validate_path_segment upid ''UPID'']
       (rq GET (''/nodes/'' @ node @ ''/tasks/'' @ upid @ ''/status'') NoBody)"
| "request_of (GetTaskLog node upid start limit) =
     guarded [node_ok node, validate_path_segment upid ''UPID'']
       (rq GET (''/nodes/'' @ node @ ''/tasks/'' @ upid @ ''/log?start='' @ show_nat start
          @ ''&limit='' @ show_nat limit) NoBody)"
| "request_of ListNodes = rq GET ''/nodes'' NoBody"
| "request_of (ListNodeStorages node) =
     guarded [node_ok node] (rq GET (''/nodes/'' @ node @ ''/storage'') NoBody)"
| "request_of (ListNodeNetworkInterfaces node) =
     guarded [node_ok node] (rq GET (''/nodes/'' @ node @ ''/network'') NoBody)"
| "request_of (ListStorageContent node storage content) =
     guarded [node_ok node, validate_path_segment storage ''storage'',
              validate_path_segment content ''content'']
       (rq GET (''/nodes/'' @ node @ ''/storage/'' @ storage @ ''/content?content='' @ content) NoBody)"
| "request_of (ListOciRepoTags node reference) =
     guarded [node_ok node, validate_oci_reference reference]
       (rq GET (''/nodes/'' @ node @ ''/query-oci-repo-tags?reference=''
          @ encode_query_component reference) NoBody)"
| "request_of (PullOciRegistry node storage reference filename) =
     guarded [node_ok node, validate_path_segment storage ''storage'',
              validate_oci_reference reference, validate_path_segment filename ''filename'']
       (rq POST (''/nodes/'' @ node @ ''/storage/'' @ storage @ ''/oci-registry-pull'')
          (Form [(''reference'', reference), (''filename'', filename)]))"
| "request_of (UploadStorageTemplate node storage filename local_path) =
     guarded [node_ok node, validate_path_segment storage ''storage'',
              validate_path_segment filename ''filename'']
       (rq POST (''/nodes/'' @ node @ ''/storage/'' @ storage @ ''/upload'')
          (Multipart [(''content'', ''vztmpl'')] local_path))"
| "request_of (DeleteBootstrapTemplate node storage filename) =
     guarded [node_ok node, validate_path_segment storage ''storage'',
              validate_path_segment filename ''filename'']
       (if \<not> starts_with filename ''pbox-bootstrap-pbx_'' \<or> \<not> ends_with filename ''.tar.zst''
        then Inl (Unsupported ''refusing to delete a non-bootstrap template'')
        else rq DELETE (''/nodes/'' @ node @ ''/storage/'' @ storage @ ''/content/'' @ storage
               @ '':vztmpl%2F'' @ filename) NoBody)"
| "request_of (GetLxcState node vmid) =
     guarded [node_ok node] (rq GET (lxc_path node vmid @ ''/status/current'') NoBody)"
| "request_of (CreateLxc node vmid request) =
     guarded [node_ok node]
       (rq POST (''/nodes/'' @ node @ ''/lxc'') (Form (create_form vmid request)))"
| "request_of (UpdateLxcConfig node vmid request) =
     guarded [node_ok node] (rq PUT (lxc_path node vmid @ ''/config'') (Form (update_form request)))"
| "request_of (StatusAction node vmid action) =
     guarded [node_ok node, validate_path_segment action ''action'']
       (rq POST (lxc_path node vmid @ ''/status/'' @ action) NoBody)"
| "request_of (DeleteLxc node vmid) =
     guarded [node_ok node] (rq DELETE (lxc_path node vmid) NoBody)"
| "request_of (ForceDeleteLxc node vmid) =
     guarded [node_ok node] (rq DELETE (lxc_path node vmid @ ''?force=1'') NoBody)"
| "request_of (CloneLxc node vmid request) =
     guarded [node_ok node] (rq POST (lxc_path node vmid @ ''/clone'') (Form (clone_form request)))"
| "request_of (TemplateLxc node vmid) =
     guarded [node_ok node] (rq POST (lxc_path node vmid @ ''/template'') NoBody)"
| "request_of (ActiveDeleteTasks node) =
     guarded [node_ok node]
       (rq GET (''/nodes/'' @ node @ ''/tasks?source=active&typefilter=vzdestroy&limit=500'') NoBody)"
| "request_of (TemplateTasks node vmid) =
     guarded [node_ok node]
       (rq GET (''/nodes/'' @ node @ ''/tasks?vmid='' @ show_nat vmid
          @ ''&typefilter=vztemplate&limit=10'') NoBody)"
| "request_of (CreateLxcSnapshot node vmid request) =
     guarded [node_ok node, validate_snapshot_name (sn_snapname request)]
       (rq POST (lxc_path node vmid @ ''/snapshot'') (Form (snapshot_form request)))"
| "request_of (RollbackLxcSnapshot node vmid snapname start) =
     guarded [node_ok node, validate_snapshot_name snapname]
       (rq POST (lxc_path node vmid @ ''/snapshot/'' @ snapname @ ''/rollback'')
          (Form [(''start'', bool_as_int start)]))"
| "request_of (DeleteLxcSnapshot node vmid snapname) =
     guarded [node_ok node, validate_snapshot_name snapname]
       (rq DELETE (lxc_path node vmid @ ''/snapshot/'' @ snapname) NoBody)"

section \<open>The client\<close>

text \<open>\<open>PveClient::new\<close>: the base URL and the \<open>Authorization\<close> header.\<close>

fun replace_eq_space :: "string \<Rightarrow> string" where
  "replace_eq_space (a # b # s) =
     (if a = CHR ''='' \<and> b = CHR '' '' then CHR ''='' # replace_eq_space s
      else a # replace_eq_space (b # s))"
| "replace_eq_space s = s"

definition authorization :: "string \<Rightarrow> string \<Rightarrow> string" where
  "authorization token_id token_secret =
     replace_eq_space (''PVEAPIToken='' @ token_id @ ''= '' @ token_secret)"

record pve_client =
  pc_base_url :: string
  pc_authorization :: string

definition client_new :: "url_lib \<Rightarrow> string \<Rightarrow> string \<Rightarrow> string \<Rightarrow> (pve_error, pve_client) result" where
  "client_new lib base_url token_id token_secret =
     and_then (normalise_base_url lib base_url) (\<lambda>base.
     Inr \<lparr>pc_base_url = base, pc_authorization = authorization token_id token_secret\<rparr>)"

definition request_url :: "pve_client \<Rightarrow> pve_request \<Rightarrow> string" where
  "request_url client r = pc_base_url client @ rq_path r"

section \<open>Responses\<close>

text \<open>
  \<open>parse_errors\<close> is the JSON parser at the error envelope (its \<open>errors\<close> text,
  when the body is such an envelope) and \<open>parse_data\<close> at the data envelope.
\<close>

definition decode_response ::
  "(string \<Rightarrow> string option option) \<Rightarrow> (string \<Rightarrow> (string, 'a) result) \<Rightarrow> nat \<Rightarrow> string
     \<Rightarrow> (pve_error, 'a) result" where
  "decode_response parse_errors parse_data status body =
     (if \<not> (200 \<le> status \<and> status < 300)
      then Inl (Http status
        (case parse_errors body of Some (Some message) \<Rightarrow> message | _ \<Rightarrow> body))
      else map_err Decode (parse_data body))"

datatype pve_bool_value = PveBool bool | PveInteger nat | PveText string

definition decode_pve_bool :: "pve_bool_value option \<Rightarrow> (string, bool option) result" where
  "decode_pve_bool value =
     (case value of
        None \<Rightarrow> Inr None
      | Some (PveBool b) \<Rightarrow> Inr (Some b)
      | Some (PveInteger n) \<Rightarrow>
          if n = 0 then Inr (Some False)
          else if n = 1 then Inr (Some True)
          else Inl (''PVE boolean integer must be 0 or 1, got '' @ show_nat n)
      | Some (PveText t) \<Rightarrow>
          if t \<in> {''0'', ''false''} then Inr (Some False)
          else if t \<in> {''1'', ''true''} then Inr (Some True)
          else Inl (''invalid PVE boolean value: '' @ t))"

record pve_task_status =
  ts_status :: string
  ts_exitstatus :: "string option"

definition is_successful :: "pve_task_status \<Rightarrow> bool" where
  "is_successful t \<longleftrightarrow>
     ts_status t = ''stopped''
     \<and> (case ts_exitstatus t of
          None \<Rightarrow> False
        | Some status \<Rightarrow> status = ''OK'' \<or> starts_with status ''WARNINGS:'')"

section \<open>Address selection\<close>

record lxc_interface =
  if_name :: "string option"
  if_inet :: "string option"
  if_exists :: "nat option"
  if_active :: "nat option"
  if_addresses :: "string list"
  if_inet6 :: "string option"

type_synonym ipv4 = "nat \<times> nat \<times> nat \<times> nat"

text \<open>\<open>Ipv4Addr::from_str\<close>: four decimal octets without leading zeros.\<close>

definition parse_octet :: "string \<Rightarrow> nat option" where
  "parse_octet s =
     (if s \<noteq> [] \<and> length s \<le> 3 \<and> list_all is_digit s \<and> (length s = 1 \<or> hd s \<noteq> CHR ''0'')
         \<and> digits_val s \<le> 255
      then Some (digits_val s) else None)"

definition parse_ipv4 :: "string \<Rightarrow> ipv4 option" where
  "parse_ipv4 s =
     (case map parse_octet (split_char CHR ''.'' s) of
        [Some a, Some b, Some c, Some d] \<Rightarrow> Some (a, b, c, d)
      | _ \<Rightarrow> None)"

definition usable_ipv4 :: "ipv4 \<Rightarrow> bool" where
  "usable_ipv4 = (\<lambda>(a, b, c, d).
     \<not> ((a, b, c, d) = (0, 0, 0, 0) \<or> a = 127 \<or> (a = 169 \<and> b = 254)))"

fun min_by_key :: "('a \<Rightarrow> 'b :: linorder) \<Rightarrow> 'a list \<Rightarrow> 'a option" where
  "min_by_key f [] = None"
| "min_by_key f (x # xs) =
     (case min_by_key f xs of
        None \<Rightarrow> Some x
      | Some y \<Rightarrow> if f x \<le> f y then Some x else Some y)"

definition interface_ipv4 :: "lxc_interface \<Rightarrow> (bool \<times> ipv4) option" where
  "interface_ipv4 i =
     (if if_active i = Some 0 \<or> if_exists i = Some 0 then None
      else case if_inet i of
        None \<Rightarrow> None
      | Some inet \<Rightarrow>
          (case parse_ipv4 (hd (split_char CHR ''/'' inet)) of
             None \<Rightarrow> None
           | Some address \<Rightarrow>
               if usable_ipv4 address then Some (if_name i \<noteq> Some ''eth0'', address) else None))"

definition select_lxc_ipv4 :: "lxc_interface list \<Rightarrow> ipv4 option" where
  "select_lxc_ipv4 interfaces =
     map_option snd (min_by_key (\<lambda>x. x) (List.map_filter interface_ipv4 interfaces))"

section \<open>What the guards give\<close>

lemma path_segment_ok_iff:
  "validate_path_segment v f = Inr () \<longleftrightarrow>
     v \<noteq> [] \<and> v \<noteq> ''.'' \<and> v \<noteq> ''..''
     \<and> CHR ''/'' \<notin> set v \<and> CHR 0x5C \<notin> set v \<and> CHR ''?'' \<notin> set v \<and> CHR ''#'' \<notin> set v \<and> CHR ''%'' \<notin> set v"
  by (auto simp: validate_path_segment_def list_ex_iff)

lemma snapshot_name_ok:
  assumes "validate_snapshot_name v = Inr ()"
  shows "validate_path_segment v f = Inr ()"
proof -
  have al: "is_alpha (hd v)" "v \<noteq> []" "2 \<le> length v"
    and tl: "c \<in> set (tl v) \<Longrightarrow> is_alnum c \<or> c = CHR ''_'' \<or> c = CHR ''-''" for c
    using assms by (auto simp: validate_snapshot_name_def list_all_iff split: if_splits)
  have all: "is_alnum c \<or> c = CHR ''_'' \<or> c = CHR ''-''" if "c \<in> set v" for c
    using that al tl[of c] by (cases v) (auto simp: is_alnum_def)
  have bad: "\<not> is_alnum (CHR ''/'')" "\<not> is_alnum (CHR 0x5C)" "\<not> is_alnum (CHR ''?'')"
    "\<not> is_alnum (CHR ''#'')" "\<not> is_alnum (CHR ''%'')" "\<not> is_alpha (CHR ''.'')"
    by code_simp+
  show ?thesis
    unfolding path_segment_ok_iff using al all bad by fastforce
qed

text \<open>The path component of a request target, as its segments.\<close>

definition target_segments :: "string \<Rightarrow> string list" where
  "target_segments target = split_char CHR ''/'' (takeWhile (\<lambda>c. c \<noteq> CHR ''?'' \<and> c \<noteq> CHR ''#'') target)"

primrec endpoint_of :: "api_call \<Rightarrow> string list" where
  "endpoint_of ListClusterResources = [''cluster'', ''resources'']"
| "endpoint_of (LxcUsage node vmid) = [''nodes'', node, ''lxc'', show_nat vmid, ''status'', ''current'']"
| "endpoint_of (GetLxcConfig node vmid) = [''nodes'', node, ''lxc'', show_nat vmid, ''config'']"
| "endpoint_of (ListLxcInterfaces node vmid) = [''nodes'', node, ''lxc'', show_nat vmid, ''interfaces'']"
| "endpoint_of (ListLxcSnapshots node vmid) = [''nodes'', node, ''lxc'', show_nat vmid, ''snapshot'']"
| "endpoint_of (GetTaskStatus node upid) = [''nodes'', node, ''tasks'', upid, ''status'']"
| "endpoint_of (GetTaskLog node upid start limit) = [''nodes'', node, ''tasks'', upid, ''log'']"
| "endpoint_of ListNodes = [''nodes'']"
| "endpoint_of (ListNodeStorages node) = [''nodes'', node, ''storage'']"
| "endpoint_of (ListNodeNetworkInterfaces node) = [''nodes'', node, ''network'']"
| "endpoint_of (ListStorageContent node storage content) =
     [''nodes'', node, ''storage'', storage, ''content'']"
| "endpoint_of (ListOciRepoTags node reference) = [''nodes'', node, ''query-oci-repo-tags'']"
| "endpoint_of (PullOciRegistry node storage reference filename) =
     [''nodes'', node, ''storage'', storage, ''oci-registry-pull'']"
| "endpoint_of (UploadStorageTemplate node storage filename local_path) =
     [''nodes'', node, ''storage'', storage, ''upload'']"
| "endpoint_of (DeleteBootstrapTemplate node storage filename) =
     [''nodes'', node, ''storage'', storage, ''content'', storage @ '':vztmpl%2F'' @ filename]"
| "endpoint_of (GetLxcState node vmid) = [''nodes'', node, ''lxc'', show_nat vmid, ''status'', ''current'']"
| "endpoint_of (CreateLxc node vmid request) = [''nodes'', node, ''lxc'']"
| "endpoint_of (UpdateLxcConfig node vmid request) = [''nodes'', node, ''lxc'', show_nat vmid, ''config'']"
| "endpoint_of (StatusAction node vmid action) =
     [''nodes'', node, ''lxc'', show_nat vmid, ''status'', action]"
| "endpoint_of (DeleteLxc node vmid) = [''nodes'', node, ''lxc'', show_nat vmid]"
| "endpoint_of (ForceDeleteLxc node vmid) = [''nodes'', node, ''lxc'', show_nat vmid]"
| "endpoint_of (CloneLxc node vmid request) = [''nodes'', node, ''lxc'', show_nat vmid, ''clone'']"
| "endpoint_of (TemplateLxc node vmid) = [''nodes'', node, ''lxc'', show_nat vmid, ''template'']"
| "endpoint_of (ActiveDeleteTasks node) = [''nodes'', node, ''tasks'']"
| "endpoint_of (TemplateTasks node vmid) = [''nodes'', node, ''tasks'']"
| "endpoint_of (CreateLxcSnapshot node vmid request) =
     [''nodes'', node, ''lxc'', show_nat vmid, ''snapshot'']"
| "endpoint_of (RollbackLxcSnapshot node vmid snapname start) =
     [''nodes'', node, ''lxc'', show_nat vmid, ''snapshot'', snapname, ''rollback'']"
| "endpoint_of (DeleteLxcSnapshot node vmid snapname) =
     [''nodes'', node, ''lxc'', show_nat vmid, ''snapshot'', snapname]"

definition clean :: "string \<Rightarrow> bool" where
  "clean s \<longleftrightarrow> CHR ''/'' \<notin> set s \<and> CHR ''?'' \<notin> set s \<and> CHR ''#'' \<notin> set s"

lemma clean_simps [simp]:
  "clean []"
  "clean (c # s) \<longleftrightarrow> c \<noteq> CHR ''/'' \<and> c \<noteq> CHR ''?'' \<and> c \<noteq> CHR ''#'' \<and> clean s"
  "clean (s @ t) \<longleftrightarrow> clean s \<and> clean t"
  by (auto simp: clean_def)

lemma clean_show_nat [simp]: "clean (show_nat n)"
  by (auto simp: clean_def char_class_defs dest!: show_nat_digit_in)

lemma clean_segment: "validate_path_segment v f = Inr () \<Longrightarrow> clean v"
  by (simp add: path_segment_ok_iff clean_def)

text \<open>A target made of clean segments and a query is split into exactly these segments.\<close>

lemma takeWhile_clean:
  "clean s \<Longrightarrow> takeWhile (\<lambda>c. c \<noteq> CHR ''?'' \<and> c \<noteq> CHR ''#'') (s @ t)
     = s @ takeWhile (\<lambda>c. c \<noteq> CHR ''?'' \<and> c \<noteq> CHR ''#'') t"
  by (induction s) auto

lemma split_segments:
  "list_all clean segs \<Longrightarrow> clean a \<Longrightarrow>
     split_char CHR ''/'' (a @ concat (map (\<lambda>s. CHR ''/'' # s) segs)) = a # segs"
  by (induction segs arbitrary: a) (simp_all add: split_char_append split_char_no_sep clean_def)

lemma takeWhile_segments:
  "list_all clean segs \<Longrightarrow>
     takeWhile (\<lambda>c. c \<noteq> CHR ''?'' \<and> c \<noteq> CHR ''#'') (concat (map (\<lambda>s. CHR ''/'' # s) segs) @ q)
       = concat (map (\<lambda>s. CHR ''/'' # s) segs)
         @ takeWhile (\<lambda>c. c \<noteq> CHR ''?'' \<and> c \<noteq> CHR ''#'') q"
  by (induction segs) (simp_all add: takeWhile_clean)

definition targets :: "string \<Rightarrow> string list \<Rightarrow> bool" where
  "targets path segs \<longleftrightarrow>
     (\<exists>q. path = concat (map (\<lambda>s. CHR ''/'' # s) segs) @ q \<and> (q = [] \<or> hd q = CHR ''?''))"

lemma targets_segments:
  "targets path segs \<Longrightarrow> list_all clean segs \<Longrightarrow> target_segments path = [] # segs"
proof -
  assume "targets path segs" and c: "list_all clean segs"
  then obtain q where q: "path = concat (map (\<lambda>s. CHR ''/'' # s) segs) @ q" "q = [] \<or> hd q = CHR ''?''"
    unfolding targets_def by blast
  have "takeWhile (\<lambda>c. c \<noteq> CHR ''?'' \<and> c \<noteq> CHR ''#'') q = []" using q(2) by (cases q) auto
  with q c show ?thesis
    using split_segments[OF c, of "[]"] by (simp add: target_segments_def takeWhile_segments)
qed

lemma guarded_ok_iff: "guarded cs r = Inr a \<longleftrightarrow> list_all (\<lambda>c. c = Inr ()) cs \<and> r = Inr a"
  by (auto simp: guarded_def and_then_Inr_iff all_checks_ok_iff list_all_iff)

lemma request_targets:
  "request_of call = Inr r \<Longrightarrow> targets (rq_path r) (endpoint_of call)"
  by (cases call) (auto simp: rq_def guarded_ok_iff targets_def split: if_splits)

definition dot_free :: "string list \<Rightarrow> bool" where
  "dot_free segs \<longleftrightarrow> list_all (\<lambda>s. s \<noteq> [] \<and> s \<noteq> ''.'' \<and> s \<noteq> ''..'') segs"

lemma show_nat_not_dots: "show_nat n \<noteq> ''.''" "show_nat n \<noteq> ''..''"
  using show_nat_digit_in[of "CHR ''.''" n] by (auto simp: char_class_defs)

lemma segment_not_dots:
  "validate_path_segment v f = Inr () \<Longrightarrow> v \<noteq> [] \<and> v \<noteq> ''.'' \<and> v \<noteq> ''..''"
  by (simp add: path_segment_ok_iff)

lemma request_endpoint_safe:
  assumes "request_of call = Inr r" and "\<forall>node vmid. call \<noteq> LxcUsage node vmid"
  shows "list_all clean (endpoint_of call) \<and> dot_free (endpoint_of call)"
  using assms
  by (cases call)
     (auto simp: rq_def guarded_ok_iff dot_free_def show_nat_not_dots Cons_eq_append_conv
        append_eq_Cons_conv
        dest!: snapshot_name_ok[of _ "[]"] dest: clean_segment segment_not_dots split: if_splits)



text \<open>
  The status-bar sample \<open>lxc_usage\<close> puts the node name into the path without the
  check every other call makes: a name with slashes moves the authorised request to another
  endpoint, where the same state query with the check is refused.
\<close>

theorem lxc_usage_unchecked:
  "\<exists>node r. request_of (LxcUsage node 100) = Inr r
     \<and> request_of (GetLxcState node 100) = Inl (InvalidPathSegment ''node'')
     \<and> target_segments (rq_path r) = [[], ''nodes'', ''..'', ''access'', ''users'']"
proof -
  have "request_of (LxcUsage ''../access/users?'' 100)
      = Inr \<lparr>rq_method = GET, rq_path = ''/nodes/../access/users?/lxc/100/status/current'',
             rq_payload = NoBody\<rparr>"
    by code_simp
  moreover have "request_of (GetLxcState ''../access/users?'' 100)
      = Inl (InvalidPathSegment ''node'')" by code_simp
  moreover have "target_segments ''/nodes/../access/users?/lxc/100/status/current''
      = [[], ''nodes'', ''..'', ''access'', ''users'']" by code_simp
  ultimately show ?thesis by (metis pve_request.select_convs(2))
qed

section \<open>Query encoding\<close>

definition hex_value :: "char \<Rightarrow> nat option" where
  "hex_value c =
     (if is_digit c then Some (byte c - 48)
      else if is_upper c \<and> byte c \<le> 70 then Some (byte c - 55)
      else if is_lower c \<and> byte c \<le> 102 then Some (byte c - 87)
      else None)"

text \<open>Percent-decoding, as the receiver of the query does it.\<close>

fun percent_decode :: "string \<Rightarrow> string option" where
  "percent_decode [] = Some []"
| "percent_decode (c # s) =
     (if c = CHR ''%''
      then (case s of
              a # b # t \<Rightarrow>
                (case (hex_value a, hex_value b) of
                   (Some x, Some y) \<Rightarrow> map_option ((#) (char_of (16 * x + y))) (percent_decode t)
                 | _ \<Rightarrow> None)
            | _ \<Rightarrow> None)
      else map_option ((#) c) (percent_decode s))"

lemma hex_value_upper [simp]: "d < 16 \<Longrightarrow> hex_value (hex_upper d) = Some d"
  by (auto simp: hex_value_def hex_upper_def is_digit_def is_upper_def)

lemma not_plain_percent: "\<not> query_plain (CHR ''%'')"
  by code_simp

lemma encode_query_Cons:
  "encode_query_component (b # s) =
     (if query_plain b then [b]
      else [CHR ''%'', hex_upper (byte b div 16), hex_upper (byte b mod 16)]) @ encode_query_component s"
  by (simp add: encode_query_component_def)

lemma byte_nibbles: "byte b div 16 < 16" "byte b mod 16 < 16"
  using byte_less[of b] by (arith, simp)

lemma percent_decode_encode: "percent_decode (encode_query_component s) = Some s"
proof (induction s)
  case Nil
  then show ?case by (simp add: encode_query_component_def)
next
  case (Cons b s)
  note d = byte_nibbles[of b]
  have e: "16 * (byte b div 16) + byte b mod 16 = byte b" by simp
  show ?case
  proof (cases "query_plain b")
    case True
    then have "b \<noteq> CHR ''%''" using not_plain_percent by metis
    with True Cons show ?thesis by (simp add: encode_query_Cons)
  next
    case False
    with Cons d e show ?thesis by (simp add: encode_query_Cons)
  qed
qed

lemma hex_upper_safe: "d < 16 \<Longrightarrow> is_alnum (hex_upper d)"
  by (auto simp: hex_upper_def is_alnum_def is_alpha_def is_upper_def is_digit_def)

lemma encode_query_chars:
  "list_all (\<lambda>c. query_plain c \<or> c = CHR ''%'') (encode_query_component s)"
proof (induction s)
  case (Cons b s)
  show ?case using Cons byte_nibbles[of b]
    by (simp add: encode_query_Cons query_plain_def hex_upper_safe)
qed (simp add: encode_query_component_def)

text \<open>
  The encoded reference decodes to the reference, byte by byte and whatever it holds,
  and it contains no character that ends or splits a query: it is made of letters, digits,
  \<open>- . _ ~ / : @\<close> and percent signs.
\<close>

theorem encode_query_roundtrip:
  "percent_decode (encode_query_component s) = Some s
   \<and> list_all (\<lambda>c. query_plain c \<or> c = CHR ''%'') (encode_query_component s)"
  by (simp add: percent_decode_encode encode_query_chars)

section \<open>Deletion of templates\<close>

text \<open>
  The only deletion of a storage file the client can send is of a bootstrap template:
  a call that succeeds names a file with pbox's own prefix and suffix, and the request is a
  DELETE of that one volume.
\<close>

theorem delete_bootstrap_only:
  "request_of (DeleteBootstrapTemplate node storage filename) = Inr r \<longleftrightarrow>
     validate_path_segment node ''node'' = Inr ()
     \<and> validate_path_segment storage ''storage'' = Inr ()
     \<and> validate_path_segment filename ''filename'' = Inr ()
     \<and> (\<exists>u. filename = ''pbox-bootstrap-pbx_'' @ u) \<and> (\<exists>v. filename = v @ ''.tar.zst'')
     \<and> r = \<lparr>rq_method = DELETE,
             rq_path = ''/nodes/'' @ node @ ''/storage/'' @ storage @ ''/content/''
               @ storage @ '':vztmpl%2F'' @ filename,
             rq_payload = NoBody\<rparr>"
  by (auto simp: guarded_ok_iff rq_def starts_with_iff ends_with_iff split: if_splits)

section \<open>Address selection\<close>

lemma min_by_key_Some:
  "min_by_key f xs = Some x \<Longrightarrow> x \<in> set xs \<and> (\<forall>y \<in> set xs. f x \<le> f y)"
proof (induction xs arbitrary: x)
  case (Cons a xs)
  show ?case
  proof (cases "min_by_key f xs")
    case None
    with Cons.prems have "xs = []" by (cases xs) (auto split: option.splits if_splits)
    with Cons.prems show ?thesis by simp
  next
    case (Some y)
    with Cons show ?thesis by (auto split: if_splits intro: order_trans)
  qed
qed simp

lemma min_by_key_None: "min_by_key f xs = None \<longleftrightarrow> xs = []"
  by (cases xs) (auto split: option.splits)

lemma map_filter_Cons:
  "List.map_filter f (x # xs)
     = (case f x of None \<Rightarrow> List.map_filter f xs | Some y \<Rightarrow> y # List.map_filter f xs)"
  by (simp add: List.map_filter_def split: option.splits)

lemma set_map_filter_iff: "y \<in> set (List.map_filter f xs) \<longleftrightarrow> (\<exists>x \<in> set xs. f x = Some y)"
  by (induction xs) (auto simp: map_filter_Cons List.map_filter_def split: option.splits)

lemma interface_ipv4_usable: "interface_ipv4 i = Some (b, a) \<Longrightarrow> usable_ipv4 a"
  by (auto simp: interface_ipv4_def split: if_splits option.splits)

text \<open>
  The selected address is the address of an interface that is neither inactive nor
  gone, it is not unspecified, loopback or link-local, and it is the least such address with
  those of \<open>eth0\<close> before all others; there is none exactly when no interface has a usable
  address.
\<close>

theorem select_ipv4_least:
  "case select_lxc_ipv4 interfaces of
     None \<Rightarrow> list_all (\<lambda>i. interface_ipv4 i = None) interfaces
   | Some a \<Rightarrow> usable_ipv4 a
       \<and> (\<exists>b i. i \<in> set interfaces \<and> interface_ipv4 i = Some (b, a)
           \<and> list_all (\<lambda>j. case interface_ipv4 j of None \<Rightarrow> True | Some k \<Rightarrow> (b, a) \<le> k) interfaces)"
proof (cases "min_by_key (\<lambda>x. x) (List.map_filter interface_ipv4 interfaces)")
  case None
  then have "List.map_filter interface_ipv4 interfaces = []" by (simp add: min_by_key_None)
  then have "\<not> (\<exists>x y. x \<in> set interfaces \<and> interface_ipv4 x = Some y)"
    using set_map_filter_iff[of _ interface_ipv4 interfaces] by auto
  then have "list_all (\<lambda>i. interface_ipv4 i = None) interfaces"
    unfolding list_all_iff by (metis option.exhaust)
  with None show ?thesis by (simp add: select_lxc_ipv4_def)
next
  case (Some ba)
  obtain b a where ba: "ba = (b, a)" by (cases ba)
  from min_by_key_Some[OF Some] obtain i where
    i: "i \<in> set interfaces" "interface_ipv4 i = Some (b, a)"
    unfolding ba set_map_filter_iff by blast
  have least: "(b, a) \<le> k" if "j \<in> set interfaces" "interface_ipv4 j = Some k" for j k
    using min_by_key_Some[OF Some] that set_map_filter_iff[of k interface_ipv4 interfaces]
    unfolding ba by blast
  then have "list_all (\<lambda>j. case interface_ipv4 j of None \<Rightarrow> True | Some k \<Rightarrow> (b, a) \<le> k) interfaces"
    by (auto simp: list_all_iff split: option.split)
  with i Some ba show ?thesis
    using interface_ipv4_usable by (auto simp: select_lxc_ipv4_def)
qed

end
