(* ===== verification/RelayAuth.thy ===== *)
theory RelayAuth
  imports BoxIds Config
begin

text \<open>
  Who the relay lets in: \<open>scoped_token\<close>, \<open>authorised\<close> and
  \<open>websocket_url\<close> of \<open>crates/pbox-relay/src/lib.rs\<close>, the short-lived
  credentials of \<open>crates/pbox-relay/src/access.rs\<close>, the checks of
  \<open>crates/pbox-relay/src/server.rs\<close> and the certificates of
  \<open>crates/pbox-crypto/src/lib.rs\<close>. HMAC-SHA256, hexadecimal and PEM encoding are
  library code and parameters.
\<close>

section \<open>Scoped tokens\<close>

record mac_lib =
  hmac :: "string \<Rightarrow> string \<Rightarrow> string"
  hex_encode :: "string \<Rightarrow> string"
  hex_decode :: "string \<Rightarrow> string option"

definition token_message :: "string \<Rightarrow> string \<Rightarrow> string" where
  "token_message role box_id = ''pbox-relay-v1/'' @ role @ ''/'' @ box_id"

definition scoped_token :: "mac_lib \<Rightarrow> string \<Rightarrow> string \<Rightarrow> string \<Rightarrow> string" where
  "scoped_token lib master role box_id = hex_encode lib (hmac lib master (token_message role box_id))"

definition authorised :: "mac_lib \<Rightarrow> string \<Rightarrow> string \<Rightarrow> string \<Rightarrow> string \<Rightarrow> bool" where
  "authorised lib master role box_id token =
     (case hex_decode lib token of
        None \<Rightarrow> False
      | Some bytes \<Rightarrow>
          let key = (if role = ''agent''
                     then (case split_once box_id ''~'' of
                             Some (parent, _) \<Rightarrow> scoped_token lib master ''snapshot'' parent
                           | None \<Rightarrow> master)
                     else master)
          in hmac lib key (token_message role box_id) = bytes)"

text \<open>\<open>i64::saturating_add\<close>.\<close>

definition saturating_add_i64 :: "int \<Rightarrow> int \<Rightarrow> int" where
  "saturating_add_i64 a b = max (- I64_MAX - 1) (min I64_MAX (a + b))"

definition access_authorised :: "mac_lib \<Rightarrow> string \<Rightarrow> string \<Rightarrow> string \<Rightarrow> int \<Rightarrow> bool" where
  "access_authorised lib master box token now =
     (case split_char CHR ''.'' token of
        [version, expiry_text, signature] \<Rightarrow>
          if version \<noteq> ''v2'' then False
          else (case parse_i64 expiry_text of
            None \<Rightarrow> False
          | Some expiry \<Rightarrow>
              if expiry \<le> now \<or> expiry > saturating_add_i64 now 300 then False
              else authorised lib master ''client-expiring'' (box @ ''/'' @ show_int expiry) signature)
      | _ \<Rightarrow> False)"

definition authorised_connection ::
  "mac_lib \<Rightarrow> int \<Rightarrow> string \<Rightarrow> string \<Rightarrow> string \<Rightarrow> string \<Rightarrow> bool" where
  "authorised_connection lib now master role box token =
     (if role = ''client'' \<and> starts_with token ''v2.''
      then access_authorised lib master box token now
      else authorised lib master role box token)"

section \<open>The relay's entry checks\<close>

definition bearer :: "string option \<Rightarrow> string" where
  "bearer header =
     (case header of
        None \<Rightarrow> []
      | Some v \<Rightarrow> (case strip_prefix v ''Bearer '' of Some t \<Rightarrow> t | None \<Rightarrow> []))"

definition admitted :: "mac_lib \<Rightarrow> int \<Rightarrow> string \<Rightarrow> string \<Rightarrow> string \<Rightarrow> string option \<Rightarrow> bool" where
  "admitted lib now key role box_id header \<longleftrightarrow>
     role \<in> {''agent'', ''client''} \<and> valid_route box_id
     \<and> authorised_connection lib now key role box_id (bearer header)"

definition check :: "mac_lib \<Rightarrow> int \<Rightarrow> string \<Rightarrow> string \<Rightarrow> string \<Rightarrow> string option \<Rightarrow> nat" where
  "check lib now key role box_id header = (if admitted lib now key role box_id header then 204 else 401)"

definition websocket_url :: "url_lib \<Rightarrow> string \<Rightarrow> string \<Rightarrow> string \<Rightarrow> (string, string) result" where
  "websocket_url lib origin role box_id =
     (if role \<notin> {''agent'', ''client''} \<or> \<not> valid_route box_id
      then Inl ''invalid relay role or box ID''
      else and_then (ok_or ''parse relay URL'' (url_parse lib origin)) (\<lambda>url.
           and_then (if u_scheme url \<in> {''https'', ''wss''} then Inr ''wss''
                     else if u_scheme url \<in> {''http'', ''ws''} then Inr ''ws''
                     else Inl ''relay URL must use http, https, ws, or wss'') (\<lambda>scheme.
           if u_host url = None \<or> u_username url \<noteq> [] \<or> u_password url \<noteq> None
              \<or> u_query url \<noteq> None \<or> u_fragment url \<noteq> None \<or> u_path url \<notin> {'''', ''/''}
           then Inl ''relay URL must be an origin without credentials, path, query, or fragment''
           else Inr (url_text lib (url\<lparr>u_scheme := scheme,
                       u_path := ''/v1/'' @ role @ ''/'' @ box_id\<rparr>)))))"

section \<open>Certificates\<close>

datatype certificate_purpose = ClientCert | ServerCert

datatype san = UriName string | DnsName string

text \<open>What \<open>issue_certificate\<close> puts into a leaf certificate; encoding is the library's.\<close>

record leaf_params =
  lp_not_before :: int
  lp_not_after :: int
  lp_common_name :: string
  lp_alt_names :: "san list"
  lp_purpose :: certificate_purpose

definition issue_certificate :: "int \<Rightarrow> string \<Rightarrow> certificate_purpose \<Rightarrow> leaf_params" where
  "issue_certificate now subject purpose =
     \<lparr>lp_not_before = now - 60,
      lp_not_after = (case purpose of ClientCert \<Rightarrow> now + 5 * 60 | ServerCert \<Rightarrow> now + 365 * 86400),
      lp_common_name = subject,
      lp_alt_names = UriName subject
        # (case strip_prefix subject ''pbox.cwd.dev/box/'' of
             Some box_id \<Rightarrow> [DnsName (''pbox-'' @ box_id)] | None \<Rightarrow> []),
      lp_purpose = purpose\<rparr>"

definition guest_identity :: "int \<Rightarrow> string \<Rightarrow> (crypto_error, leaf_params) result" where
  "guest_identity now box =
     and_then (server_subject box) (\<lambda>subject. Inr (issue_certificate now subject ServerCert))"

section \<open>The access issuer\<close>

record settings =
  st_pve_url :: string
  st_boxes :: "(string \<times> nat) list"

fun distinct_bindings :: "nat list \<Rightarrow> (string \<times> nat) list \<Rightarrow> bool" where
  "distinct_bindings seen [] = True"
| "distinct_bindings seen ((box, vmid) # rest) =
     (if valid_box_id box \<and> vmid > 0 \<and> vmid \<notin> set seen
      then distinct_bindings (vmid # seen) rest else False)"

definition settings_validate :: "url_lib \<Rightarrow> settings \<Rightarrow> (string, unit) result" where
  "settings_validate lib s =
     and_then (ok_or ''parse'' (url_parse lib (st_pve_url s))) (\<lambda>url.
     and_then (ensure (u_scheme url = ''https'' \<and> u_host url \<noteq> None
          \<and> u_username url = [] \<and> u_password url = None \<and> u_query url = None
          \<and> u_fragment url = None \<and> u_path url \<in> {'''', ''/''})
        ''pve_url must be a trusted HTTPS origin'') (\<lambda>_.
     ensure (distinct_bindings [] (st_boxes s)) ''invalid or duplicate box binding''))"

definition validate_authority :: "string \<Rightarrow> string \<Rightarrow> (string, unit) result" where
  "validate_authority master authority =
     and_then (ensure (length authority \<ge> 32) ''authority key is too short'') (\<lambda>_.
     ensure (authority \<noteq> master) ''authority key must differ from the relay key'')"

definition access_router :: "url_lib \<Rightarrow> settings \<Rightarrow> string \<Rightarrow> string \<Rightarrow> (string, unit) result" where
  "access_router lib s master authority =
     and_then (settings_validate lib s) (\<lambda>_.
     and_then (ensure (length master \<ge> 32) ''relay key is too short'') (\<lambda>_.
     validate_authority master authority))"

record resource =
  rs_vmid :: "nat option"
  rs_kind :: string

text \<open>What the issuer sees of the Proxmox API: no answer, or a status and decoded resources.\<close>

datatype pve_answer = SendFailed | Answer nat "resource list option"

record credentials =
  cr_identity :: leaf_params
  cr_relay_token :: string
  cr_expires_at :: int

datatype issue_response = Status nat | Issued credentials

text \<open>
  The certificate and the token read the clock one after the other. \<open>None\<close> stands for
  a failed key or certificate operation.
\<close>

definition issue_credentials ::
  "mac_lib \<Rightarrow> bool \<Rightarrow> int \<Rightarrow> int \<Rightarrow> string \<Rightarrow> string \<Rightarrow> credentials option" where
  "issue_credentials lib crypto_ok cert_now now master box =
     (if \<not> crypto_ok then None
      else let identity = issue_certificate cert_now ''pbox.cwd.dev/pve-visible'' ClientCert;
               expires_at = now + 300;
               signature = scoped_token lib master ''client-expiring'' (box @ ''/'' @ show_int expires_at)
           in Some \<lparr>cr_identity = identity,
                    cr_relay_token = ''v2.'' @ show_int expires_at @ ''.'' @ signature,
                    cr_expires_at = expires_at\<rparr>)"

definition issue ::
  "mac_lib \<Rightarrow> settings \<Rightarrow> string \<Rightarrow> nat \<Rightarrow> (string \<Rightarrow> pve_answer) \<Rightarrow> bool \<Rightarrow> int \<Rightarrow> int
     \<Rightarrow> string \<Rightarrow> string option \<Rightarrow> issue_response" where
  "issue lib s master free_slots pve crypto_ok cert_now now box authorization =
     (case map_of (st_boxes s) box of
        None \<Rightarrow> Status 403
      | Some vmid \<Rightarrow>
          (case authorization of
             None \<Rightarrow> Status 401
           | Some auth \<Rightarrow>
               if \<not> starts_with auth ''PVEAPIToken='' then Status 401
               else if free_slots = 0 then Status 503
               else (case pve auth of
                 SendFailed \<Rightarrow> Status 502
               | Answer status body \<Rightarrow>
                   if 200 \<le> status \<and> status < 300
                   then (case body of
                     None \<Rightarrow> Status 502
                   | Some resources \<Rightarrow>
                       if \<not> list_ex (\<lambda>r. rs_vmid r = Some vmid \<and> rs_kind r \<in> {''lxc'', ''qemu''}) resources
                       then Status 403
                       else (case issue_credentials lib crypto_ok cert_now now master box of
                         Some c \<Rightarrow> Issued c
                       | None \<Rightarrow> Status 500))
                   else if status \<in> {401, 403} then Status 403
                   else Status 502)))"

section \<open>Assumptions on the library\<close>

text \<open>
  Hexadecimal text decodes to what was encoded, is made of hexadecimal digits, and nothing
  else decodes. \<open>no_collisions\<close> idealises HMAC: tags of different keys or messages
  differ.
\<close>

definition is_hex :: "char \<Rightarrow> bool" where
  "is_hex c \<longleftrightarrow> is_digit c \<or> (97 \<le> byte c \<and> byte c \<le> 102) \<or> (65 \<le> byte c \<and> byte c \<le> 70)"

definition hex_laws :: "mac_lib \<Rightarrow> bool" where
  "hex_laws lib \<longleftrightarrow>
     (\<forall>b. hex_decode lib (hex_encode lib b) = Some b \<and> list_all is_hex (hex_encode lib b))
     \<and> (\<forall>s b. hex_decode lib s = Some b \<longrightarrow> list_all is_hex s)"

definition no_collisions :: "mac_lib \<Rightarrow> bool" where
  "no_collisions lib \<longleftrightarrow> (\<forall>k m k' m'. hmac lib k m = hmac lib k' m' \<longrightarrow> k = k' \<and> m = m')"

lemma hex_decode_encode: "hex_laws lib \<Longrightarrow> hex_decode lib (hex_encode lib b) = Some b"
  unfolding hex_laws_def by blast

lemma hex_encode_chars: "hex_laws lib \<Longrightarrow> list_all is_hex (hex_encode lib b)"
  unfolding hex_laws_def by blast

lemma hex_decode_chars: "hex_laws lib \<Longrightarrow> hex_decode lib s = Some b \<Longrightarrow> list_all is_hex s"
  unfolding hex_laws_def by blast

lemma token_message_inject:
  assumes "CHR ''/'' \<notin> set r" and "CHR ''/'' \<notin> set r'"
  shows "token_message r b = token_message r' b' \<longleftrightarrow> r = r' \<and> b = b'"
proof
  assume "token_message r b = token_message r' b'"
  then have e: "r @ CHR ''/'' # b = r' @ CHR ''/'' # b'" by (simp add: token_message_def)
  then have "split_char CHR ''/'' (r @ CHR ''/'' # b) = split_char CHR ''/'' (r' @ CHR ''/'' # b')"
    by simp
  with assms have "r = r'" by (simp add: split_char_append)
  with e show "r = r' \<and> b = b'" by simp
qed simp

lemma hmac_inject:
  "no_collisions lib \<Longrightarrow> hmac lib k m = hmac lib k' m' \<longleftrightarrow> k = k' \<and> m = m'"
  unfolding no_collisions_def by blast

lemma hex_encode_inject: "hex_laws lib \<Longrightarrow> hex_encode lib a = hex_encode lib b \<longleftrightarrow> a = b"
  using hex_decode_encode by (metis option.inject)

lemma scoped_token_inject:
  assumes "hex_laws lib" "no_collisions lib" "CHR ''/'' \<notin> set r" "CHR ''/'' \<notin> set r'"
  shows "scoped_token lib k r b = scoped_token lib k' r' b' \<longleftrightarrow> k = k' \<and> r = r' \<and> b = b'"
  by (simp only: scoped_token_def hex_encode_inject[OF assms(1)] hmac_inject[OF assms(2)]
      token_message_inject[OF assms(3,4)])

text \<open>The key a token must have been made with.\<close>

definition token_key :: "mac_lib \<Rightarrow> string \<Rightarrow> string \<Rightarrow> string \<Rightarrow> string" where
  "token_key lib master role box_id =
     (if role = ''agent''
      then (case split_once box_id ''~'' of
              Some (parent, _) \<Rightarrow> scoped_token lib master ''snapshot'' parent | None \<Rightarrow> master)
      else master)"

lemma authorised_key:
  "authorised lib master role b t
     \<longleftrightarrow> hex_decode lib t = Some (hmac lib (token_key lib master role b) (token_message role b))"
  by (auto simp: authorised_def token_key_def split: option.splits)

lemma authorised_scoped:
  assumes "hex_laws lib" "no_collisions lib" "CHR ''/'' \<notin> set r" "CHR ''/'' \<notin> set r'"
  shows "authorised lib master r b (scoped_token lib k r' b')
    \<longleftrightarrow> k = token_key lib master r b \<and> r = r' \<and> b = b'"
proof -
  have "hex_decode lib (scoped_token lib k r' b') = Some (hmac lib k (token_message r' b'))"
    by (simp add: scoped_token_def hex_decode_encode[OF assms(1)])
  then have "authorised lib master r b (scoped_token lib k r' b')
      \<longleftrightarrow> hmac lib k (token_message r' b') = hmac lib (token_key lib master r b) (token_message r b)"
    by (auto simp: authorised_key)
  also have "\<dots> \<longleftrightarrow> k = token_key lib master r b \<and> r = r' \<and> b = b'"
    unfolding hmac_inject[OF assms(2)] token_message_inject[OF assms(4,3)] by auto
  finally show ?thesis .
qed

section \<open>A symbolic instance\<close>

text \<open>
  A tag that carries its key and message, and real hexadecimal: the assumptions hold for it,
  so they can hold together.
\<close>

definition hex_lower :: "nat \<Rightarrow> char" where
  "hex_lower d = (if d < 10 then char_of (48 + d) else char_of (87 + d))"

definition hex_val :: "char \<Rightarrow> nat" where
  "hex_val c = (if is_digit c then byte c - 48 else if byte c < 97 then byte c - 55 else byte c - 87)"

fun hex_read :: "string \<Rightarrow> string option" where
  "hex_read [] = Some []"
| "hex_read [c] = None"
| "hex_read (a # b # s) =
     (if is_hex a \<and> is_hex b
      then map_option ((#) (char_of (16 * hex_val a + hex_val b))) (hex_read s) else None)"

definition symbolic_lib :: mac_lib where
  "symbolic_lib =
     \<lparr>hmac = (\<lambda>k m. show_nat (length k) @ CHR '':'' # k @ m),
      hex_encode = (\<lambda>s. concat (map (\<lambda>c. [hex_lower (byte c div 16), hex_lower (byte c mod 16)]) s)),
      hex_decode = hex_read\<rparr>"

lemma hex_lower_val: "d < 16 \<Longrightarrow> is_hex (hex_lower d) \<and> hex_val (hex_lower d) = d"
  by (auto simp: hex_lower_def hex_val_def is_hex_def is_digit_def)

lemma byte_halves: "byte c div 16 < 16" "byte c mod 16 < 16"
  using byte_less[of c] by (arith, simp)

lemma hex_read_encode:
  "hex_read (concat (map (\<lambda>c. [hex_lower (byte c div 16), hex_lower (byte c mod 16)]) s)) = Some s"
  by (induction s) (simp_all add: hex_lower_val byte_halves)

lemma hex_read_chars: "hex_read s = Some b \<Longrightarrow> list_all is_hex s"
  by (induction s arbitrary: b rule: hex_read.induct) (auto split: if_splits)

lemma symbolic_hex_laws: "hex_laws symbolic_lib"
  unfolding hex_laws_def symbolic_lib_def
  using hex_read_chars by (auto simp: hex_read_encode list_all_iff hex_lower_val byte_halves)

lemma show_nat_colon: "CHR '':'' \<notin> set (show_nat n)"
  using show_nat_digit_in[of "CHR '':''" n] by (auto simp: char_class_defs)

lemma symbolic_no_collisions: "no_collisions symbolic_lib"
  unfolding no_collisions_def
proof (intro allI impI)
  fix k m k' m'
  assume "hmac symbolic_lib k m = hmac symbolic_lib k' m'"
  then have e: "show_nat (length k) @ CHR '':'' # k @ m = show_nat (length k') @ CHR '':'' # k' @ m'"
    by (simp add: symbolic_lib_def)
  then have "split_once (show_nat (length k) @ CHR '':'' # k @ m) '':''
      = split_once (show_nat (length k') @ CHR '':'' # k' @ m') '':''" by simp
  then have "length k = length k' \<and> k @ m = k' @ m'"
    by (simp add: split_once_charI show_nat_colon)
  then show "k = k' \<and> m = m'" using append_eq_append_conv by blast
qed

section \<open>Admission\<close>

lemma starts_with_v2_not_hex: "starts_with t ''v2.'' \<Longrightarrow> \<not> list_all is_hex t"
  by (auto simp: starts_with_iff is_hex_def char_class_defs)

lemma hex_no_dot: "list_all is_hex s \<Longrightarrow> CHR ''.'' \<notin> set s"
  by (auto simp: list_all_iff is_hex_def char_class_defs)

lemma show_int_no_dot: "0 \<le> i \<Longrightarrow> CHR ''.'' \<notin> set (show_int i)"
  using show_nat_digit_in[of "CHR ''.''" "nat i"] by (auto simp: show_int_def char_class_defs)

lemma issued_token_split:
  assumes "hex_laws lib" and "0 \<le> e"
  shows "split_char CHR ''.'' (''v2.'' @ show_int e @ ''.'' @ scoped_token lib k r b)
    = [''v2'', show_int e, scoped_token lib k r b]"
proof -
  have "CHR ''.'' \<notin> set (scoped_token lib k r b)"
    by (simp add: scoped_token_def hex_no_dot[OF hex_encode_chars[OF assms(1)]])
  then show ?thesis
    using split_char_append[of "CHR ''.''" "''v2''" "show_int e @ ''.'' @ scoped_token lib k r b"]
      split_char_append[of "CHR ''.''" "show_int e" "scoped_token lib k r b"]
      show_int_no_dot[OF assms(2)]
    by (simp add: split_char_no_sep)
qed





section \<open>Issuing\<close>

lemma distinct_bindings_vmids:
  "distinct_bindings seen bs \<Longrightarrow> distinct (map snd bs) \<and> set (map snd bs) \<inter> set seen = {}"
  by (induction seen bs rule: distinct_bindings.induct) (auto split: if_splits)

lemma distinct_bindings_valid:
  "distinct_bindings seen bs \<Longrightarrow> (b, v) \<in> set bs \<Longrightarrow> valid_box_id b \<and> 0 < v"
  by (induction seen bs rule: distinct_bindings.induct) (auto split: if_splits)

lemma issue_Issued:
  "issue lib s master slots pve ok ct now box hdr = Issued c \<longleftrightarrow>
     (\<exists>vmid auth status resources.
        map_of (st_boxes s) box = Some vmid \<and> hdr = Some auth \<and> starts_with auth ''PVEAPIToken=''
        \<and> slots \<noteq> 0 \<and> pve auth = Answer status (Some resources) \<and> 200 \<le> status \<and> status < 300
        \<and> list_ex (\<lambda>r. rs_vmid r = Some vmid \<and> rs_kind r \<in> {''lxc'', ''qemu''}) resources
        \<and> issue_credentials lib ok ct now master box = Some c)"
  by (auto simp: issue_def split: option.splits if_splits pve_answer.splits)

text \<open>
  Under validated settings a credential is proof of visibility. It is issued only to a
  caller whose own PVE token, as sent, was answered with success and a container or machine
  with the VMID of the box; so a caller who sees a single VMID can get credentials of one
  box only, whichever boxes it asks for.
\<close>

theorem issue_requires_visibility:
  assumes "settings_validate ulib s = Inr ()"
    and "issue lib s master slots pve ok ct now box (Some auth) = Issued c"
    and "issue lib s master slots' pve ok' ct' now' box' (Some auth) = Issued c'"
    and "\<And>status resources r. pve auth = Answer status (Some resources) \<Longrightarrow> r \<in> set resources
           \<Longrightarrow> rs_vmid r = Some v"
  shows "box' = box \<and> valid_box_id box \<and> map_of (st_boxes s) box = Some v
    \<and> starts_with auth ''PVEAPIToken='' \<and> slots \<noteq> 0"
proof -
  have d: "distinct_bindings [] (st_boxes s)"
    using assms(1) by (auto simp: settings_validate_def res_simps)
  have vm: "map_of (st_boxes s) b = Some v"
    if "issue lib s master sl pve k t n b (Some auth) = Issued x" for sl k t n b x
    using that assms(4) unfolding issue_Issued list_ex_iff by fastforce
  note v = vm[OF assms(2)] vm[OF assms(3)]
  have "box' = box"
    using distinct_bindings_vmids[OF d] v[THEN map_of_SomeD]
    unfolding distinct_map by (metis inj_onD prod.inject snd_conv)
  moreover have "valid_box_id box"
    using distinct_bindings_valid[OF d map_of_SomeD[OF v(1)]] by blast
  ultimately show ?thesis
    using assms(2) v unfolding issue_Issued by auto
qed

definition one_box :: settings where
  "one_box = \<lparr>st_pve_url = ''https://pve/'', st_boxes = [(''pbx_12345678'', 9002), (''pbx_abcdefgh'', 9003)]\<rparr>"

definition origin_lib :: url_lib where
  "origin_lib = \<lparr>url_parse = (\<lambda>v. if v = ''https://pve/''
       then Some \<lparr>u_scheme = ''https'', u_username = [], u_password = None, u_host = Some ''pve'',
                  u_path = ''/'', u_query = None, u_fragment = None\<rparr> else None),
     url_text = u_scheme\<rparr>"

definition sees_9002 :: "string \<Rightarrow> pve_answer" where
  "sees_9002 auth = (if auth = ''PVEAPIToken=a''
     then Answer 200 (Some [\<lparr>rs_vmid = Some 9002, rs_kind = ''lxc''\<rparr>]) else Answer 401 None)"

theorem issue_requires_visibility_witness:
  "\<exists>c. issue symbolic_lib one_box ''m'' 1 sees_9002 True 5 5 ''pbx_12345678'' (Some ''PVEAPIToken=a'')
        = Issued c
     \<and> map_of (st_boxes one_box) ''pbx_12345678'' = Some 9002"
proof -
  have val: "settings_validate origin_lib one_box = Inr ()"
  proof -
    have "valid_box_id ''pbx_12345678''" "valid_box_id ''pbx_abcdefgh''" by code_simp+
    then show ?thesis
      by (simp add: settings_validate_def one_box_def origin_lib_def ensure_def)
  qed
  obtain c where c: "issue symbolic_lib one_box ''m'' 1 sees_9002 True 5 5 ''pbx_12345678''
      (Some ''PVEAPIToken=a'') = Issued c"
    by (simp add: issue_def one_box_def sees_9002_def starts_with_def issue_credentials_def Let_def)
  from issue_requires_visibility[OF val c c, where v = 9002] c show ?thesis
    by (auto simp: sees_9002_def split: if_splits)
qed

text \<open>
  Certificates fit the tokens and the names they go with. A client certificate expires
  no later than the token issued with it, and a guest certificate exists exactly for valid
  box ids, lasts a year, and names the DNS name the client expects of that box.
\<close>

theorem certificates_match:
  assumes "issue_credentials lib ok cert_now now master box = Some c" and "cert_now \<le> now"
  shows "lp_not_after (cr_identity c) \<le> cr_expires_at c
    \<and> lp_purpose (cr_identity c) = ClientCert
    \<and> (is_ok (guest_identity t b) \<longleftrightarrow> valid_box_id b)
    \<and> (guest_identity t b = Inr p \<longleftrightarrow>
         valid_box_id b \<and> lp_alt_names p = [UriName (''pbox.cwd.dev/box/'' @ b),
           DnsName (case server_dns_name b of Inr d \<Rightarrow> d | Inl _ \<Rightarrow> [])]
         \<and> lp_not_before p = t - 60 \<and> lp_not_after p = t + 365 * 86400
         \<and> lp_common_name p = ''pbox.cwd.dev/box/'' @ b \<and> lp_purpose p = ServerCert)"
proof -
  let ?subject = "''pbox.cwd.dev/box/'' @ b"
  let ?leaf = "\<lparr>lp_not_before = t - 60, lp_not_after = t + 365 * 86400, lp_common_name = ?subject,
    lp_alt_names = [UriName ?subject, DnsName (''pbox-'' @ b)], lp_purpose = ServerCert\<rparr>"
  have strip: "strip_prefix ?subject ''pbox.cwd.dev/box/'' = Some b"
    by (rule strip_prefix_append)
  have leaf: "issue_certificate t ?subject ServerCert = ?leaf"
    unfolding issue_certificate_def strip by simp
  have bad: "guest_identity t b = Inl (InvalidBoxId b)" if "\<not> valid_box_id b"
    using that by (auto simp: guest_identity_def server_subject_def valid_box_id_def is_id_byte_def
        list_all_iff)
  have good: "guest_identity t b = Inr ?leaf \<and> server_dns_name b = Inr (''pbox-'' @ b)"
    if "valid_box_id b"
  proof -
    have "server_subject b = Inr ?subject" using that unfolding server_subject_iff by blast
    then show ?thesis unfolding guest_identity_def server_dns_name_def
      by (simp only: and_then_simps leaf)
  qed
  have "p = ?leaf \<longleftrightarrow> lp_alt_names p = [UriName ?subject, DnsName (''pbox-'' @ b)]
      \<and> lp_not_before p = t - 60 \<and> lp_not_after p = t + 365 * 86400
      \<and> lp_common_name p = ?subject \<and> lp_purpose p = ServerCert"
    by (cases p) (auto simp only: leaf_params.simps)
  then have guest: "(is_ok (guest_identity t b) \<longleftrightarrow> valid_box_id b)
      \<and> (guest_identity t b = Inr p \<longleftrightarrow> valid_box_id b
          \<and> lp_alt_names p = [UriName ?subject,
               DnsName (case server_dns_name b of Inr d \<Rightarrow> d | Inl _ \<Rightarrow> [])]
          \<and> lp_not_before p = t - 60 \<and> lp_not_after p = t + 365 * 86400
          \<and> lp_common_name p = ?subject \<and> lp_purpose p = ServerCert)"
    using bad good by (cases "valid_box_id b") auto
  have "lp_not_after (cr_identity c) \<le> cr_expires_at c \<and> lp_purpose (cr_identity c) = ClientCert"
    using assms by (auto simp: issue_credentials_def Let_def issue_certificate_def split: if_splits)
  with guest show ?thesis by blast
qed

theorem certificates_match_witness:
  "lp_not_after (cr_identity (the (issue_credentials symbolic_lib True 9 10 ''m'' ''pbx_12345678'')))
     \<le> 310 \<and> is_ok (guest_identity 0 ''pbx_12345678'')"
proof -
  obtain c where c: "issue_credentials symbolic_lib True 9 10 ''m'' ''pbx_12345678'' = Some c"
    and e: "cr_expires_at c = 310"
    by (simp add: issue_credentials_def Let_def)
  have "valid_box_id ''pbx_12345678''" by code_simp
  then show ?thesis using certificates_match[OF c, of 0 "''pbx_12345678''"] c e by simp
qed

end
