(* ===== verification/RelayServer.thy ===== *)
theory RelayServer
  imports RelayAuth
begin

text \<open>
  \<open>crates/pbox-relay/src/server.rs\<close>: the shared state of the relay and the handlers
  that run on it in any order, one event for each of their atomic parts (between two awaits
  or lock acquisitions). An agent's request registers a waiting socket under its box; a
  client's request takes it; permits of two semaphores bound both. Generations are a
  64-bit counter in the source; the model does not let it wrap.
\<close>

section \<open>State\<close>

text \<open>
  A connection of an agent, from its accepted request to the end of its handler.
  \<open>Failed\<close> and \<open>Closing\<close> still have their \<open>remove_waiter\<close> to run; a failed
  upgrade has already given its permit back. \<open>ac_client\<close> is the client socket sent
  through the oneshot channel, with the box the client asked for.
\<close>

datatype agent_phase = Upgrading | Waiting | Forwarding | Closing | Failed

record agent_conn =
  ac_box :: string
  ac_phase :: agent_phase
  ac_client :: "(nat \<times> string) option"

text \<open>A client's request: looking for a waiting agent, or holding the sender it took.\<close>

datatype client_phase = Seeking | Taken nat

record client_conn =
  cc_box :: string
  cc_phase :: client_phase

record relay =
  ry_waiting :: "string \<rightharpoonup> nat"
  ry_slots :: nat
  ry_clients :: nat
  ry_next :: nat
  ry_agents :: "nat \<rightharpoonup> agent_conn"
  ry_pending :: "nat \<rightharpoonup> client_conn"

definition relay_new :: "string \<Rightarrow> nat \<Rightarrow> (string, relay) result" where
  "relay_new key max_connections =
     and_then (ensure (length key \<ge> 32) ''relay key must contain at least 32 characters'') (\<lambda>_.
     and_then (ensure (max_connections > 0) ''max-connections must be greater than zero'') (\<lambda>_.
     Inr \<lparr>ry_waiting = Map.empty, ry_slots = max_connections, ry_clients = max_connections,
          ry_next = 0, ry_agents = Map.empty, ry_pending = Map.empty\<rparr>))"

section \<open>Handlers\<close>

definition remove_waiter :: "string \<Rightarrow> nat \<Rightarrow> relay \<Rightarrow> relay" where
  "remove_waiter box generation s =
     (if ry_waiting s box = Some generation
      then s\<lparr>ry_waiting := (ry_waiting s)(box := None)\<rparr> else s)"

datatype relay_event =
    AgentArrives bool string
  | AgentUpgraded nat
  | AgentUpgradeFails nat
  | FailedCleanup nat
  | AgentReady nat
  | AgentEnds nat
  | AgentCleanup nat
  | ClientArrives nat bool string
  | ClientTakes nat
  | ClientTimesOut nat
  | ClientUpgraded nat
  | ClientUpgradeFails nat

datatype reply = Quiet | Reply nat | Upgrade

definition set_phase :: "nat \<Rightarrow> agent_conn \<Rightarrow> agent_phase \<Rightarrow> relay \<Rightarrow> relay" where
  "set_phase g a phase s = s\<lparr>ry_agents := (ry_agents s)(g \<mapsto> a\<lparr>ac_phase := phase\<rparr>)\<rparr>"

definition release_slot :: "relay \<Rightarrow> relay" where
  "release_slot s = s\<lparr>ry_slots := ry_slots s + 1\<rparr>"

definition drop_client :: "nat \<Rightarrow> relay \<Rightarrow> relay" where
  "drop_client c s = s\<lparr>ry_pending := (ry_pending s)(c := None), ry_clients := ry_clients s + 1\<rparr>"

text \<open>The socket goes through the channel when the receiving task still has its end.\<close>

definition send_socket :: "nat \<Rightarrow> nat \<Rightarrow> string \<Rightarrow> relay \<Rightarrow> relay" where
  "send_socket g c box s =
     (case ry_agents s g of
        Some a \<Rightarrow>
          if ac_phase a \<in> {Upgrading, Waiting}
          then s\<lparr>ry_agents := (ry_agents s)(g \<mapsto> a\<lparr>ac_client := Some (c, box)\<rparr>)\<rparr> else s
      | None \<Rightarrow> s)"

definition agent_arrives :: "bool \<Rightarrow> string \<Rightarrow> relay \<Rightarrow> reply \<times> relay" where
  "agent_arrives admitted_ok box s =
     (if \<not> admitted_ok then (Reply 401, s)
      else if ry_slots s = 0 then (Reply 503, s)
      else let generation = ry_next s;
               s = s\<lparr>ry_slots := ry_slots s - 1, ry_next := ry_next s + 1\<rparr>
           in if ry_waiting s box \<noteq> None then (Reply 409, release_slot s)
              else (Upgrade, s\<lparr>ry_waiting := (ry_waiting s)(box \<mapsto> generation),
                      ry_agents := (ry_agents s)(generation \<mapsto>
                        \<lparr>ac_box = box, ac_phase = Upgrading, ac_client = None\<rparr>)\<rparr>))"

definition client_arrives :: "nat \<Rightarrow> bool \<Rightarrow> string \<Rightarrow> relay \<Rightarrow> reply \<times> relay" where
  "client_arrives c admitted_ok box s =
     (if \<not> admitted_ok then (Reply 401, s)
      else if ry_clients s = 0 then (Reply 503, s)
      else (Quiet, s\<lparr>ry_clients := ry_clients s - 1,
              ry_pending := (ry_pending s)(c \<mapsto> \<lparr>cc_box = box, cc_phase = Seeking\<rparr>)\<rparr>))"

definition client_takes :: "nat \<Rightarrow> client_conn \<Rightarrow> relay \<Rightarrow> (reply \<times> relay) option" where
  "client_takes c k s =
     (case ry_waiting s (cc_box k) of
        None \<Rightarrow> None
      | Some g \<Rightarrow> Some (Upgrade, s\<lparr>ry_waiting := (ry_waiting s)(cc_box k := None),
            ry_pending := (ry_pending s)(c \<mapsto> k\<lparr>cc_phase := Taken g\<rparr>)\<rparr>))"

text \<open>\<open>None\<close>: the event cannot happen in this state.\<close>

fun relay_step :: "relay_event \<Rightarrow> relay \<Rightarrow> (reply \<times> relay) option" where
  "relay_step (AgentArrives ok box) s = Some (agent_arrives ok box s)"
| "relay_step (ClientArrives c ok box) s =
     (if ry_pending s c = None then Some (client_arrives c ok box s) else None)"
| "relay_step (AgentUpgraded g) s =
     (case ry_agents s g of
        Some a \<Rightarrow> if ac_phase a = Upgrading then Some (Quiet, set_phase g a Waiting s) else None
      | None \<Rightarrow> None)"
| "relay_step (AgentUpgradeFails g) s =
     (case ry_agents s g of
        Some a \<Rightarrow> if ac_phase a = Upgrading
                  then Some (Quiet, release_slot (set_phase g a Failed s)) else None
      | None \<Rightarrow> None)"
| "relay_step (FailedCleanup g) s =
     (case ry_agents s g of
        Some a \<Rightarrow> if ac_phase a = Failed
                  then (let s = remove_waiter (ac_box a) g s
                        in Some (Quiet, s\<lparr>ry_agents := (ry_agents s)(g := None)\<rparr>)) else None
      | None \<Rightarrow> None)"
| "relay_step (AgentReady g) s =
     (case ry_agents s g of
        Some a \<Rightarrow> if ac_phase a = Waiting \<and> ac_client a \<noteq> None
                  then Some (Quiet, set_phase g a Forwarding s) else None
      | None \<Rightarrow> None)"
| "relay_step (AgentEnds g) s =
     (case ry_agents s g of
        Some a \<Rightarrow> if ac_phase a \<in> {Waiting, Forwarding}
                  then Some (Quiet, set_phase g a Closing s) else None
      | None \<Rightarrow> None)"
| "relay_step (AgentCleanup g) s =
     (case ry_agents s g of
        Some a \<Rightarrow> if ac_phase a = Closing
                  then (let s = remove_waiter (ac_box a) g s
                        in Some (Quiet, release_slot (s\<lparr>ry_agents := (ry_agents s)(g := None)\<rparr>)))
                  else None
      | None \<Rightarrow> None)"
| "relay_step (ClientTakes c) s =
     (case ry_pending s c of
        Some k \<Rightarrow> if cc_phase k = Seeking then client_takes c k s else None
      | None \<Rightarrow> None)"
| "relay_step (ClientTimesOut c) s =
     (case ry_pending s c of
        Some k \<Rightarrow> if cc_phase k = Seeking then Some (Reply 503, drop_client c s) else None
      | None \<Rightarrow> None)"
| "relay_step (ClientUpgraded c) s =
     (case ry_pending s c of
        Some k \<Rightarrow> (case cc_phase k of
            Taken g \<Rightarrow> Some (Quiet, drop_client c (send_socket g c (cc_box k) s))
          | Seeking \<Rightarrow> None)
      | None \<Rightarrow> None)"
| "relay_step (ClientUpgradeFails c) s =
     (case ry_pending s c of
        Some k \<Rightarrow> (case cc_phase k of
            Taken g \<Rightarrow> Some (Quiet, drop_client c s)
          | Seeking \<Rightarrow> None)
      | None \<Rightarrow> None)"

section \<open>Invariant\<close>

definition permit_holders :: "(nat \<rightharpoonup> agent_conn) \<Rightarrow> nat set" where
  "permit_holders agents = {g. \<exists>a. agents g = Some a \<and> ac_phase a \<noteq> Failed}"

definition permits_inv :: "nat \<Rightarrow> relay \<Rightarrow> bool" where
  "permits_inv limit s \<longleftrightarrow>
     finite (dom (ry_agents s)) \<and> finite (dom (ry_pending s))
     \<and> ry_slots s + card (permit_holders (ry_agents s)) = limit
     \<and> ry_clients s + card (dom (ry_pending s)) = limit"

text \<open>A connection whose sender nobody has used.\<close>

definition unclaimed :: "string \<Rightarrow> agent_conn \<Rightarrow> bool" where
  "unclaimed box a \<longleftrightarrow> ac_box a = box \<and> ac_client a = None \<and> ac_phase a \<noteq> Forwarding"

definition routing_inv :: "relay \<Rightarrow> bool" where
  "routing_inv s \<longleftrightarrow>
     (\<forall>g a. ry_agents s g = Some a \<longrightarrow> g < ry_next s
        \<and> (ac_phase a = Forwarding \<longrightarrow> ac_client a \<noteq> None)
        \<and> (\<forall>c b. ac_client a = Some (c, b) \<longrightarrow> b = ac_box a))
     \<and> (\<forall>box g. ry_waiting s box = Some g \<longrightarrow> (\<exists>a. ry_agents s g = Some a \<and> unclaimed box a))
     \<and> (\<forall>c k g. ry_pending s c = Some k \<longrightarrow> cc_phase k = Taken g \<longrightarrow>
          g < ry_next s \<and> (\<forall>box. ry_waiting s box \<noteq> Some g)
          \<and> (\<forall>a. ry_agents s g = Some a \<longrightarrow> unclaimed (cc_box k) a))
     \<and> (\<forall>c k c' k' g. ry_pending s c = Some k \<longrightarrow> ry_pending s c' = Some k' \<longrightarrow>
          cc_phase k = Taken g \<longrightarrow> cc_phase k' = Taken g \<longrightarrow> c = c')"

definition relay_inv :: "nat \<Rightarrow> relay \<Rightarrow> bool" where
  "relay_inv limit s \<longleftrightarrow> permits_inv limit s \<and> routing_inv s"

definition relay_rel :: "relay_event \<Rightarrow> relay \<Rightarrow> relay \<Rightarrow> bool" where
  "relay_rel e s t \<longleftrightarrow> (\<exists>r. relay_step e s = Some (r, t))"

lemma permit_holders_upd:
  "permit_holders (m(g := x)) =
     (case x of
        Some a \<Rightarrow> if ac_phase a \<noteq> Failed then insert g (permit_holders m) else permit_holders m - {g}
      | None \<Rightarrow> permit_holders m - {g})"
  by (auto simp: permit_holders_def split: option.splits)

lemma permit_holders_finite [simp]: "finite (dom m) \<Longrightarrow> finite (permit_holders m)"
  by (rule finite_subset[of _ "dom m"]) (auto simp: permit_holders_def)

lemma permit_holders_iff:
  "g \<in> permit_holders m \<longleftrightarrow> (\<exists>a. m g = Some a \<and> ac_phase a \<noteq> Failed)"
  by (simp add: permit_holders_def)

lemma card_remove_Suc: "finite A \<Longrightarrow> x \<in> A \<Longrightarrow> Suc (card (A - {x})) = card A"
  by (metis card_Suc_Diff1)

lemmas step_defs = agent_arrives_def client_arrives_def client_takes_def set_phase_def
  release_slot_def drop_client_def send_socket_def remove_waiter_def Let_def

lemma dom_in: "m g = Some a \<Longrightarrow> g \<in> dom m"
  by blast

lemma permits_inv_step:
  assumes "relay_step e s = Some (r, t)" and "permits_inv limit s" and "routing_inv s"
  shows "permits_inv limit t"
proof -
  have fin: "finite (permit_holders (ry_agents s))" "finite (dom (ry_pending s))"
    using assms(2) by (auto simp: permits_inv_def)
  have fresh: "ry_next s \<notin> permit_holders (ry_agents s)"
    using assms(3) by (auto simp: routing_inv_def permit_holders_iff)
  show ?thesis
  proof (cases e)
    case (AgentArrives ok box)
    then show ?thesis using assms fin fresh
      by (auto simp: permits_inv_def step_defs permit_holders_upd split: if_splits)
  next
    case (ClientArrives c ok box)
    then show ?thesis using assms fin
      by (auto simp: permits_inv_def step_defs domIff split: if_splits)
  next
    case (AgentUpgraded g)
    then show ?thesis using assms fin
      by (auto simp: permits_inv_def step_defs permit_holders_upd permit_holders_iff insert_absorb
          split: option.splits if_splits)
  next
    case (AgentReady g)
    then show ?thesis using assms fin
      by (auto simp: permits_inv_def step_defs permit_holders_upd permit_holders_iff insert_absorb
          split: option.splits if_splits)
  next
    case (AgentEnds g)
    then show ?thesis using assms fin
      by (auto simp: permits_inv_def step_defs permit_holders_upd permit_holders_iff insert_absorb
          split: option.splits if_splits)
  next
    case (AgentUpgradeFails g)
    then obtain a where "ry_agents s g = Some a" "ac_phase a = Upgrading"
      "t = release_slot (set_phase g a Failed s)"
      using assms(1) by (auto split: option.splits if_splits)
    moreover then have "g \<in> permit_holders (ry_agents s)" by (simp add: permit_holders_iff)
    ultimately show ?thesis using assms(2) card_remove_Suc[OF fin(1), of g]
      by (auto simp: permits_inv_def step_defs permit_holders_upd)
  next
    case (FailedCleanup g)
    then obtain a where "ry_agents s g = Some a" "ac_phase a = Failed"
      "ry_agents t = (ry_agents s)(g := None)" "ry_slots t = ry_slots s" "ry_clients t = ry_clients s"
      "ry_pending t = ry_pending s"
      using assms(1) by (auto simp: step_defs split: option.splits if_splits)
    moreover then have "g \<notin> permit_holders (ry_agents s)" by (simp add: permit_holders_iff)
    ultimately show ?thesis using assms(2)
      by (auto simp: permits_inv_def permit_holders_upd)
  next
    case (AgentCleanup g)
    then obtain a where "ry_agents s g = Some a" "ac_phase a = Closing"
      "ry_agents t = (ry_agents s)(g := None)" "ry_slots t = Suc (ry_slots s)"
      "ry_clients t = ry_clients s" "ry_pending t = ry_pending s"
      using assms(1) by (auto simp: step_defs split: option.splits if_splits)
    moreover then have "g \<in> permit_holders (ry_agents s)" by (simp add: permit_holders_iff)
    ultimately show ?thesis using assms(2) card_remove_Suc[OF fin(1), of g]
      by (auto simp: permits_inv_def permit_holders_upd)
  next
    case (ClientTakes c)
    then show ?thesis using assms
      by (auto simp: permits_inv_def step_defs insert_absorb domI split: option.splits if_splits)
  next
    case (ClientTimesOut c)
    then show ?thesis using assms card_remove_Suc[OF fin(2), of c]
      by (auto simp: permits_inv_def step_defs domI split: option.splits if_splits)
  next
    case (ClientUpgradeFails c)
    then show ?thesis using assms card_remove_Suc[OF fin(2), of c]
      by (auto simp: permits_inv_def step_defs domI split: option.splits client_phase.splits)
  next
    case (ClientUpgraded c)
    then show ?thesis using assms card_remove_Suc[OF fin(2), of c]
      by (auto simp: permits_inv_def step_defs domI permit_holders_upd insert_absorb permit_holders_iff
          split: option.splits client_phase.splits if_splits)
  qed
qed

text \<open>The parts of the routing invariant, as rules.\<close>

lemma routing_invD:
  assumes "routing_inv s"
  shows "ry_agents s g = Some a \<Longrightarrow> g < ry_next s"
    and "ry_agents s g = Some a \<Longrightarrow> ac_phase a = Forwarding \<Longrightarrow> ac_client a \<noteq> None"
    and "ry_agents s g = Some a \<Longrightarrow> ac_client a = Some (c, b) \<Longrightarrow> b = ac_box a"
    and "ry_waiting s box = Some g \<Longrightarrow> \<exists>a. ry_agents s g = Some a \<and> unclaimed box a"
    and "ry_pending s c = Some k \<Longrightarrow> cc_phase k = Taken g \<Longrightarrow> g < ry_next s"
    and "ry_pending s c = Some k \<Longrightarrow> cc_phase k = Taken g \<Longrightarrow> ry_waiting s box \<noteq> Some g"
    and "ry_pending s c = Some k \<Longrightarrow> cc_phase k = Taken g \<Longrightarrow> ry_agents s g = Some a
           \<Longrightarrow> unclaimed (cc_box k) a"
    and "ry_pending s c = Some k \<Longrightarrow> ry_pending s c' = Some k' \<Longrightarrow> cc_phase k = Taken g
           \<Longrightarrow> cc_phase k' = Taken g \<Longrightarrow> c = c'"
  using assms unfolding routing_inv_def by blast+

lemma routing_invI:
  assumes "\<And>g a. ry_agents s g = Some a \<Longrightarrow> g < ry_next s"
    and "\<And>g a. ry_agents s g = Some a \<Longrightarrow> ac_phase a = Forwarding \<Longrightarrow> ac_client a \<noteq> None"
    and "\<And>g a c b. ry_agents s g = Some a \<Longrightarrow> ac_client a = Some (c, b) \<Longrightarrow> b = ac_box a"
    and "\<And>box g. ry_waiting s box = Some g \<Longrightarrow> \<exists>a. ry_agents s g = Some a \<and> unclaimed box a"
    and "\<And>c k g. ry_pending s c = Some k \<Longrightarrow> cc_phase k = Taken g \<Longrightarrow> g < ry_next s"
    and "\<And>c k g box. ry_pending s c = Some k \<Longrightarrow> cc_phase k = Taken g \<Longrightarrow> ry_waiting s box \<noteq> Some g"
    and "\<And>c k g a. ry_pending s c = Some k \<Longrightarrow> cc_phase k = Taken g \<Longrightarrow> ry_agents s g = Some a
           \<Longrightarrow> unclaimed (cc_box k) a"
    and "\<And>c k c' k' g. ry_pending s c = Some k \<Longrightarrow> ry_pending s c' = Some k' \<Longrightarrow> cc_phase k = Taken g
           \<Longrightarrow> cc_phase k' = Taken g \<Longrightarrow> c = c'"
  shows "routing_inv s"
  unfolding routing_inv_def by (intro conjI allI impI; rule assms; assumption)

text \<open>Updating or removing one connection keeps the invariant under these conditions.\<close>

lemma routing_update_agent:
  assumes i: "routing_inv s" and a: "ry_agents s g = Some a"
    and box: "ac_box a' = ac_box a" and client: "ac_client a' = ac_client a"
    and fwd: "ac_phase a' = Forwarding \<longrightarrow> ac_client a \<noteq> None"
    and t: "ry_agents t = (ry_agents s)(g \<mapsto> a')" "ry_waiting t = ry_waiting s"
      "ry_next t = ry_next s" "ry_pending t = ry_pending s"
  shows "routing_inv t"
proof (rule routing_invI, unfold t)
  fix b g' assume "ry_waiting s b = Some g'"
  then show "\<exists>x. ((ry_agents s)(g \<mapsto> a')) g' = Some x \<and> unclaimed b x"
    using routing_invD(4)[OF i] a box client fwd by (fastforce simp: unclaimed_def)
next
  fix c k g' x
  assume "ry_pending s c = Some k" "cc_phase k = Taken g'" "((ry_agents s)(g \<mapsto> a')) g' = Some x"
  then show "unclaimed (cc_box k) x"
    using routing_invD(7)[OF i] a box client fwd by (fastforce simp: unclaimed_def split: if_splits)
next
  fix g' x assume "((ry_agents s)(g \<mapsto> a')) g' = Some x"
  then show "g' < ry_next s" using routing_invD(1)[OF i] a by (auto split: if_splits)
next
  fix g' x assume "((ry_agents s)(g \<mapsto> a')) g' = Some x" "ac_phase x = Forwarding"
  then show "ac_client x \<noteq> None"
    using routing_invD(2)[OF i] client fwd by (auto split: if_splits)
next
  fix g' x c b assume "((ry_agents s)(g \<mapsto> a')) g' = Some x" "ac_client x = Some (c, b)"
  then show "b = ac_box x"
    using routing_invD(3)[OF i, of g' _ c b] a box client by (metis map_upd_Some_unfold)
qed (fact routing_invD(5,6,8)[OF i])+

lemma ry_agents_remove_waiter [simp]: "ry_agents (remove_waiter box g s) = ry_agents s"
  by (simp add: remove_waiter_def)

lemma routing_remove_agent:
  assumes i: "routing_inv s" and a: "ry_agents s g = Some a"
  shows "routing_inv ((remove_waiter (ac_box a) g s)\<lparr>ry_agents := (ry_agents s)(g := None)\<rparr>)"
proof (rule routing_invI)
  fix b g'
  assume w: "ry_waiting ((remove_waiter (ac_box a) g s)\<lparr>ry_agents := (ry_agents s)(g := None)\<rparr>) b = Some g'"
  then have w': "ry_waiting s b = Some g'" by (auto simp: remove_waiter_def split: if_splits)
  then obtain x where x: "ry_agents s g' = Some x" "unclaimed b x" using routing_invD(4)[OF i] by blast
  have "g' \<noteq> g"
    using w w' x a by (auto simp: remove_waiter_def unclaimed_def split: if_splits)
  with x show "\<exists>y. ry_agents ((remove_waiter (ac_box a) g s)\<lparr>ry_agents := (ry_agents s)(g := None)\<rparr>) g'
      = Some y \<and> unclaimed b y" by simp
next
  fix g' x
  assume "ry_agents ((remove_waiter (ac_box a) g s)\<lparr>ry_agents := (ry_agents s)(g := None)\<rparr>) g' = Some x"
  then have x: "ry_agents s g' = Some x" by (auto split: if_splits)
  then show "g' < ry_next ((remove_waiter (ac_box a) g s)\<lparr>ry_agents := (ry_agents s)(g := None)\<rparr>)"
    using routing_invD(1)[OF i] by (simp add: remove_waiter_def)
  show "ac_client x \<noteq> None" if "ac_phase x = Forwarding"
    using routing_invD(2)[OF i x that] .
  show "b = ac_box x" if "ac_client x = Some (c, b)" for c b
    using routing_invD(3)[OF i x that] .
  fix c k
  assume "ry_pending ((remove_waiter (ac_box a) g s)\<lparr>ry_agents := (ry_agents s)(g := None)\<rparr>) c = Some k"
    and "cc_phase k = Taken g'"
  then show "unclaimed (cc_box k) x"
    using routing_invD(7)[OF i _ _ x] by (simp add: remove_waiter_def split: if_splits)
next
  fix c k g'
  assume "ry_pending ((remove_waiter (ac_box a) g s)\<lparr>ry_agents := (ry_agents s)(g := None)\<rparr>) c = Some k"
    and k: "cc_phase k = Taken g'"
  then have c: "ry_pending s c = Some k" by (simp add: remove_waiter_def split: if_splits)
  show "g' < ry_next ((remove_waiter (ac_box a) g s)\<lparr>ry_agents := (ry_agents s)(g := None)\<rparr>)"
    using routing_invD(5)[OF i c k] by (simp add: remove_waiter_def)
  show "ry_waiting ((remove_waiter (ac_box a) g s)\<lparr>ry_agents := (ry_agents s)(g := None)\<rparr>) b
      \<noteq> Some g'" for b
    using routing_invD(6)[OF i c k, of b] by (simp add: remove_waiter_def split: if_splits)
  fix c' k'
  assume "ry_pending ((remove_waiter (ac_box a) g s)\<lparr>ry_agents := (ry_agents s)(g := None)\<rparr>) c' = Some k'"
    and "cc_phase k' = Taken g'"
  then show "c = c'"
    using routing_invD(8)[OF i c _ k] by (simp add: remove_waiter_def split: if_splits)
qed

lemma routing_drop_client:
  assumes i: "routing_inv s"
  shows "routing_inv (drop_client c s)"
  unfolding drop_client_def
  by (rule routing_invI)
     (auto split: if_splits dest: routing_invD(1)[OF i] routing_invD(2)[OF i] routing_invD(3)[OF i]
        routing_invD(4)[OF i] routing_invD(5)[OF i] routing_invD(6)[OF i] routing_invD(7)[OF i]
        routing_invD(8)[OF i])

lemma routing_release: "routing_inv (release_slot s) \<longleftrightarrow> routing_inv s"
  by (simp add: routing_inv_def release_slot_def)

lemma routing_client_takes:
  assumes i: "routing_inv s" and k: "ry_pending s c = Some k" "cc_phase k = Seeking"
    and w: "ry_waiting s (cc_box k) = Some g"
  shows "routing_inv (s\<lparr>ry_waiting := (ry_waiting s)(cc_box k := None),
    ry_pending := (ry_pending s)(c \<mapsto> k\<lparr>cc_phase := Taken g\<rparr>)\<rparr>)"
proof -
  obtain a where a: "ry_agents s g = Some a" "unclaimed (cc_box k) a"
    using routing_invD(4)[OF i w] by blast
  have only: "b = cc_box k" if "ry_waiting s b = Some g" for b
    using routing_invD(4)[OF i that] a by (auto simp: unclaimed_def)
  have free: "cc_phase k' \<noteq> Taken g" if "ry_pending s c' = Some k'" for c' k'
    using routing_invD(6)[OF i that] w by blast
  show ?thesis
  proof (rule routing_invI, simp_all, goal_cases)
    case (1 g' x) then show ?case by (rule routing_invD(1)[OF i])
  next
    case (2 g' x) then show ?case using routing_invD(2)[OF i, of g' x] by auto
  next
    case (3 g' x c' b) then show ?case using routing_invD(3)[OF i] by blast
  next
    case (4 b g') then show ?case using routing_invD(4)[OF i] by (auto split: if_splits)
  next
    case (5 c' k' g') then show ?case
      using routing_invD(5)[OF i] routing_invD(1)[OF i a(1)] by (auto split: if_splits)
  next
    case (6 c' k' g' b) then show ?case
      using routing_invD(6)[OF i, of c' k' g' b] only by (auto split: if_splits)
  next
    case (7 c' k' g' x) then show ?case
      using routing_invD(7)[OF i, of c' k' g' x] a by (auto split: if_splits)
  next
    case (8 c1 k1 c2 k2 g') then show ?case
      using routing_invD(8)[OF i, of c1 k1 c2 k2 g'] free by (auto split: if_splits)
  qed
qed

lemma routing_send:
  assumes i: "routing_inv s" and k: "ry_pending s c = Some k" "cc_phase k = Taken g"
  shows "routing_inv (drop_client c (send_socket g c (cc_box k) s))"
proof (cases "\<exists>a. ry_agents s g = Some a \<and> ac_phase a \<in> {Upgrading, Waiting}")
  case False
  then have "send_socket g c (cc_box k) s = s"
    by (auto simp: send_socket_def split: option.splits)
  with routing_drop_client[OF i] show ?thesis by simp
next
  case True
  then obtain a where a: "ry_agents s g = Some a" "ac_phase a \<in> {Upgrading, Waiting}" by blast
  have u: "unclaimed (cc_box k) a" using routing_invD(7)[OF i k a(1)] .
  have notw: "ry_waiting s b \<noteq> Some g" for b using routing_invD(6)[OF i k] .
  have other: "cc_phase k' \<noteq> Taken g" if "ry_pending s c' = Some k'" "c' \<noteq> c" for c' k'
    using routing_invD(8)[OF i k(1) that(1) k(2)] that(2) by auto
  have t: "drop_client c (send_socket g c (cc_box k) s)
      = s\<lparr>ry_agents := (ry_agents s)(g \<mapsto> a\<lparr>ac_client := Some (c, cc_box k)\<rparr>),
          ry_pending := (ry_pending s)(c := None), ry_clients := ry_clients s + 1\<rparr>"
    using a by (simp add: send_socket_def drop_client_def)
  show ?thesis
    unfolding t
  proof (rule routing_invI, simp_all, goal_cases)
    case (1 g' x) then show ?case using routing_invD(1)[OF i] a by (auto split: if_splits)
  next
    case (2 g' x) then show ?case using routing_invD(2)[OF i] by (auto split: if_splits)
  next
    case (3 g' x c' b) then show ?case
      using routing_invD(3)[OF i, of g' x c' b] u by (auto simp: unclaimed_def split: if_splits)
  next
    case (4 b g') then show ?case using routing_invD(4)[OF i] notw by (auto split: if_splits)
  next
    case (5 c' k' g') then show ?case using routing_invD(5)[OF i] by (auto split: if_splits)
  next
    case (6 c' k' g' b) then show ?case using routing_invD(6)[OF i] by (auto split: if_splits)
  next
    case (7 c' k' g' x) then show ?case
      using routing_invD(7)[OF i, of c' k' g' x] other by (auto split: if_splits)
  next
    case (8 c1 k1 c2 k2 g') then show ?case
      using routing_invD(8)[OF i, of c1 k1 c2 k2 g'] by (auto split: if_splits)
  qed
qed

lemma routing_register:
  assumes i: "routing_inv s" and w: "ry_waiting s box = None"
  shows "routing_inv (s\<lparr>ry_slots := n, ry_next := Suc (ry_next s),
    ry_waiting := (ry_waiting s)(box \<mapsto> ry_next s),
    ry_agents := (ry_agents s)(ry_next s \<mapsto>
      \<lparr>ac_box = box, ac_phase = Upgrading, ac_client = None\<rparr>)\<rparr>)"
proof -
  have fresh: "ry_agents s (ry_next s) = None"
    using routing_invD(1)[OF i, of "ry_next s"] by (cases "ry_agents s (ry_next s)") auto
  show ?thesis
  proof (rule routing_invI, simp_all, goal_cases)
    case (1 g' x) then show ?case
      using routing_invD(1)[OF i, of g'] by (auto split: if_splits intro: less_SucI)
  next
    case (2 g' x) then show ?case using routing_invD(2)[OF i] by (auto split: if_splits)
  next
    case (3 g' x c' b) then show ?case
      using routing_invD(3)[OF i, of g' x c' b] by (auto split: if_splits)
  next
    case (4 b g') then show ?case
      using routing_invD(4)[OF i, of b g'] fresh by (auto simp: unclaimed_def split: if_splits)
  next
    case (5 c' k' g') then show ?case using routing_invD(5)[OF i] by (metis less_SucI)
  next
    case (6 c' k' g' b) then show ?case
      using routing_invD(5,6)[OF i, of c' k' g'] by (auto split: if_splits)
  next
    case (7 c' k' g' x) then show ?case
      using routing_invD(5)[OF i, of c' k' g'] routing_invD(7)[OF i, of c' k' g' x]
      by (auto split: if_splits)
  next
    case (8 c1 k1 c2 k2 g') then show ?case by (rule routing_invD(8)[OF i])
  qed
qed

lemma routing_next:
  assumes i: "routing_inv s"
  shows "routing_inv (s\<lparr>ry_next := Suc (ry_next s)\<rparr>)"
  by (rule routing_invI)
     (auto dest: routing_invD(1)[OF i] routing_invD(2)[OF i] routing_invD(3)[OF i]
        routing_invD(4)[OF i] routing_invD(5)[OF i] routing_invD(6)[OF i] routing_invD(7)[OF i]
        routing_invD(8)[OF i] intro: less_SucI)

lemma routing_seek:
  assumes i: "routing_inv s"
  shows "routing_inv (s\<lparr>ry_clients := n,
    ry_pending := (ry_pending s)(c \<mapsto> \<lparr>cc_box = box, cc_phase = Seeking\<rparr>)\<rparr>)"
  by (rule routing_invI)
     (auto dest: routing_invD(1)[OF i] routing_invD(2)[OF i] routing_invD(3)[OF i]
        routing_invD(4)[OF i] routing_invD(5)[OF i] routing_invD(6)[OF i] routing_invD(7)[OF i]
        routing_invD(8)[OF i] split: if_splits)

lemma routing_set_phase:
  assumes "routing_inv s" and "ry_agents s g = Some a"
    and "phase = Forwarding \<longrightarrow> ac_client a \<noteq> None"
  shows "routing_inv (set_phase g a phase s)"
  by (rule routing_update_agent[OF assms(1,2), where a' = "a\<lparr>ac_phase := phase\<rparr>"])
     (use assms in \<open>simp_all add: set_phase_def\<close>)

lemma routing_inv_step:
  assumes "relay_step e s = Some (r, t)" and i: "routing_inv s"
  shows "routing_inv t"
proof (cases e)
  case (AgentArrives ok box)
  then show ?thesis using assms(1) i routing_register[OF i] routing_next[OF i]
    by (auto simp: agent_arrives_def Let_def release_slot_def split: if_splits)
next
  case (ClientArrives c ok box)
  then show ?thesis using assms(1) i routing_seek[OF i]
    by (auto simp: client_arrives_def split: if_splits)
next
  case (AgentUpgraded g)
  then show ?thesis using assms(1) routing_set_phase[OF i] by (auto split: option.splits if_splits)
next
  case (AgentUpgradeFails g)
  then show ?thesis using assms(1) routing_set_phase[OF i]
    by (auto simp: routing_release split: option.splits if_splits)
next
  case (AgentReady g)
  then show ?thesis using assms(1) routing_set_phase[OF i]
    by (auto split: option.splits if_splits)
next
  case (AgentEnds g)
  then show ?thesis using assms(1) routing_set_phase[OF i] by (auto split: option.splits if_splits)
next
  case (FailedCleanup g)
  then show ?thesis using assms(1) routing_remove_agent[OF i]
    by (auto simp: Let_def split: option.splits if_splits)
next
  case (AgentCleanup g)
  then show ?thesis using assms(1) routing_remove_agent[OF i]
    by (auto simp: Let_def routing_release split: option.splits if_splits)
next
  case (ClientTakes c)
  then show ?thesis using assms(1) routing_client_takes[OF i]
    by (auto simp: client_takes_def split: option.splits if_splits)
next
  case (ClientTimesOut c)
  then show ?thesis using assms(1) routing_drop_client[OF i] by (auto split: option.splits if_splits)
next
  case (ClientUpgraded c)
  then show ?thesis using assms(1) routing_send[OF i]
    by (auto split: option.splits client_phase.splits)
next
  case (ClientUpgradeFails c)
  then show ?thesis using assms(1) routing_drop_client[OF i]
    by (auto split: option.splits client_phase.splits)
qed

interpretation relay: event_system relay_rel "relay_inv limit" for limit
  by unfold_locales
     (auto simp: relay_rel_def relay_inv_def intro: permits_inv_step routing_inv_step)

lemma relay_new_inv: "relay_new key limit = Inr s \<Longrightarrow> relay_inv limit s"
  by (auto simp: relay_new_def res_simps relay_inv_def permits_inv_def routing_inv_def permit_holders_def)

lemma relay_reachable_inv:
  "relay_new key limit = Inr s0 \<Longrightarrow> reaches relay_rel s0 s \<Longrightarrow> relay_inv limit s"
  by (blast intro: relay.reaches_inv relay_new_inv)

text \<open>
  C6: However the relay's handlers interleave, a client's socket only ever reaches an agent
  that registered under the very box the client asked for; a session that forwards has such
  a client; and a box waits with at most the one connection of its own that no client has
  taken.
\<close>

theorem relay_pairs_same_box:
  assumes "relay_new key limit = Inr s0" and "reaches relay_rel s0 s"
    and "ry_agents s g = Some a"
  shows "(case ac_client a of Some (c, box) \<Rightarrow> box = ac_box a | None \<Rightarrow> ac_phase a \<noteq> Forwarding)
    \<and> (ry_waiting s box = Some g \<longrightarrow> box = ac_box a \<and> ac_client a = None)
    \<and> (ry_pending s c = Some \<lparr>cc_box = asked, cc_phase = Taken g\<rparr> \<longrightarrow>
         asked = ac_box a \<and> ac_client a = None \<and> ry_waiting s box \<noteq> Some g)"
proof -
  have i: "routing_inv s" using relay_reachable_inv[OF assms(1,2)] by (simp add: relay_inv_def)
  let ?k = "\<lparr>cc_box = asked, cc_phase = Taken g\<rparr>"
  have "case ac_client a of Some (c, box) \<Rightarrow> box = ac_box a | None \<Rightarrow> ac_phase a \<noteq> Forwarding"
    using routing_invD(2,3)[OF i assms(3)] by (cases "ac_client a") auto
  moreover have "box = ac_box a \<and> ac_client a = None" if "ry_waiting s box = Some g"
    using routing_invD(4)[OF i that] assms(3) by (simp add: unclaimed_def)
  moreover have "asked = ac_box a \<and> ac_client a = None \<and> ry_waiting s box \<noteq> Some g"
    if "ry_pending s c = Some ?k"
    using routing_invD(6)[OF i that, of g box] routing_invD(7)[OF i that _ assms(3)]
    by (simp add: unclaimed_def)
  ultimately show ?thesis by blast
qed

text \<open>
  C7: The relay leaks no permit and exceeds no limit. In every reachable state the free
  slots and the agent connections that hold one add up to the configured maximum, and so do
  the client permits and the pending clients; so when every handler has ended all permits
  are back and no box is left registered.
\<close>

theorem relay_permits_conserved:
  assumes "relay_new key limit = Inr s0" and "reaches relay_rel s0 s"
  shows "ry_slots s + card (permit_holders (ry_agents s)) = limit
    \<and> ry_clients s + card (dom (ry_pending s)) = limit
    \<and> (ry_agents s = Map.empty \<and> ry_pending s = Map.empty \<longrightarrow>
         ry_slots s = limit \<and> ry_clients s = limit \<and> ry_waiting s = Map.empty)"
proof -
  have p: "permits_inv limit s" and i: "routing_inv s"
    using relay_reachable_inv[OF assms] by (simp_all add: relay_inv_def)
  have "ry_waiting s = Map.empty" if "ry_agents s = Map.empty"
  proof
    fix b
    show "ry_waiting s b = None"
      using routing_invD(4)[OF i, of b] that by (cases "ry_waiting s b") auto
  qed
  then show ?thesis using p by (auto simp: permits_inv_def permit_holders_def)
qed

text \<open>
  The clean-up of a connection removes its own registration only. In every reachable
  state, when the handler of connection \<open>g\<close> finishes, a registration made for the same
  box by a newer connection stays, every other box is untouched, and afterwards nothing
  refers to \<open>g\<close> any more.
\<close>

theorem cleanup_keeps_newer_registration:
  assumes "relay_new key limit = Inr s0" and "reaches relay_rel s0 s"
    and "relay_step (AgentCleanup g) s = Some (r, t)"
  shows "ry_waiting t box = (if ry_waiting s box = Some g then None else ry_waiting s box)
    \<and> ry_waiting t box \<noteq> Some g \<and> ry_agents t g = None \<and> ry_slots t = Suc (ry_slots s)"
proof -
  have i: "routing_inv s" using relay_reachable_inv[OF assms(1,2)] by (simp add: relay_inv_def)
  from assms(3) obtain a where a: "ry_agents s g = Some a"
    "t = release_slot ((remove_waiter (ac_box a) g s)\<lparr>ry_agents := (ry_agents s)(g := None)\<rparr>)"
    by (auto simp: Let_def split: option.splits if_splits)
  have w: "ry_waiting (remove_waiter (ac_box a) g s) box
      = (if ry_waiting s box = Some g then None else ry_waiting s box)"
  proof (cases "ry_waiting s box = Some g")
    case True
    then have "ac_box a = box" using routing_invD(4)[OF i True] a(1) by (simp add: unclaimed_def)
    with True show ?thesis by (simp add: remove_waiter_def)
  next
    case False
    then show ?thesis by (cases "box = ac_box a") (simp_all add: remove_waiter_def)
  qed
  show ?thesis unfolding a(2) by (simp add: release_slot_def w) (simp add: remove_waiter_def)
qed

text \<open>A run in which a waiting agent drops out while its box is registered again.\<close>

definition example_key :: string where
  "example_key = replicate 32 (CHR ''k'')"

fun run_relay :: "relay_event list \<Rightarrow> relay \<Rightarrow> relay option" where
  "run_relay [] s = Some s"
| "run_relay (e # es) s =
     (case relay_step e s of None \<Rightarrow> None | Some (r, t) \<Rightarrow> run_relay es t)"

lemma run_relay_reaches: "run_relay es s = Some t \<Longrightarrow> reaches relay_rel s t"
proof (induction es s rule: run_relay.induct)
  case (2 e es s)
  then obtain r u where u: "relay_step e s = Some (r, u)" "run_relay es u = Some t"
    by (auto split: option.splits prod.splits)
  have "reaches relay_rel s u"
    using reaches_step[OF reaches_refl, of relay_rel e s u] u(1) by (auto simp: relay_rel_def)
  then show ?case using 2(1)[OF u(1)] u(2) by (blast intro: reaches_trans)
qed (simp add: reaches_refl)

definition init2 :: relay where
  "init2 = \<lparr>ry_waiting = Map.empty, ry_slots = 2, ry_clients = 2, ry_next = 0,
     ry_agents = Map.empty, ry_pending = Map.empty\<rparr>"

definition handover :: "relay_event list" where
  "handover = [AgentArrives True ''b'', AgentUpgraded 0, ClientArrives 7 True ''b'', ClientTakes 7,
     AgentArrives True ''b'', ClientUpgraded 7, AgentReady 0, AgentEnds 0]"

definition after_handover :: relay where
  "after_handover = \<lparr>ry_waiting = [''b'' \<mapsto> 1], ry_slots = 0, ry_clients = 2, ry_next = 2,
     ry_agents = [0 \<mapsto> \<lparr>ac_box = ''b'', ac_phase = Closing, ac_client = Some (7, ''b'')\<rparr>,
                  1 \<mapsto> \<lparr>ac_box = ''b'', ac_phase = Upgrading, ac_client = None\<rparr>],
     ry_pending = Map.empty\<rparr>"

lemma handover_run:
  "relay_new example_key 2 = Inr init2" "run_relay handover init2 = Some after_handover"
  by (simp_all add: relay_new_def example_key_def init2_def ensure_def handover_def after_handover_def
      step_defs fun_eq_iff)

theorem relay_pairs_same_box_witness:
  "case ac_client \<lparr>ac_box = ''b'', ac_phase = Closing, ac_client = Some (7, ''b'')\<rparr> of
     Some (c, box) \<Rightarrow> box = ''b'' | None \<Rightarrow> False"
  using relay_pairs_same_box[OF handover_run(1) run_relay_reaches[OF handover_run(2)], of 0]
  by (simp add: after_handover_def)

theorem relay_permits_conserved_witness:
  "card (permit_holders (ry_agents after_handover)) = 2"
  using relay_permits_conserved[OF handover_run(1) run_relay_reaches[OF handover_run(2)]]
  by (simp add: after_handover_def)

theorem cleanup_keeps_newer_registration_witness:
  "\<exists>t. relay_step (AgentCleanup 0) after_handover = Some (Quiet, t) \<and> ry_waiting t ''b'' = Some 1"
proof -
  obtain t where t: "relay_step (AgentCleanup 0) after_handover = Some (Quiet, t)"
    by (simp add: after_handover_def Let_def)
  from cleanup_keeps_newer_registration[OF handover_run(1) run_relay_reaches[OF handover_run(2)] t,
      of "''b''"] t
  show ?thesis by (simp add: after_handover_def)
qed

end
