(* ===== verification/RelayTunnel.thy ===== *)
theory RelayTunnel
  imports Prelude
begin

text \<open>
  The data path of the relay, as functions on the sequence of WebSocket messages each side
  sees: the agent's wait for \<open>READY\<close> and the two halves of \<open>bridge\<close>
  (\<open>crates/pbox-relay/src/lib.rs\<close>), and the relay's \<open>wait_and_forward\<close> and
  \<open>forward\<close> (\<open>crates/pbox-relay/src/server.rs\<close>). Timeouts and transport errors
  are events of these sequences.
\<close>

section \<open>Messages\<close>

datatype ws_message = Text string | Binary string | Ping string | Pong string | Close

definition READY :: string where "READY = ''pbox-relay-v1-ready''"

text \<open>What a receiving end sees: a message, the end of the stream, an error or a timeout.\<close>

datatype incoming = Msg ws_message | Ended | Broken | TimedOut

section \<open>The agent waits for a client\<close>

text \<open>The pongs sent, and how the wait ends; \<open>None\<close> while it goes on.\<close>

fun await_ready :: "incoming list \<Rightarrow> string list \<times> (string, unit) result option" where
  "await_ready [] = ([], None)"
| "await_ready (Msg m # ms) =
     (case m of
        Text text \<Rightarrow>
          if text = READY then ([], Some (Inr ()))
          else ([], Some (Inl ''invalid relay waiting message''))
      | Ping bytes \<Rightarrow> (let (pongs, r) = await_ready ms in (bytes # pongs, r))
      | Close \<Rightarrow> ([], Some (Inl ''relay closed waiting connection''))
      | _ \<Rightarrow> ([], Some (Inl ''invalid relay waiting message'')))"
| "await_ready (Ended # ms) = ([], Some (Inl ''relay closed waiting connection''))"
| "await_ready (Broken # ms) = ([], Some (Inl ''relay connection error''))"
| "await_ready (TimedOut # ms) = ([], Some (Inl ''relay heartbeat timed out''))"

section \<open>bridge\<close>

text \<open>
  The receiving half: the bytes written to the local stream, the pings to answer, and the
  outcome. A write or a queued pong that fails is the event \<open>Broken\<close>.
\<close>

fun bridge_receive :: "incoming list \<Rightarrow> string \<times> string list \<times> (string, unit) result option" where
  "bridge_receive [] = ([], [], None)"
| "bridge_receive (Msg m # ms) =
     (case m of
        Binary bytes \<Rightarrow> (let (out, pongs, r) = bridge_receive ms in (bytes @ out, pongs, r))
      | Ping bytes \<Rightarrow> (let (out, pongs, r) = bridge_receive ms in (out, bytes # pongs, r))
      | Pong _ \<Rightarrow> bridge_receive ms
      | Close \<Rightarrow> ([], [], Some (Inr ()))
      | Text _ \<Rightarrow> ([], [], Some (Inl ''relay sent non-binary session data'')))"
| "bridge_receive (Ended # ms) = ([], [], Some (Inr ()))"
| "bridge_receive (Broken # ms) = ([], [], Some (Inl ''transport error''))"
| "bridge_receive (TimedOut # ms) = ([], [], Some (Inl ''relay peer stopped responding''))"

text \<open>
  The sending half: the branches of its \<open>select!\<close> in the order they happen. A read
  returns at most a buffer; a read of zero bytes closes the connection.
\<close>

datatype send_event = ReadBytes string | ReadError | ReplyDue string | Heartbeat | SendStuck

fun bridge_send :: "send_event list \<Rightarrow> ws_message list \<times> (string, unit) result option" where
  "bridge_send [] = ([], None)"
| "bridge_send (e # es) =
     (let continue = (\<lambda>m. let (ms, r) = bridge_send es in (m # ms, r)) in
      case e of
        ReadBytes bytes \<Rightarrow>
          if bytes = [] then ([Close], Some (Inr ())) else continue (Binary bytes)
      | ReadError \<Rightarrow> ([], Some (Inl ''read error''))
      | ReplyDue bytes \<Rightarrow> continue (Pong bytes)
      | Heartbeat \<Rightarrow> continue (Ping [])
      | SendStuck \<Rightarrow> ([], Some (Inl ''send timed out'')))"

section \<open>The relay\<close>

text \<open>
  \<open>wait_and_forward\<close> until a client is there: the pings it sends, and what ends the
  wait. The deadline event is the \<open>DEAD_PEER\<close> timer, which each pong resets.
\<close>

datatype wait_event = ClientSocket | SenderDropped | Tick | AgentMsg incoming | Deadline

datatype wait_outcome = StillWaiting | Paired | Abandoned

fun wait_for_client :: "wait_event list \<Rightarrow> nat \<times> wait_outcome" where
  "wait_for_client [] = (0, StillWaiting)"
| "wait_for_client (ClientSocket # es) = (0, Paired)"
| "wait_for_client (SenderDropped # es) = (0, Abandoned)"
| "wait_for_client (Tick # es) = (let (n, r) = wait_for_client es in (Suc n, r))"
| "wait_for_client (AgentMsg (Msg (Pong _)) # es) = wait_for_client es"
| "wait_for_client (AgentMsg _ # es) = (0, Abandoned)"
| "wait_for_client (Deadline # es) = (0, Abandoned)"

text \<open>\<open>forward\<close>: the messages passed on, and the outcome (\<open>None\<close>: still running).\<close>

fun forward :: "incoming list \<Rightarrow> ws_message list \<times> (string, unit) result option" where
  "forward [] = ([], None)"
| "forward (Msg m # ms) =
     (case m of
        Text _ \<Rightarrow> ([], Some (Inl ''text frames are not session data''))
      | Close \<Rightarrow> ([Close], Some (Inr ()))
      | _ \<Rightarrow> (let (out, r) = forward ms in (m # out, r)))"
| "forward (Ended # ms) = ([], Some (Inr ()))"
| "forward (Broken # ms) = ([], Some (Inl ''transport error''))"
| "forward (TimedOut # ms) = ([], Some (Inl ''forward timed out''))"

section \<open>Transparency\<close>

text \<open>The bytes a sender read before its stream ended.\<close>

fun read_bytes :: "send_event list \<Rightarrow> string" where
  "read_bytes [] = []"
| "read_bytes (ReadBytes bytes # es) = (if bytes = [] then [] else bytes @ read_bytes es)"
| "read_bytes (ReadError # es) = []"
| "read_bytes (SendStuck # es) = []"
| "read_bytes (_ # es) = read_bytes es"

lemma forward_bridge_send:
  "fst (forward (map Msg (fst (bridge_send es)))) = fst (bridge_send es)"
  by (induction es) (auto simp: Let_def split: send_event.splits prod.splits)

lemma bridge_receive_send:
  "fst (bridge_receive (map Msg (fst (bridge_send es)))) = read_bytes es"
  by (induction es) (auto simp: Let_def split: send_event.splits prod.splits)

lemma bridge_send_close:
  "snd (bridge_send es) = Some (Inr ()) \<Longrightarrow>
     snd (forward (map Msg (fst (bridge_send es)))) = Some (Inr ())
     \<and> snd (snd (bridge_receive (map Msg (fst (bridge_send es))))) = Some (Inr ())"
  by (induction es) (auto simp: Let_def split: send_event.splits prod.splits if_splits)



lemma forward_text:
  "forward (map Msg ms @ Msg (Text t) # rest)
     = (if Close \<in> set ms \<or> (\<exists>u. Text u \<in> set ms) then forward (map Msg ms)
        else (ms, Some (Inl ''text frames are not session data'')))"
  by (induction ms) (auto split: ws_message.splits)

text \<open>
  Only the relay can say \<open>READY\<close>. A peer's text frame is never forwarded: the
  frames the relay passes on are binary, ping, pong and close frames, nothing follows a
  close, and the agent's wait ends well only on the ready text itself, after nothing but
  pings, each of which it answers.
\<close>

theorem ready_only_from_relay:
  "list_all (\<lambda>m. case m of Text _ \<Rightarrow> False | _ \<Rightarrow> True) (fst (forward ins))
   \<and> Close \<notin> set (butlast (fst (forward ins)))
   \<and> (snd (await_ready ins) = Some (Inr ()) \<longleftrightarrow>
        (\<exists>rest. ins = map (\<lambda>b. Msg (Ping b)) (fst (await_ready ins)) @ Msg (Text READY) # rest))"
proof (intro conjI)
  show "list_all (\<lambda>m. case m of Text _ \<Rightarrow> False | _ \<Rightarrow> True) (fst (forward ins))"
    by (induction ins rule: forward.induct) (auto split: ws_message.splits prod.splits)
  show "Close \<notin> set (butlast (fst (forward ins)))"
    by (induction ins rule: forward.induct) (auto split: ws_message.splits prod.splits if_splits)
  show "snd (await_ready ins) = Some (Inr ()) \<longleftrightarrow>
      (\<exists>rest. ins = map (\<lambda>b. Msg (Ping b)) (fst (await_ready ins)) @ Msg (Text READY) # rest)"
    by (induction ins rule: await_ready.induct) (auto split: ws_message.splits prod.splits if_splits)
qed

end
