(* ===== verification/Protocol.thy ===== *)
theory Protocol
  imports Files
begin

text \<open>
  The messages of the agent protocol
  (\<open>crates/pbox-proto/proto/pbox/agent/v1\<close>, version from
  \<open>crates/pbox-proto/src/lib.rs\<close>) and the gRPC statuses both ends answer with.
  A received stream is the list of what \<open>stream.message()\<close> returns; after the last
  item it returns \<open>None\<close>.
\<close>

definition PROTOCOL_VERSION :: nat where "PROTOCOL_VERSION = 3"

datatype grpc_code =
    InvalidArgument | FailedPrecondition | ResourceExhausted | DeadlineExceeded
  | PermissionDenied | Unavailable | Internal | Unknown | Cancelled | NotFound | AlreadyExists | Aborted

datatype status = St grpc_code string

definition version_error :: status where
  "version_error = St FailedPrecondition ''unsupported agent protocol version''"

definition internal_io :: status where "internal_io = St Internal ''i/o error''"

text \<open>The client's errors (\<open>crates/pbox-agent-client/src/lib.rs\<close>).\<close>

datatype client_error =
    Endpoint string | Io | ExecRequestClosed | ForwardRequestClosed | Rpc status | Timeout
  | Identity string | ProtocolMismatch nat nat

text \<open>One result of awaiting a stream under a timeout.\<close>

datatype 'a received = Got 'a | Fault status | Late

record exec_request =
  xr_version :: nat
  xr_argv :: "string list"
  xr_cwd :: string
  xr_env :: "(string \<times> string) list"
  xr_user :: string
  xr_pty :: bool
  xr_stdin :: string
  xr_stdin_eof :: bool
  xr_rows :: nat
  xr_cols :: nat
  xr_session :: string

definition default_exec_request :: exec_request where
  "default_exec_request =
     \<lparr>xr_version = 0, xr_argv = [], xr_cwd = [], xr_env = [], xr_user = [], xr_pty = False,
      xr_stdin = [], xr_stdin_eof = False, xr_rows = 0, xr_cols = 0, xr_session = []\<rparr>"

datatype exec_event = Stdout string | Stderr string | Exit int int

record file_chunk =
  fc_path :: string
  fc_mode :: nat
  fc_uid :: nat
  fc_gid :: nat
  fc_atomic :: bool
  fc_data :: string
  fc_eof :: bool
  fc_version :: nat

definition default_chunk :: file_chunk where
  "default_chunk = \<lparr>fc_path = [], fc_mode = 0, fc_uid = 0, fc_gid = 0, fc_atomic = False,
     fc_data = [], fc_eof = False, fc_version = 0\<rparr>"

record file_result =
  fr_size :: nat
  fr_digest :: string

text \<open>\<open>FCloseEv code half_close\<close> ends one direction (half) or both.\<close>

datatype forward_event = FOpen nat string nat | FData string | FClose nat bool

end
