(* ===== verification/AgentRequests.thy ===== *)
theory AgentRequests
  imports Protocol Strings "HOL-Library.List_Lexorder"
begin

text \<open>
  What the agent does with a request before it acts on it
  (\<open>crates/pbox-agent/src/main.rs\<close>): protocol versions, the checks of an exec request
  and its environment, the command it turns into, paths and forward targets.
\<close>

unbundle bit_operations_syntax

section \<open>Checks\<close>

definition ping :: "string \<Rightarrow> nat \<Rightarrow> (status, nat \<times> string) result" where
  "ping box_id version =
     (if version \<noteq> PROTOCOL_VERSION then Inl version_error else Inr (PROTOCOL_VERSION, box_id))"

definition is_privileged_loader_environment :: "string \<Rightarrow> bool" where
  "is_privileged_loader_environment name \<longleftrightarrow>
     starts_with name ''LD_'' \<or> starts_with name ''DYLD_''
     \<or> name \<in> {''GCONV_PATH'', ''GLIBC_TUNABLES'', ''LOCPATH''}"

definition identifier_start :: "char \<Rightarrow> bool" where
  "identifier_start c \<longleftrightarrow> c = CHR ''_'' \<or> is_alpha c"

definition identifier_char :: "char \<Rightarrow> bool" where
  "identifier_char c \<longleftrightarrow> c = CHR ''_'' \<or> is_alnum c"

definition validate_environment_entry :: "string \<Rightarrow> string \<Rightarrow> bool \<Rightarrow> (status, unit) result" where
  "validate_environment_entry name value root =
     (if name = [] \<or> \<not> identifier_start (hd name) \<or> \<not> list_all identifier_char (tl name)
      then Inl (St InvalidArgument ''environment variable names must use shell identifier syntax'')
      else if CHR 0x00 \<in> set value
      then Inl (St InvalidArgument ''environment variable values cannot contain NUL bytes'')
      else if \<not> root \<and> is_privileged_loader_environment name
      then Inl (St PermissionDenied ''loader environment variables are not allowed for non-root commands'')
      else Inr ())"

text \<open>\<open>has_image\<close>: whether \<open>/etc/pbox/image.json\<close> exists.\<close>

definition validate_exec_request :: "bool \<Rightarrow> exec_request \<Rightarrow> (status, unit) result" where
  "validate_exec_request has_image r =
     (if xr_version r \<noteq> PROTOCOL_VERSION then Inl version_error
      else if xr_argv r = [] \<or> hd (xr_argv r) = []
      then Inl (St InvalidArgument ''argv must contain at least one command'')
      else all_checks (map (\<lambda>(name, value).
             validate_environment_entry name value (xr_user r = ''root'' \<or> has_image)) (xr_env r)))"

definition safe_path :: "string \<Rightarrow> (status, string) result" where
  "safe_path value =
     (if value = [] \<or> CHR 0x00 \<in> set value
      then Inl (St InvalidArgument ''path must not be empty or contain NUL'') else Inr value)"

definition safe_mode :: "nat \<Rightarrow> nat" where
  "safe_mode mode = unat ((word_of_nat mode :: 32 word) AND 0x1FF)"

section \<open>Commands\<close>

record command =
  cmd_program :: string
  cmd_args :: "string list"
  cmd_env :: "(string \<times> string) list"
  cmd_cwd :: "string option"

definition default_path :: string where
  "default_path = ''/usr/local/sbin:/usr/local/bin:/usr/sbin:/usr/bin:/sbin:/bin''"

definition join_with :: "char \<Rightarrow> string list \<Rightarrow> string" where
  "join_with c parts =
     (case parts of [] \<Rightarrow> [] | p # ps \<Rightarrow> p @ concat (map (\<lambda>s. c # s) ps))"

definition command_for_request :: "exec_request \<Rightarrow> command" where
  "command_for_request r =
     (let environment = xr_env r
            @ (if xr_pty r \<and> map_of (xr_env r) ''TERM'' = None
               then [(''TERM'', ''xterm-256color'')] else []);
          requested_user = (if xr_user r = [] then ''pbox'' else xr_user r);
          cwd = (if xr_cwd r = [] then None else Some (xr_cwd r))
      in if requested_user = ''root''
         then \<lparr>cmd_program = hd (xr_argv r), cmd_args = tl (xr_argv r), cmd_env = environment,
               cmd_cwd = cwd\<rparr>
         else let add_path = map_of environment ''PATH'' = None;
                  names = sort (map fst environment @ (if add_path then [''PATH''] else []))
              in \<lparr>cmd_program = ''/usr/bin/sudo'',
                  cmd_args = [''-n'', ''-u'', requested_user]
                    @ (if names = [] then [] else [''--preserve-env='' @ join_with CHR '','' names])
                    @ [''--''] @ xr_argv r,
                  cmd_env = (if add_path then [(''PATH'', default_path)] else []) @ environment,
                  cmd_cwd = cwd\<rparr>)"

section \<open>Forward targets\<close>

definition forward_open :: "forward_event option \<Rightarrow> (status, string \<times> nat) result" where
  "forward_open event =
     (case event of
        None \<Rightarrow> Inl (St InvalidArgument ''forward stream missing open event'')
      | Some (FOpen version host port) \<Rightarrow>
          if version \<noteq> PROTOCOL_VERSION then Inl version_error
          else if host = [] \<or> CHR 0x00 \<in> set host \<or> port = 0 \<or> port > U16_MAX
          then Inl (St InvalidArgument ''invalid forward target'')
          else Inr (host, port)
      | Some _ \<Rightarrow> Inl (St InvalidArgument ''forward stream must start with open''))"

text \<open>
  The connected address: the first resolved address inside an allowed network
  (\<open>contains\<close> is the network library's).
\<close>

definition is_forward_address_allowed :: "('net \<Rightarrow> 'ip \<Rightarrow> bool) \<Rightarrow> 'net list \<Rightarrow> 'ip \<Rightarrow> bool" where
  "is_forward_address_allowed net_contains networks address =
     list_ex (\<lambda>network. net_contains network address) networks"

definition forward_target ::
  "('net \<Rightarrow> 'ip \<Rightarrow> bool) \<Rightarrow> 'net list \<Rightarrow> 'ip list \<Rightarrow> (status, 'ip) result" where
  "forward_target net_contains networks addresses =
     ok_or (St PermissionDenied ''forward target is not allowed'')
       (find (is_forward_address_allowed net_contains networks) addresses)"

text \<open>The client's own check of a target (\<open>crates/pbox-agent-client/src/lib.rs\<close>).\<close>

definition validate_forward_target :: "string \<Rightarrow> nat \<Rightarrow> (client_error, unit) result" where
  "validate_forward_target host port =
     (if host = [] then Inl (Endpoint ''agent forward target host cannot be empty'')
      else if CHR 0x00 \<in> set host
      then Inl (Endpoint ''agent forward target host cannot contain NUL bytes'')
      else if port = 0 then Inl (Endpoint ''agent forward target port cannot be zero'')
      else Inr ())"

definition validate_identity :: "string \<Rightarrow> nat \<Rightarrow> string \<Rightarrow> (client_error, unit) result" where
  "validate_identity expected_box_id version box_id =
     (if version \<noteq> PROTOCOL_VERSION then Inl (ProtocolMismatch PROTOCOL_VERSION version)
      else if box_id \<noteq> expected_box_id
      then Inl (Identity (''expected '' @ expected_box_id @ '', got '' @ box_id))
      else Inr ())"

section \<open>Properties\<close>

lemma identifier_char_start: "identifier_start c \<Longrightarrow> identifier_char c"
  by (auto simp: identifier_start_def identifier_char_def is_alnum_def)

lemma environment_entry_ok_iff:
  "validate_environment_entry n v root = Inr () \<longleftrightarrow>
     n \<noteq> [] \<and> identifier_start (hd n) \<and> list_all identifier_char n
     \<and> CHR 0x00 \<notin> set v \<and> (root \<or> \<not> is_privileged_loader_environment n)"
  by (cases n) (auto simp: validate_environment_entry_def identifier_char_start)

lemma exec_request_ok_iff:
  "validate_exec_request has_image r = Inr () \<longleftrightarrow>
     xr_version r = PROTOCOL_VERSION \<and> xr_argv r \<noteq> [] \<and> hd (xr_argv r) \<noteq> []
     \<and> list_all (\<lambda>(n, v). validate_environment_entry n v (xr_user r = ''root'' \<or> has_image) = Inr ())
         (xr_env r)"
  by (auto simp: validate_exec_request_def all_checks_ok_iff list_all_iff)

lemma split_join:
  "parts \<noteq> [] \<Longrightarrow> list_all (\<lambda>p. c \<notin> set p) parts \<Longrightarrow> split_char c (join_with c parts) = parts"
proof (induction parts)
  case (Cons p ps)
  show ?case
  proof (cases ps)
    case Nil
    with Cons.prems show ?thesis by (simp add: join_with_def split_char_no_sep)
  next
    case (Cons q qs)
    with Cons.prems Cons.IH show ?thesis
      by (simp add: join_with_def split_char_append)
  qed
qed simp

lemma comma_not_identifier: "\<not> identifier_char CHR '','' "
  by code_simp

lemma identifier_no_comma: "list_all identifier_char n \<Longrightarrow> CHR '','' \<notin> set n"
  using comma_not_identifier unfolding list_all_iff by blast

text \<open>The names handed to sudo depend on the names of the environment only.\<close>

definition sudo_names :: "string list \<Rightarrow> bool \<Rightarrow> string list" where
  "sudo_names names pty =
     (let env = names @ (if pty \<and> ''TERM'' \<notin> set names then [''TERM''] else [])
      in sort (env @ (if ''PATH'' \<notin> set env then [''PATH''] else [])))"

lemma set_sort_added:
  "set (let env = names @ (if b \<and> t \<notin> set names then [t] else [])
        in sort (env @ (if p \<notin> set env then [p] else [])))
     = set names \<union> {p} \<union> (if b then {t :: string} else {})"
  by (auto simp: Let_def)

lemma sudo_names_set:
  "set (sudo_names names pty) = set names \<union> {''PATH''} \<union> (if pty then {''TERM''} else {})"
  unfolding sudo_names_def by (rule set_sort_added)

lemma sudo_names_not_Nil: "sudo_names names pty \<noteq> []"
proof
  assume "sudo_names names pty = []"
  with sudo_names_set[of names pty] show False by simp
qed

lemma map_of_None_iff: "map_of xs k = None \<longleftrightarrow> k \<notin> set (map fst xs)"
  by (simp add: map_of_eq_None_iff)

lemma command_sudo:
  assumes "xr_user r \<noteq> ''root''"
  shows "command_for_request r = \<lparr>cmd_program = ''/usr/bin/sudo'',
      cmd_args = [''-n'', ''-u'', if xr_user r = [] then ''pbox'' else xr_user r,
         ''--preserve-env='' @ join_with CHR '','' (sudo_names (map fst (xr_env r)) (xr_pty r)), ''--'']
         @ xr_argv r,
      cmd_env = cmd_env (command_for_request r), cmd_cwd = cmd_cwd (command_for_request r)\<rparr>
    \<and> set (map fst (cmd_env (command_for_request r))) = set (sudo_names (map fst (xr_env r)) (xr_pty r))
    \<and> set (cmd_env (command_for_request r))
        \<subseteq> set (xr_env r) \<union> {(''TERM'', ''xterm-256color''), (''PATH'', default_path)}"
proof -
  let ?env = "xr_env r @ (if xr_pty r \<and> ''TERM'' \<notin> set (map fst (xr_env r))
               then [(''TERM'', ''xterm-256color'')] else [])"
  let ?add = "''PATH'' \<notin> set (map fst ?env)"
  have names: "sort (map fst ?env @ (if ?add then [''PATH''] else []))
      = sudo_names (map fst (xr_env r)) (xr_pty r)"
  proof -
    have "map fst ?env = map fst (xr_env r)
        @ (if xr_pty r \<and> ''TERM'' \<notin> set (map fst (xr_env r)) then [''TERM''] else [])" by simp
    then show ?thesis unfolding sudo_names_def Let_def by (simp only:)
  qed
  have eq: "command_for_request r = \<lparr>cmd_program = ''/usr/bin/sudo'',
      cmd_args = [''-n'', ''-u'', if xr_user r = [] then ''pbox'' else xr_user r,
         ''--preserve-env='' @ join_with CHR '','' (sudo_names (map fst (xr_env r)) (xr_pty r)), ''--'']
         @ xr_argv r,
      cmd_env = (if ?add then [(''PATH'', default_path)] else []) @ ?env,
      cmd_cwd = (if xr_cwd r = [] then None else Some (xr_cwd r))\<rparr>"
    using assms sudo_names_not_Nil
    unfolding command_for_request_def Let_def map_of_None_iff names by simp
  show ?thesis unfolding eq by (auto simp: sudo_names_set)
qed

lemma loader_names:
  "\<not> is_privileged_loader_environment ''PATH''" "\<not> is_privileged_loader_environment ''TERM''"
  by code_simp+

lemma identifier_names: "list_all identifier_char ''PATH''" "list_all identifier_char ''TERM''"
  by code_simp+

text \<open>
  C12: A validated request for an ordinary user becomes one sudo call whose argument list is
  fixed but for the user, the names of the variables and the command: the names cannot run
  into each other or into other options, the command follows \<open>--\<close> unchanged, the
  arguments do not depend on any value of the environment, and outside an image workspace no
  loader variable reaches sudo.
\<close>

theorem exec_command_safe:
  assumes "validate_exec_request has_image r = Inr ()" and "xr_user r \<noteq> ''root''"
  shows "\<exists>names. cmd_program (command_for_request r) = ''/usr/bin/sudo''
    \<and> cmd_args (command_for_request r)
        = [''-n'', ''-u'', if xr_user r = [] then ''pbox'' else xr_user r, ''--preserve-env='' @ names, ''--'']
          @ xr_argv r
    \<and> set (split_char CHR '','' names) = set (map fst (cmd_env (command_for_request r)))
    \<and> cmd_args (command_for_request (r\<lparr>xr_env := map (\<lambda>(n, v). (n, f n v)) (xr_env r)\<rparr>))
        = cmd_args (command_for_request r)
    \<and> (has_image \<or> list_all (\<lambda>(n, v). \<not> is_privileged_loader_environment n)
         (cmd_env (command_for_request r)))"
proof -
  let ?names = "sudo_names (map fst (xr_env r)) (xr_pty r)"
  have ident: "list_all identifier_char n \<and> (has_image \<or> \<not> is_privileged_loader_environment n)"
    if "(n, v) \<in> set (xr_env r)" for n v
    using assms that by (auto simp: exec_request_ok_iff list_all_iff environment_entry_ok_iff)
  have "list_all identifier_char n" if "n \<in> set ?names" for n
    using that ident identifier_names by (auto simp: sudo_names_set split: if_splits)
  then have split: "split_char CHR '','' (join_with CHR '','' ?names) = ?names"
    using identifier_no_comma by (intro split_join sudo_names_not_Nil) (auto simp: list_all_iff)
  note cmd = command_sudo[OF assms(2)]
  let ?r = "r\<lparr>xr_env := map (\<lambda>(n, v). (n, f n v)) (xr_env r)\<rparr>"
  have "map fst (xr_env ?r) = map fst (xr_env r)" by (simp add: comp_def split_beta)
  moreover have "cmd_args (command_for_request ?r)
      = [''-n'', ''-u'', if xr_user r = [] then ''pbox'' else xr_user r,
         ''--preserve-env='' @ join_with CHR '','' (sudo_names (map fst (xr_env ?r)) (xr_pty r)), ''--'']
        @ xr_argv r"
    using assms(2) by (subst command_sudo[of ?r, THEN conjunct1]) simp_all
  ultimately have args': "cmd_args (command_for_request ?r)
      = [''-n'', ''-u'', if xr_user r = [] then ''pbox'' else xr_user r,
         ''--preserve-env='' @ join_with CHR '','' ?names, ''--''] @ xr_argv r"
    by (simp only:)
  have loader: "has_image \<or> list_all (\<lambda>(n, v). \<not> is_privileged_loader_environment n)
      (cmd_env (command_for_request r))"
  proof (cases has_image)
    case False
    have "\<not> is_privileged_loader_environment n" if "(n, v) \<in> set (cmd_env (command_for_request r))" for n v
      using cmd that ident loader_names False by auto
    then show ?thesis by (auto simp: list_all_iff)
  qed simp
  have prog: "cmd_program (command_for_request r) = ''/usr/bin/sudo''"
    and args: "cmd_args (command_for_request r)
       = [''-n'', ''-u'', if xr_user r = [] then ''pbox'' else xr_user r,
          ''--preserve-env='' @ join_with CHR '','' ?names, ''--''] @ xr_argv r"
    by (subst cmd[THEN conjunct1], simp)+
  have "set (split_char CHR '','' (join_with CHR '','' ?names)) = set (map fst (cmd_env (command_for_request r)))"
    using cmd split by simp
  then show ?thesis
    by (intro exI[of _ "join_with CHR '','' ?names"] conjI prog args loader) (simp_all only: args args')
qed

definition example_request :: exec_request where
  "example_request = default_exec_request\<lparr>xr_version := 3, xr_argv := [''make'', ''--all''],
     xr_env := [(''B'', ''1''), (''A'', ''2,--x'')]\<rparr>"

theorem exec_command_safe_witness:
  "\<exists>names. cmd_args (command_for_request example_request)
     = [''-n'', ''-u'', ''pbox'', ''--preserve-env='' @ names, ''--'', ''make'', ''--all'']"
proof -
  have "validate_exec_request False example_request = Inr ()" by code_simp
  from exec_command_safe[OF this, of "\<lambda>n v. v"] obtain names where
    "cmd_args (command_for_request example_request)
       = [''-n'', ''-u'', if xr_user example_request = [] then ''pbox'' else xr_user example_request,
          ''--preserve-env='' @ names, ''--''] @ xr_argv example_request"
    by (auto simp: example_request_def default_exec_request_def)
  then show ?thesis by (simp add: example_request_def default_exec_request_def)
qed

lemma find_None: "find P xs = None \<longleftrightarrow> list_all (\<lambda>x. \<not> P x) xs"
  by (auto simp: find_None_iff list_all_iff)



end
