(* ===== verification/FileTransfer.thy ===== *)
theory FileTransfer
  imports AgentRequests
begin

text \<open>
  File uploads and downloads: the agent's \<open>put_file\<close> and \<open>get_file\<close>
  (\<open>crates/pbox-agent/src/main.rs\<close>) and the client's
  (\<open>crates/pbox-agent-client/src/lib.rs\<close>). An upload is written to a temporary
  file beside its destination and then committed; every I/O call's outcome is an input.
  Byte strings are \<open>string\<close>s.
\<close>

section \<open>The client's upload\<close>

definition MAX_FILE_SIZE :: nat where "MAX_FILE_SIZE = 64 * 1024 * 1024"

definition MAX_COLLECTED_BYTES :: nat where "MAX_COLLECTED_BYTES = 64 * 1024 * 1024"

text \<open>\<open>slice::chunks\<close>: pieces of \<open>n\<close> elements, the last one possibly shorter.\<close>

fun chunks_of :: "nat \<Rightarrow> 'a list \<Rightarrow> 'a list list" where
  "chunks_of n xs =
     (if n = 0 \<or> xs = [] then [] else take n xs # chunks_of n (drop n xs))"

declare chunks_of.simps [simp del]

definition upload_chunks :: "string \<Rightarrow> string \<Rightarrow> nat \<Rightarrow> bool \<Rightarrow> file_chunk list" where
  "upload_chunks path content mode atomic_write =
     (if content = []
      then [default_chunk\<lparr>fc_path := path, fc_mode := mode, fc_atomic := atomic_write, fc_eof := True,
              fc_version := PROTOCOL_VERSION\<rparr>]
      else map (\<lambda>(index, chunk).
             default_chunk\<lparr>fc_path := if index = 0 then path else [],
               fc_mode := if index = 0 then mode else 0,
               fc_atomic := index = 0 \<and> atomic_write,
               fc_data := chunk,
               fc_eof := False,
               fc_version := if index = 0 then PROTOCOL_VERSION else 0\<rparr>)
             (enumerate 0 (chunks_of 8192 content))
        @ [default_chunk\<lparr>fc_eof := True\<rparr>])"

definition client_put_file ::
  "string \<Rightarrow> string \<Rightarrow> nat \<Rightarrow> bool \<Rightarrow> (status, file_chunk list) result" where
  "client_put_file path content mode atomic_write =
     (if MAX_COLLECTED_BYTES < length content
      then Inl (St ResourceExhausted ''upload exceeds the 64 MiB collection limit'')
      else Inr (upload_chunks path content mode atomic_write))"

section \<open>The agent's upload\<close>

text \<open>
  The outcomes of the agent's calls: a failing write or copy reports how many bytes it had
  written. \<open>up_umask_mode\<close> is the mode a newly created destination gets.
\<close>

record upload_io =
  up_create_ok :: bool
  up_write_fails :: "nat \<Rightarrow> nat option"
  up_flush_ok :: bool
  up_mode_ok :: bool
  up_rename_ok :: bool
  up_dest_open_ok :: bool
  up_source_open_ok :: bool
  up_copy_fails :: "nat option"
  up_dest_flush_ok :: bool
  up_dest_mode_ok :: bool
  up_remove_ok :: bool
  up_cleanup_ok :: bool
  up_umask_mode :: nat

text \<open>The components of a path as the standard library normalises them.\<close>

definition path_components :: "string \<Rightarrow> path" where
  "path_components s = filter (\<lambda>c. c \<noteq> [] \<and> c \<noteq> ''.'') (split_char CHR ''/'' s)"

definition temporary_path :: "nat \<Rightarrow> nat \<Rightarrow> path \<Rightarrow> path" where
  "temporary_path pid upload_id p =
     (let named = (p \<noteq> [] \<and> last p \<noteq> ''..'');
          name = ''.'' @ (if named then last p else ''upload'') @ ''.pbox-upload-'' @ show_nat pid
                 @ ''-'' @ show_nat upload_id
      in (if named then butlast p else p) @ [name])"

text \<open>
  The state of an upload: the file system, the bytes counted and the bytes hashed. A
  chunk is refused before any of it is written; \<open>saturating_sub\<close> is subtraction on
  \<open>nat\<close>.
\<close>

record upload =
  up_fs :: fs
  up_size :: nat
  up_hashed :: string

definition append_file :: "path \<Rightarrow> string \<Rightarrow> fs \<Rightarrow> fs" where
  "append_file p bytes fs =
     (case fs p of Some (File c m) \<Rightarrow> fs(p \<mapsto> File (c @ bytes) m) | _ \<Rightarrow> fs)"

definition write_chunk ::
  "nat option \<Rightarrow> path \<Rightarrow> file_chunk \<Rightarrow> upload \<Rightarrow> (status, unit) result \<times> upload" where
  "write_chunk fails temporary chunk u =
     (let chunk_size = length (fc_data chunk)
      in if chunk_size > MAX_FILE_SIZE - up_size u
         then (Inl (St ResourceExhausted ''file exceeds the 64 MiB limit''), u)
         else case fails of
           Some k \<Rightarrow> (Inl internal_io, u\<lparr>up_fs := append_file temporary (take k (fc_data chunk)) (up_fs u)\<rparr>)
         | None \<Rightarrow> (Inr (), u\<lparr>up_fs := append_file temporary (fc_data chunk) (up_fs u),
             up_size := up_size u + chunk_size, up_hashed := up_hashed u @ fc_data chunk\<rparr>))"

definition ownership_error :: status where
  "ownership_error = St InvalidArgument ''file ownership metadata is not supported''"

text \<open>The chunks after the first one, until one carries the end marker.\<close>

fun upload_loop ::
  "upload_io \<Rightarrow> path \<Rightarrow> nat \<Rightarrow> file_chunk received list \<Rightarrow> upload
     \<Rightarrow> (status, file_chunk received list) result \<times> upload" where
  "upload_loop io temporary n [] u =
     (Inl (St InvalidArgument ''file stream ended before EOF marker''), u)"
| "upload_loop io temporary n (Late # rest) u =
     (Inl (St DeadlineExceeded ''file stream idle timeout''), u)"
| "upload_loop io temporary n (Fault e # rest) u = (Inl e, u)"
| "upload_loop io temporary n (Got chunk # rest) u =
     (if fc_version chunk \<noteq> 0 \<and> fc_version chunk \<noteq> PROTOCOL_VERSION then (Inl version_error, u)
      else if fc_uid chunk \<noteq> 0 \<or> fc_gid chunk \<noteq> 0 then (Inl ownership_error, u)
      else case write_chunk (up_write_fails io n) temporary chunk u of
          (Inl e, u') \<Rightarrow> (Inl e, u')
        | (Inr _, u') \<Rightarrow>
            if fc_eof chunk then (Inr rest, u') else upload_loop io temporary (Suc n) rest u')"

fun after_eof :: "file_chunk received list \<Rightarrow> (status, unit) result" where
  "after_eof [] = Inr ()"
| "after_eof (Late # _) = Inl (St DeadlineExceeded ''file stream post-EOF check timed out'')"
| "after_eof (Fault e # _) = Inl e"
| "after_eof (Got _ # _) = Inl (St InvalidArgument ''file stream sent data after EOF marker'')"

text \<open>Moving the finished temporary file to its destination.\<close>

definition commit_rename :: "upload_io \<Rightarrow> path \<Rightarrow> path \<Rightarrow> fs \<Rightarrow> (status, unit) result \<times> fs" where
  "commit_rename io temporary destination fs =
     (if \<not> up_rename_ok io \<or> fs destination = Some Dir then (Inl internal_io, fs)
      else (Inr (), fs(destination := fs temporary, temporary := None)))"

definition commit_copy :: "upload_io \<Rightarrow> nat \<Rightarrow> path \<Rightarrow> path \<Rightarrow> fs \<Rightarrow> (status, unit) result \<times> fs" where
  "commit_copy io mode temporary destination fs =
     (if \<not> up_dest_open_ok io \<or> fs destination = Some Dir \<or> is_symlink (fs destination)
      then (Inl internal_io, fs)
      else
        let old_mode = (case fs destination of Some (File _ m) \<Rightarrow> m | _ \<Rightarrow> up_umask_mode io);
            fs1 = fs(destination \<mapsto> File [] old_mode);
            content = the (node_contents (fs1 temporary))
        in if \<not> up_source_open_ok io then (Inl internal_io, fs1)
           else case up_copy_fails io of
               Some k \<Rightarrow> (Inl internal_io, append_file destination (take k content) fs1)
             | None \<Rightarrow>
                 let fs2 = append_file destination content fs1
                 in if \<not> up_dest_flush_ok io then (Inl internal_io, fs2)
                    else if mode \<noteq> 0 \<and> \<not> up_dest_mode_ok io then (Inl internal_io, fs2)
                    else let fs3 = (if mode \<noteq> 0 then set_node_mode destination (safe_mode mode) fs2 else fs2)
                         in if \<not> up_remove_ok io then (Inl internal_io, fs3)
                            else (Inr (), fs3(temporary := None)))"

definition commit ::
  "upload_io \<Rightarrow> file_chunk \<Rightarrow> path \<Rightarrow> path \<Rightarrow> fs \<Rightarrow> (status, unit) result \<times> fs" where
  "commit io first temporary destination fs =
     (if \<not> up_flush_ok io then (Inl internal_io, fs)
      else if fc_mode first \<noteq> 0 \<and> \<not> up_mode_ok io then (Inl internal_io, fs)
      else let fs1 = (if fc_mode first \<noteq> 0 then set_node_mode temporary (safe_mode (fc_mode first)) fs else fs)
           in if fc_atomic first then commit_rename io temporary destination fs1
              else commit_copy io (fc_mode first) temporary destination fs1)"

definition hex_nibble :: "nat \<Rightarrow> char" where
  "hex_nibble n = (if n < 10 then char_of (48 + n) else char_of (87 + n))"

definition hex_digest :: "string \<Rightarrow> string" where
  "hex_digest digest = concat (map (\<lambda>b. [hex_nibble (byte b div 16), hex_nibble (byte b mod 16)]) digest)"

text \<open>
  The body after the temporary file is created; the guard removes that file when the body
  fails. \<open>sha256\<close> is the digest function of the hash library.
\<close>

definition upload_body ::
  "(string \<Rightarrow> string) \<Rightarrow> upload_io \<Rightarrow> path \<Rightarrow> path \<Rightarrow> file_chunk \<Rightarrow> file_chunk received list \<Rightarrow> fs
     \<Rightarrow> (status, file_result) result \<times> fs" where
  "upload_body sha256 io temporary destination first rest fs =
     (let u = \<lparr>up_fs = fs, up_size = 0, up_hashed = []\<rparr>
      in if fc_uid first \<noteq> 0 \<or> fc_gid first \<noteq> 0 then (Inl ownership_error, fs)
         else case write_chunk (up_write_fails io 0) temporary first u of
             (Inl e, u1) \<Rightarrow> (Inl e, up_fs u1)
           | (Inr _, u1) \<Rightarrow>
               case (if fc_eof first then (Inr rest, u1) else upload_loop io temporary 1 rest u1) of
                 (Inl e, u2) \<Rightarrow> (Inl e, up_fs u2)
               | (Inr left, u2) \<Rightarrow>
                   case after_eof left of
                     Inl e \<Rightarrow> (Inl e, up_fs u2)
                   | Inr _ \<Rightarrow>
                       case commit io first temporary destination (up_fs u2) of
                         (Inl e, fs') \<Rightarrow> (Inl e, fs')
                       | (Inr _, fs') \<Rightarrow>
                           (Inr \<lparr>fr_size = up_size u2, fr_digest = hex_digest (sha256 (up_hashed u2))\<rparr>, fs'))"

definition receive_upload ::
  "(string \<Rightarrow> string) \<Rightarrow> upload_io \<Rightarrow> path \<Rightarrow> path \<Rightarrow> file_chunk \<Rightarrow> file_chunk received list \<Rightarrow> fs
     \<Rightarrow> (status, file_result) result \<times> fs" where
  "receive_upload sha256 io temporary destination first rest fs =
     (if \<not> up_create_ok io \<or> fs temporary \<noteq> None then (Inl internal_io, fs)
      else case upload_body sha256 io temporary destination first rest
                  (fs(temporary \<mapsto> File [] 384)) of
          (Inr r, fs') \<Rightarrow> (Inr r, fs')
        | (Inl e, fs') \<Rightarrow> (Inl e, if up_cleanup_ok io then fs'(temporary := None) else fs'))"

text \<open>
  The handler. \<open>handshakes\<close> and \<open>files\<close> are the free slots found when each
  permit is tried; the stream's first message opens the upload.
\<close>

definition put_file ::
  "(string \<Rightarrow> string) \<Rightarrow> upload_io \<Rightarrow> nat \<Rightarrow> nat \<Rightarrow> nat \<Rightarrow> nat \<Rightarrow> file_chunk received list \<Rightarrow> fs
     \<Rightarrow> (status, file_result) result \<times> fs" where
  "put_file sha256 io handshakes files pid upload_id stream fs =
     (if handshakes = 0 then (Inl (St ResourceExhausted ''too many concurrent handshakes''), fs)
      else case stream of
          [] \<Rightarrow> (Inl (St InvalidArgument ''file stream is empty''), fs)
        | Late # _ \<Rightarrow> (Inl (St DeadlineExceeded ''file handshake timed out''), fs)
        | Fault e # _ \<Rightarrow> (Inl e, fs)
        | Got first # rest \<Rightarrow>
            if fc_version first \<noteq> PROTOCOL_VERSION then (Inl version_error, fs)
            else if files = 0
            then (Inl (St ResourceExhausted ''too many concurrent file requests''), fs)
            else case safe_path (fc_path first) of
                Inl e \<Rightarrow> (Inl e, fs)
              | Inr p \<Rightarrow>
                  let destination = path_components p
                  in receive_upload sha256 io (temporary_path pid upload_id destination) destination
                       first rest fs)"

section \<open>Downloads\<close>

text \<open>
  Opening for a read follows no symbolic link; the mode sent is the whole \<open>st_mode\<close> of a
  regular file.
\<close>

definition open_for_read :: "bool \<Rightarrow> path \<Rightarrow> fs \<Rightarrow> (status, string \<times> nat) result" where
  "open_for_read open_ok p fs =
     (if \<not> open_ok then Inl internal_io
      else case fs p of
          None \<Rightarrow> Inl internal_io
        | Some (Symlink _) \<Rightarrow> Inl internal_io
        | Some Dir \<Rightarrow> Inl (St FailedPrecondition ''agent file reads require a regular file'')
        | Some (File c m) \<Rightarrow> Inr (c, 0x8000 + m))"

text \<open>A call of \<open>read\<close>: the bytes it returns, none at the end of the file.\<close>

datatype file_read = FileBytes string | ReadFailed

text \<open>
  The events sent for one open file. \<open>reads n\<close> is the outcome of the \<open>n\<close>th read, a
  buffer of 8192 bytes at most, and \<open>accepted n\<close> whether the \<open>n\<close>th chunk was
  taken by the channel; the file may grow while it is read.
\<close>

lemma remaining_decreases:
  "xs \<noteq> [] \<Longrightarrow> \<not> MAX_FILE_SIZE - sofar < length (take 8192 xs)
    \<Longrightarrow> MAX_FILE_SIZE - (sofar + length (take 8192 xs)) < MAX_FILE_SIZE - sofar"
  by (cases xs) auto

function read_loop ::
  "string \<Rightarrow> nat \<Rightarrow> (nat \<Rightarrow> bool) \<Rightarrow> (nat \<Rightarrow> file_read) \<Rightarrow> nat \<Rightarrow> bool \<Rightarrow> nat
     \<Rightarrow> (status, file_chunk) result list" where
  "read_loop path mode accepted reads n first sofar =
     (case reads n of
        ReadFailed \<Rightarrow> [Inl internal_io]
      | FileBytes bytes \<Rightarrow>
          let content = take 8192 bytes;
              chunk = default_chunk\<lparr>fc_path := if first then path else [],
                fc_mode := if first then mode else 0,
                fc_version := if first then PROTOCOL_VERSION else 0\<rparr>
          in if content = [] then [Inr (chunk\<lparr>fc_eof := True\<rparr>)]
             else if length content > MAX_FILE_SIZE - sofar
             then [Inl (St ResourceExhausted ''file exceeds the 64 MiB limit'')]
             else Inr (chunk\<lparr>fc_data := content\<rparr>)
               # (if accepted n
                  then read_loop path mode accepted reads (Suc n) False (sofar + length content)
                  else []))"
  by pat_completeness auto
termination
  by (relation "measure (\<lambda>(_, _, _, _, _, _, sofar). MAX_FILE_SIZE - sofar)")
     (use remaining_decreases in auto)

declare read_loop.simps [simp del]

text \<open>
  Reads of an unchanging file: each returns at least one byte while there are any left,
  \<open>short n\<close> more if the buffer holds them.
\<close>

fun file_reads :: "(nat \<Rightarrow> nat) \<Rightarrow> string \<Rightarrow> nat \<Rightarrow> file_read" where
  "file_reads short content 0 = FileBytes (take (min 8192 (Suc (short 0))) content)"
| "file_reads short content (Suc n) =
     file_reads (\<lambda>k. short (Suc k)) (drop (min 8192 (Suc (short 0))) content) n"

definition read_file ::
  "bool \<Rightarrow> (nat \<Rightarrow> bool) \<Rightarrow> (string \<Rightarrow> nat \<Rightarrow> file_read) \<Rightarrow> string \<Rightarrow> fs
     \<Rightarrow> (status, file_chunk) result list" where
  "read_file open_ok accepted reads path fs =
     (case open_for_read open_ok (path_components path) fs of
        Inl e \<Rightarrow> [Inl e]
      | Inr (content, mode) \<Rightarrow> read_loop path mode accepted (reads content) 0 True 0)"

definition get_file ::
  "nat \<Rightarrow> bool \<Rightarrow> (nat \<Rightarrow> bool) \<Rightarrow> (string \<Rightarrow> nat \<Rightarrow> file_read) \<Rightarrow> nat \<Rightarrow> string \<Rightarrow> fs
     \<Rightarrow> (status, (status, file_chunk) result list) result" where
  "get_file files open_ok accepted reads version path fs =
     (if version \<noteq> PROTOCOL_VERSION then Inl version_error
      else if files = 0 then Inl (St ResourceExhausted ''too many concurrent file requests'')
      else map_sum id (\<lambda>p. read_file open_ok accepted reads p fs) (safe_path path))"

text \<open>The client's collection of the stream.\<close>

fun collect_chunks ::
  "bool \<Rightarrow> bool \<Rightarrow> string \<Rightarrow> (status, file_chunk) result list \<Rightarrow> (client_error, string) result" where
  "collect_chunks complete first content [] =
     (if \<not> complete then Inl (Rpc (St Unknown ''agent file stream ended without EOF marker''))
      else Inr content)"
| "collect_chunks complete first content (Inl e # rest) = Inl (Rpc e)"
| "collect_chunks complete first content (Inr chunk # rest) =
     (if complete then Inl (Rpc (St InvalidArgument ''agent file stream sent data after EOF''))
      else if fc_version chunk \<noteq> (if first then PROTOCOL_VERSION else 0)
      then Inl (ProtocolMismatch PROTOCOL_VERSION (fc_version chunk))
      else if length content + length (fc_data chunk) > MAX_COLLECTED_BYTES
      then Inl (Rpc (St ResourceExhausted ''download exceeds the 64 MiB collection limit''))
      else collect_chunks (complete \<or> fc_eof chunk) False (content @ fc_data chunk) rest)"

definition collect_file_stream :: "(status, file_chunk) result list \<Rightarrow> (client_error, string) result" where
  "collect_file_stream = collect_chunks False True []"

section \<open>Uploads are all or nothing\<close>

lemma temporary_path_differs [simp]: "temporary_path pid n p \<noteq> p" "p \<noteq> temporary_path pid n p"
proof -
  have *: "temporary_path pid n p \<noteq> p"
  proof (cases "p \<noteq> [] \<and> last p \<noteq> ''..''")
    case True
    have "length (last (temporary_path pid n p)) > length (last p)"
      using True by (simp add: temporary_path_def Let_def)
    then show ?thesis by auto
  next
    case False
    then have "\<not> (p \<noteq> [] \<and> last p \<noteq> ''..'')" by simp
    then have "length (temporary_path pid n p) = Suc (length p)"
      unfolding temporary_path_def Let_def by (simp only: if_False length_append list.size)
    then show ?thesis by auto
  qed
  then show "temporary_path pid n p \<noteq> p" "p \<noteq> temporary_path pid n p" by auto
qed

text \<open>The temporary file holds exactly the bytes hashed and counted so far.\<close>

definition uploading :: "path \<Rightarrow> fs \<Rightarrow> nat \<Rightarrow> upload \<Rightarrow> bool" where
  "uploading t fs0 m u \<longleftrightarrow>
     up_fs u = fs0(t \<mapsto> File (up_hashed u) m) \<and> up_size u = length (up_hashed u)
     \<and> up_size u \<le> MAX_FILE_SIZE"

definition partial_upload :: "path \<Rightarrow> fs \<Rightarrow> nat \<Rightarrow> fs \<Rightarrow> bool" where
  "partial_upload t fs0 m fs \<longleftrightarrow> (\<exists>c. fs = fs0(t \<mapsto> File c m))"

lemma partial_uploadI [intro]: "partial_upload t fs0 m (fs0(t \<mapsto> File c m))"
  unfolding partial_upload_def by blast

lemma uploading_partial: "uploading t fs0 m u \<Longrightarrow> partial_upload t fs0 m (up_fs u)"
  unfolding uploading_def partial_upload_def by blast

fun upload_data :: "file_chunk received list \<Rightarrow> string" where
  "upload_data [] = []"
| "upload_data (Got chunk # rest) = fc_data chunk @ upload_data rest"
| "upload_data (_ # rest) = upload_data rest"

lemma payload_append [simp]: "upload_data (xs @ ys) = upload_data xs @ upload_data ys"
  by (induction xs rule: upload_data.induct) simp_all

lemma append_file_simps [simp]:
  "append_file t b (fs(t \<mapsto> File c m)) = fs(t \<mapsto> File (c @ b) m)"
  by (simp add: append_file_def)

lemma write_chunk_uploading:
  assumes "uploading t fs0 m u" and "write_chunk f t ch u = (r, u')"
  shows "(r = Inr () \<and> uploading t fs0 m u' \<and> up_hashed u' = up_hashed u @ fc_data ch)
    \<or> (\<exists>e. r = Inl e \<and> partial_upload t fs0 m (up_fs u'))"
  using assms
  by (auto simp: write_chunk_def uploading_def Let_def split: if_splits option.splits)

lemma upload_loop_uploading:
  assumes "uploading t fs0 m u" and "upload_loop io t n stream u = (r, u')"
  shows "(\<exists>left used. r = Inr left \<and> stream = used @ left \<and> uploading t fs0 m u'
            \<and> up_hashed u' = up_hashed u @ upload_data used)
    \<or> (\<exists>e. r = Inl e \<and> partial_upload t fs0 m (up_fs u'))"
  using assms
proof (induction io t n stream u rule: upload_loop.induct)
  case (4 io t n chunk rest u)
  obtain w u1 where w: "write_chunk (up_write_fails io n) t chunk u = (w, u1)"
    by (cases "write_chunk (up_write_fails io n) t chunk u")
  show ?case
  proof (cases "fc_version chunk \<noteq> 0 \<and> fc_version chunk \<noteq> PROTOCOL_VERSION
      \<or> fc_uid chunk \<noteq> 0 \<or> fc_gid chunk \<noteq> 0")
    case True
    with 4(3) obtain e where "r = Inl e" "u' = u" by (auto split: if_splits)
    with 4(2) show ?thesis by (simp add: uploading_partial)
  next
    case False
    from write_chunk_uploading[OF 4(2) w] show ?thesis
    proof (elim disjE exE conjE)
      assume ok: "w = Inr ()" "uploading t fs0 m u1" "up_hashed u1 = up_hashed u @ fc_data chunk"
      show ?thesis
      proof (cases "fc_eof chunk")
        case True
        with False w ok 4(3) have "r = Inr rest" "u' = u1" by auto
        with ok show ?thesis by (intro disjI1 exI[of _ rest] exI[of _ "[Got chunk]"]) simp
      next
        case more: False
        with False w ok 4(3) have "upload_loop io t (Suc n) rest u1 = (r, u')" by auto
        from 4(1)[OF _ _ w[symmetric] ok(1) more ok(2) this] False ok(3) show ?thesis
          by (auto intro: exI[of _ "Got chunk # _"])
      qed
    next
      fix e assume "w = Inl e" "partial_upload t fs0 m (up_fs u1)"
      with False w 4(3) show ?thesis by auto
    qed
  qed
qed (auto simp: uploading_partial)

lemma set_node_mode_file [simp]:
  "set_node_mode t m (fs(t \<mapsto> File c x)) = fs(t \<mapsto> File c m)"
  by (simp add: set_node_mode_def)

text \<open>The mode an upload leaves on its destination.\<close>

definition final_mode :: "upload_io \<Rightarrow> file_chunk \<Rightarrow> node option \<Rightarrow> nat" where
  "final_mode io first old =
     (if fc_mode first \<noteq> 0 then safe_mode (fc_mode first)
      else if fc_atomic first then 384
      else case old of Some (File _ m) \<Rightarrow> m | _ \<Rightarrow> up_umask_mode io)"

text \<open>What a commit, successful or not, may do.\<close>

definition commit_effect ::
  "upload_io \<Rightarrow> file_chunk \<Rightarrow> path \<Rightarrow> path \<Rightarrow> fs \<Rightarrow> string \<Rightarrow> bool \<Rightarrow> fs \<Rightarrow> bool" where
  "commit_effect io first t d fs0 c done fs' \<longleftrightarrow>
     (\<forall>p. p \<noteq> d \<longrightarrow> p \<noteq> t \<longrightarrow> fs' p = fs0 p)
     \<and> (done \<longrightarrow> fs' d = Some (File c (final_mode io first (fs0 d))) \<and> fs' t = None)
     \<and> (\<not> done \<and> (fc_atomic first \<or> is_symlink (fs0 d) \<or> fs0 d = Some Dir) \<longrightarrow> fs' d = fs0 d)
     \<and> (done \<longrightarrow> fs0 d \<noteq> Some Dir \<and> (is_symlink (fs0 d) \<longrightarrow> fc_atomic first))"

lemma commit_rename_effect:
  assumes "t \<noteq> d" and "fc_atomic first"
    and "commit_rename io t d (fs0(t \<mapsto> File c (final_mode io first (fs0 d)))) = (r, fs')"
  shows "commit_effect io first t d fs0 c (is_ok r) fs'"
  using assms by (auto simp: commit_rename_def commit_effect_def split: if_splits)

lemma append_file_at: "fs d = Some (File x m) \<Longrightarrow> append_file d b fs = fs(d \<mapsto> File (x @ b) m)"
  by (simp add: append_file_def)

lemma set_node_mode_at: "fs d = Some (File x k) \<Longrightarrow> set_node_mode d m fs = fs(d \<mapsto> File x m)"
  by (simp add: set_node_mode_def)

lemma commit_copy_eq:
  assumes "t \<noteq> d" and "fs t = Some (File c m)" and "up_dest_open_ok io"
    and "fs d \<noteq> Some Dir" and "\<not> is_symlink (fs d)"
  defines "old \<equiv> (case fs d of Some (File _ m) \<Rightarrow> m | _ \<Rightarrow> up_umask_mode io)"
  shows "commit_copy io mode t d fs =
     (if \<not> up_source_open_ok io then (Inl internal_io, fs(d \<mapsto> File [] old))
      else case up_copy_fails io of
          Some k \<Rightarrow> (Inl internal_io, fs(d \<mapsto> File (take k c) old))
        | None \<Rightarrow>
            if \<not> up_dest_flush_ok io \<or> mode \<noteq> 0 \<and> \<not> up_dest_mode_ok io
            then (Inl internal_io, fs(d \<mapsto> File c old))
            else if \<not> up_remove_ok io
            then (Inl internal_io, fs(d \<mapsto> File c (if mode \<noteq> 0 then safe_mode mode else old)))
            else (Inr (), fs(d \<mapsto> File c (if mode \<noteq> 0 then safe_mode mode else old), t := None)))"
  using assms(1-5)
  by (simp add: commit_copy_def Let_def old_def append_file_at set_node_mode_at cong: option.case_cong if_cong)

lemma partial_copy_effect:
  assumes "t \<noteq> d" and "fs0 d \<noteq> Some Dir" and "\<not> is_symlink (fs0 d)" and "\<not> fc_atomic first"
  shows "commit_effect io first t d fs0 c False (fs0(t \<mapsto> n, d \<mapsto> n'))"
  using assms by (simp add: commit_effect_def)

lemma full_copy_effect:
  assumes "t \<noteq> d" and "fs0 d \<noteq> Some Dir" and "\<not> is_symlink (fs0 d)" and "\<not> fc_atomic first"
    and "m = final_mode io first (fs0 d)"
  shows "commit_effect io first t d fs0 c True (fs0(t \<mapsto> n, d \<mapsto> File c m, t := None))"
  using assms by (simp add: commit_effect_def)

lemma commit_copy_effect:
  assumes "t \<noteq> d" and "\<not> fc_atomic first"
    and "commit_copy io (fc_mode first) t d (fs0(t \<mapsto> File c m)) = (r, fs')"
  shows "commit_effect io first t d fs0 c (is_ok r) fs'"
proof (cases "\<not> up_dest_open_ok io \<or> fs0 d = Some Dir \<or> is_symlink (fs0 d)")
  case True
  then have "commit_copy io (fc_mode first) t d (fs0(t \<mapsto> File c m)) = (Inl internal_io, fs0(t \<mapsto> File c m))"
    using assms(1) by (simp add: commit_copy_def)
  with assms show ?thesis by (auto simp: commit_effect_def)
next
  case False
  then have d: "fs0 d \<noteq> Some Dir" "\<not> is_symlink (fs0 d)" by simp_all
  define k where "k = (case fs0 d of Some (File _ m) \<Rightarrow> m | _ \<Rightarrow> up_umask_mode io)"
  have mode: "(if fc_mode first \<noteq> 0 then safe_mode (fc_mode first) else k) = final_mode io first (fs0 d)"
    using assms(2) by (simp add: final_mode_def k_def)
  note eq = commit_copy_eq[of t d "fs0(t \<mapsto> File c m)" c m io "fc_mode first"]
  have "(r = Inl internal_io \<and> (\<exists>n'. fs' = fs0(t \<mapsto> File c m, d \<mapsto> n')))
    \<or> (r = Inr () \<and> fs' = fs0(t \<mapsto> File c m, d \<mapsto> File c (final_mode io first (fs0 d)), t := None))"
    using assms(1,3) False unfolding mode[symmetric] k_def
    by (subst (asm) eq) (auto split: option.splits if_splits)
  then show ?thesis
    using partial_copy_effect[of t d fs0 first io c, OF assms(1) d assms(2)]
      full_copy_effect[of t d fs0 first _ io c, OF assms(1) d assms(2) refl] by auto
qed

lemma commit_eq:
  "commit io first t d (fs0(t \<mapsto> File c 384)) =
     (if \<not> up_flush_ok io \<or> fc_mode first \<noteq> 0 \<and> \<not> up_mode_ok io
      then (Inl internal_io, fs0(t \<mapsto> File c 384))
      else let fs1 = fs0(t \<mapsto> File c (if fc_mode first \<noteq> 0 then safe_mode (fc_mode first) else 384))
           in if fc_atomic first then commit_rename io t d fs1
              else commit_copy io (fc_mode first) t d fs1)"
  by (simp add: commit_def)

lemma commit_preserves:
  assumes "t \<noteq> d" and "commit io first t d (fs0(t \<mapsto> File c 384)) = (r, fs')"
  shows "commit_effect io first t d fs0 c (is_ok r) fs'"
proof (cases "\<not> up_flush_ok io \<or> fc_mode first \<noteq> 0 \<and> \<not> up_mode_ok io")
  case True
  with assms(2) have "r = Inl internal_io" "fs' = fs0(t \<mapsto> File c 384)"
    unfolding commit_eq by simp_all
  with assms(1) show ?thesis by (simp add: commit_effect_def)
next
  case ok: False
  define m where "m = (if fc_mode first \<noteq> 0 then safe_mode (fc_mode first) else 384)"
  show ?thesis
  proof (cases "fc_atomic first")
    case True
    have "m = final_mode io first (fs0 d)" using True by (simp add: final_mode_def m_def)
    moreover have "commit_rename io t d (fs0(t \<mapsto> File c m)) = (r, fs')"
      using assms(2) ok True unfolding commit_eq Let_def m_def[symmetric] by (simp split: if_splits)
    ultimately show ?thesis using commit_rename_effect[OF assms(1) True] by simp
  next
    case False
    have "commit_copy io (fc_mode first) t d (fs0(t \<mapsto> File c m)) = (r, fs')"
      using assms(2) ok False unfolding commit_eq Let_def m_def[symmetric] by (simp split: if_splits)
    then show ?thesis by (rule commit_copy_effect[OF assms(1) False])
  qed
qed

text \<open>The whole upload.\<close>

lemma upload_body_effect:
  assumes "t \<noteq> d" and "upload_body sha io t d first rest (fs0(t \<mapsto> File [] 384)) = (r, fs')"
  defines "c \<equiv> fc_data first @ upload_data rest"
  shows "(\<exists>res. r = Inr res \<and> commit_effect io first t d fs0 c True fs'
            \<and> length c \<le> MAX_FILE_SIZE \<and> fr_size res = length c \<and> fr_digest res = hex_digest (sha c))
    \<or> (\<exists>e. r = Inl e \<and> (\<exists>c'. commit_effect io first t d fs0 c' False fs'))"
proof -
  let ?u = "\<lparr>up_fs = fs0(t \<mapsto> File [] 384), up_size = 0, up_hashed = []\<rparr>"
  have start: "uploading t fs0 384 ?u" by (simp add: uploading_def)
  have failed: "\<exists>c'. commit_effect io first t d fs0 c' False fs" if "partial_upload t fs0 384 fs" for fs
    using that assms(1) by (auto simp: partial_upload_def commit_effect_def)
  obtain w u1 where w: "write_chunk (up_write_fails io 0) t first ?u = (w, u1)"
    by (cases "write_chunk (up_write_fails io 0) t first ?u")
  obtain l u2 where l: "(if fc_eof first then (Inr rest, u1) else upload_loop io t 1 rest u1) = (l, u2)"
    by (cases "if fc_eof first then (Inr rest, u1) else upload_loop io t 1 rest u1")
  note body = assms(2)[unfolded upload_body_def Let_def w]
  show ?thesis
  proof (cases "fc_uid first \<noteq> 0 \<or> fc_gid first \<noteq> 0")
    case True
    with body have "r = Inl ownership_error" "fs' = fs0(t \<mapsto> File [] 384)" by simp_all
    with failed show ?thesis by blast
  next
    case False
    from write_chunk_uploading[OF start w] show ?thesis
    proof (elim disjE exE conjE)
      fix e assume e: "w = Inl e" "partial_upload t fs0 384 (up_fs u1)"
      with body False have "r = Inl e" "fs' = up_fs u1" by auto
      with failed[OF e(2)] show ?thesis by blast
    next
      assume ok: "w = Inr ()" "uploading t fs0 384 u1" "up_hashed u1 = up_hashed ?u @ fc_data first"
      have loop: "(\<exists>left used. l = Inr left \<and> rest = used @ left \<and> uploading t fs0 384 u2
            \<and> up_hashed u2 = up_hashed u1 @ upload_data used)
          \<or> (\<exists>e. l = Inl e \<and> partial_upload t fs0 384 (up_fs u2))"
      proof (cases "fc_eof first")
        case True
        with l ok(2) show ?thesis by (intro disjI1 exI[of _ rest] exI[of _ "[]"]) auto
      next
        case more: False
        with l have "upload_loop io t 1 rest u1 = (l, u2)" by simp
        from upload_loop_uploading[OF ok(2) this] show ?thesis .
      qed
      from loop show ?thesis
      proof (elim disjE exE conjE)
        fix e assume e: "l = Inl e" "partial_upload t fs0 384 (up_fs u2)"
        with body False ok(1) l have "r = Inl e" "fs' = up_fs u2" by auto
        with failed[OF e(2)] show ?thesis by blast
      next
        fix left used
        assume fin: "l = Inr left" "rest = used @ left" "uploading t fs0 384 u2"
          "up_hashed u2 = up_hashed u1 @ upload_data used"
        show ?thesis
        proof (cases "after_eof left")
          case (Inl e)
          with body False ok(1) l fin(1) have "r = Inl e" "fs' = up_fs u2" by simp_all
          with failed[OF uploading_partial[OF fin(3)]] show ?thesis by blast
        next
          case (Inr a)
          then have "left = []" by (cases left rule: after_eof.cases) simp_all
          then have c: "up_hashed u2 = c" using fin(2,4) ok(3) by (simp add: c_def)
          obtain q fs2 where q: "commit io first t d (up_fs u2) = (q, fs2)"
            by (cases "commit io first t d (up_fs u2)")
          then have "commit_effect io first t d fs0 c (is_ok q) fs2"
            using commit_preserves[OF assms(1)] fin(3) c by (simp add: uploading_def)
          with body False ok(1) l fin(1,3) Inr q c show ?thesis
            by (cases q) (auto simp: uploading_def)
        qed
      qed
    qed
  qed
qed

lemma receive_upload_cases:
  assumes "receive_upload sha io t d first rest fs = (r, fs')"
  shows "(\<exists>e. r = Inl e \<and> fs' = fs)
    \<or> (fs t = None \<and> (\<exists>fs1. upload_body sha io t d first rest (fs(t \<mapsto> File [] 384)) = (r, fs1)
         \<and> fs' = (if is_ok r \<or> \<not> up_cleanup_ok io then fs1 else fs1(t := None))))"
proof -
  obtain q fs1 where q: "upload_body sha io t d first rest (fs(t \<mapsto> File [] 384)) = (q, fs1)"
    by (cases "upload_body sha io t d first rest (fs(t \<mapsto> File [] 384))")
  show ?thesis
  proof (cases "\<not> up_create_ok io \<or> fs t \<noteq> None")
    case True
    with assms show ?thesis by (auto simp: receive_upload_def)
  next
    case False
    with assms q show ?thesis by (cases q) (auto simp: receive_upload_def)
  qed
qed

lemma put_file_cases:
  assumes "put_file sha io handshakes files pid n (Got first # rest) fs = (r, fs')"
    and "d = path_components (fc_path first)" and "t = temporary_path pid n d"
  shows "(\<exists>e. r = Inl e \<and> fs' = fs) \<or> receive_upload sha io t d first rest fs = (r, fs')"
  using assms by (auto simp: put_file_def safe_path_def Let_def split: if_splits)

lemma put_file_outcome:
  assumes "put_file sha io handshakes files pid n (Got first # rest) fs = (r, fs')"
    and "d = path_components (fc_path first)" and "t = temporary_path pid n d"
  shows "(\<forall>p. p = d \<or> p = t \<or> fs' p = fs p) \<and>
      (case r of Inl e \<Rightarrow> (if fc_atomic first \<or> is_symlink (fs d) then fs' d = fs d else True)
           \<and> (if up_cleanup_ok io then fs' t = fs t else True)
       | Inr res \<Rightarrow> fs' d = Some (File (upload_data (Got first # rest)) (final_mode io first (fs d))) \<and> fs' t = None
           \<and> length (upload_data (Got first # rest)) \<le> 64 * 1024 * 1024
           \<and> fr_size res = length (upload_data (Got first # rest))
           \<and> fr_digest res = hex_digest (sha (upload_data (Got first # rest)))
           \<and> (fc_atomic first \<or> \<not> is_symlink (fs d)))"
proof -
  have td: "t \<noteq> d" using assms(3) by simp
  from put_file_cases[OF assms]
  consider e where "r = Inl e" "fs' = fs"
    | fs1 where "fs t = None" "upload_body sha io t d first rest (fs(t \<mapsto> File [] 384)) = (r, fs1)"
        "fs' = (if is_ok r \<or> \<not> up_cleanup_ok io then fs1 else fs1(t := None))"
    using receive_upload_cases[of sha io t d first rest fs r fs'] by blast
  then show ?thesis
  proof cases
    case 1
    then show ?thesis by simp
  next
    case 2
    from upload_body_effect[OF td 2(2)] 2(1,3) td show ?thesis
      by (elim disjE exE conjE) (auto simp: commit_effect_def MAX_FILE_SIZE_def)
  qed
qed


definition cut_upload :: "file_chunk received list" where
  "cut_upload = [Got (default_chunk\<lparr>fc_path := ''/f'', fc_atomic := True, fc_data := ''ab'',
     fc_version := PROTOCOL_VERSION\<rparr>)]"

definition steady_io :: upload_io where
  "steady_io = \<lparr>up_create_ok = True, up_write_fails = (\<lambda>_. None), up_flush_ok = True, up_mode_ok = True,
     up_rename_ok = True, up_dest_open_ok = True, up_source_open_ok = True, up_copy_fails = None,
     up_dest_flush_ok = True, up_dest_mode_ok = True, up_remove_ok = True, up_cleanup_ok = True,
     up_umask_mode = 420\<rparr>"


section \<open>Downloads are complete or refused\<close>

fun got_bytes :: "file_read \<Rightarrow> string" where
  "got_bytes (FileBytes b) = take 8192 b"
| "got_bytes ReadFailed = []"

lemma read_loop_unfold:
  "read_loop path mode accepted reads n first sofar =
     (if reads n = ReadFailed then [Inl internal_io]
      else let chunk = default_chunk\<lparr>fc_path := if first then path else [],
                fc_mode := if first then mode else 0,
                fc_version := if first then PROTOCOL_VERSION else 0\<rparr>;
               content = got_bytes (reads n)
           in if content = [] then [Inr (chunk\<lparr>fc_eof := True\<rparr>)]
              else if length content > MAX_FILE_SIZE - sofar
              then [Inl (St ResourceExhausted ''file exceeds the 64 MiB limit'')]
              else Inr (chunk\<lparr>fc_data := content\<rparr>)
                # (if accepted n
                   then read_loop path mode accepted reads (Suc n) False (sofar + length content) else []))"
  by (subst read_loop.simps) (auto split: file_read.splits simp: Let_def)

lemma read_loop_induct [case_names step]:
  assumes step: "\<And>n first sofar.
      (got_bytes (reads n) \<noteq> [] \<Longrightarrow> length (got_bytes (reads n)) \<le> MAX_FILE_SIZE - sofar
        \<Longrightarrow> P (Suc n) False (sofar + length (got_bytes (reads n)))) \<Longrightarrow> P n first sofar"
  shows "P n first (sofar :: nat)"
proof (induction "MAX_FILE_SIZE - sofar" arbitrary: n first sofar rule: less_induct)
  case less
  show ?case
  proof (rule step)
    assume "got_bytes (reads n) \<noteq> []" "length (got_bytes (reads n)) \<le> MAX_FILE_SIZE - sofar"
    moreover from this have "0 < length (got_bytes (reads n))" by simp
    ultimately show "P (Suc n) False (sofar + length (got_bytes (reads n)))"
      by (intro less) linarith
  qed
qed

lemma default_chunk_simps [simp]:
  "fc_path default_chunk = []" "fc_mode default_chunk = 0" "fc_uid default_chunk = 0"
  "fc_gid default_chunk = 0" "\<not> fc_atomic default_chunk" "fc_data default_chunk = []"
  "\<not> fc_eof default_chunk" "fc_version default_chunk = 0"
  by (simp_all add: default_chunk_def)

lemma protocol_version_simps [simp]: "PROTOCOL_VERSION \<noteq> 0" "0 < PROTOCOL_VERSION"
  by (simp_all add: PROTOCOL_VERSION_def)

fun event_data :: "(status, file_chunk) result \<Rightarrow> string" where
  "event_data (Inr chunk) = fc_data chunk"
| "event_data (Inl _) = []"

lemma read_loop_length:
  "length (read_loop path mode accepted reads n first sofar) \<le> Suc (MAX_FILE_SIZE - sofar)
   \<and> length (concat (map event_data (read_loop path mode accepted reads n first sofar))) \<le> MAX_FILE_SIZE - sofar"
proof (induction n first sofar rule: read_loop_induct[of reads])
  case (step n first sofar)
  let ?b = "got_bytes (reads n)"
  show ?case
  proof (cases "reads n = ReadFailed \<or> ?b = [] \<or> length ?b > MAX_FILE_SIZE - sofar")
    case True
    then show ?thesis by (subst (1 2) read_loop_unfold) (auto simp: Let_def)
  next
    case False
    then have more: "?b \<noteq> []" "length ?b \<le> MAX_FILE_SIZE - sofar" by auto
    then obtain j where j: "length ?b = Suc j" by (cases ?b) simp_all
    have unf: "read_loop path mode accepted reads n first sofar =
        Inr (default_chunk\<lparr>fc_path := if first then path else [], fc_mode := if first then mode else 0,
               fc_version := if first then PROTOCOL_VERSION else 0, fc_data := ?b\<rparr>)
        # (if accepted n
           then read_loop path mode accepted reads (Suc n) False (sofar + length ?b) else [])"
      using False by (subst read_loop_unfold) (simp add: Let_def)
    show ?thesis unfolding unf using step[OF more] more(2) j by auto
  qed
qed

lemma collect_read_loop:
  assumes "collect_chunks False first acc (take k (read_loop path mode accepted reads n first sofar)) = Inr d"
  shows "\<exists>m \<ge> n. reads m \<noteq> ReadFailed \<and> got_bytes (reads m) = []
    \<and> d = acc @ concat (map (\<lambda>i. got_bytes (reads i)) [n..<m])"
  using assms
proof (induction n first sofar arbitrary: acc k rule: read_loop_induct[of reads])
  case (step n first sofar)
  let ?b = "got_bytes (reads n)"
  from step.prems obtain k' where k: "k = Suc k'" by (cases k) simp_all
  show ?case
  proof (cases "reads n = ReadFailed \<or> ?b = [] \<or> length ?b > MAX_FILE_SIZE - sofar")
    case True
    with step.prems show ?thesis
      unfolding k by (subst (asm) read_loop_unfold) (auto simp: Let_def split: if_splits)
  next
    case False
    then have more: "?b \<noteq> []" "length ?b \<le> MAX_FILE_SIZE - sofar" by auto
    from step.prems False have "collect_chunks False False (acc @ ?b) (take k'
        (if accepted n then read_loop path mode accepted reads (Suc n) False (sofar + length ?b) else [])) = Inr d"
      unfolding k by (subst (asm) read_loop_unfold) (auto simp: Let_def split: if_splits)
    moreover from this have "accepted n" by (cases "accepted n") simp_all
    ultimately have "collect_chunks False False (acc @ ?b)
        (take k' (read_loop path mode accepted reads (Suc n) False (sofar + length ?b))) = Inr d" by simp
    from step.IH[OF more this] obtain m where
      "Suc n \<le> m" "reads m \<noteq> ReadFailed" "got_bytes (reads m) = []"
      "d = (acc @ ?b) @ concat (map (\<lambda>i. got_bytes (reads i)) [Suc n..<m])" by blast
    moreover from this have "[n..<m] = n # [Suc n..<m]" by (simp add: upt_conv_Cons)
    ultimately show ?thesis by (intro exI[of _ m]) simp
  qed
qed

text \<open>Reads of an unchanging file return all of it.\<close>

lemma collect_reads:
  assumes "\<And>i. reads (n + i) = file_reads short c i" and "length acc = sofar"
    and "sofar + length c \<le> MAX_FILE_SIZE"
  shows "collect_chunks False first acc (read_loop path mode (\<lambda>_. True) reads n first sofar) = Inr (acc @ c)"
  using assms
proof (induction n first sofar arbitrary: acc short c rule: read_loop_induct[of reads])
  case (step n first sofar)
  define k where "k = min 8192 (Suc (short 0))"
  have k: "k \<le> 8192" "0 < k" by (simp_all add: k_def)
  have "reads n = FileBytes (take k c)" using step.prems(1)[of 0] by (simp add: k_def)
  with k(1) have b: "reads n \<noteq> ReadFailed" "got_bytes (reads n) = take k c" by simp_all
  show ?case
  proof (cases c)
    case Nil
    with b step.prems(2,3) show ?thesis
      by (subst read_loop_unfold) (simp add: Let_def MAX_COLLECTED_BYTES_def MAX_FILE_SIZE_def)
  next
    case (Cons x xs)
    have len: "length (take k c) + length (drop k c) = length c" by simp
    have more: "got_bytes (reads n) \<noteq> []" "length (got_bytes (reads n)) \<le> MAX_FILE_SIZE - sofar"
    proof -
      show "got_bytes (reads n) \<noteq> []" using Cons k(2) b(2) by simp
      show "length (got_bytes (reads n)) \<le> MAX_FILE_SIZE - sofar"
        unfolding b(2) using len step.prems(3) by linarith
    qed
    have "reads (Suc n + i) = file_reads (\<lambda>k. short (Suc k)) (drop k c) i" for i
      using step.prems(1)[of "Suc i"] by (simp add: k_def)
    moreover have "length (acc @ take k c) = sofar + length (got_bytes (reads n))"
      using step.prems(2) b(2) by simp
    moreover have "sofar + length (got_bytes (reads n)) + length (drop k c) \<le> MAX_FILE_SIZE"
      using step.prems(3) len unfolding b(2) by linarith
    ultimately have "collect_chunks False False (acc @ take k c) (read_loop path mode (\<lambda>_. True) reads (Suc n) False
        (sofar + length (got_bytes (reads n)))) = Inr ((acc @ take k c) @ drop k c)"
      by (rule step.IH[OF more])
    then have rest: "collect_chunks False False (acc @ take k c) (read_loop path mode (\<lambda>_. True) reads (Suc n) False
        (sofar + length (take k c))) = Inr (acc @ c)" unfolding b(2) by simp
    have small: "\<not> MAX_COLLECTED_BYTES < length acc + length (take k c)"
      using step.prems(2,3) len by (simp add: MAX_COLLECTED_BYTES_def MAX_FILE_SIZE_def)
    have unf: "read_loop path mode (\<lambda>_. True) reads n first sofar =
        Inr (default_chunk\<lparr>fc_path := if first then path else [], fc_mode := if first then mode else 0,
               fc_version := if first then PROTOCOL_VERSION else 0, fc_data := take k c\<rparr>)
        # read_loop path mode (\<lambda>_. True) reads (Suc n) False (sofar + length (take k c))"
      using b(1) more unfolding b(2) by (subst read_loop_unfold) (simp only: b Let_def not_less if_False if_True simp_thms leD)
    show ?thesis unfolding unf using rest small by simp
  qed
qed

text \<open>
  C16: Reading a file ends: whatever the reads return, a growing file included, the agent
  sends at most one event more than the 64 MiB limit has bytes, and at most 64 MiB of data.
\<close>

theorem download_bounded:
  "length (read_file open_ok accepted reads path fs) \<le> 64 * 1024 * 1024 + 1
   \<and> length (concat (map event_data (read_file open_ok accepted reads path fs))) \<le> 64 * 1024 * 1024"
  using read_loop_length[of path _ accepted _ 0 True 0]
  by (auto simp: read_file_def MAX_FILE_SIZE_def split: sum.splits)

text \<open>
  A download that the client accepts is complete: even when the stream is cut after any
  number of events, the collected bytes are all the agent read up to the end of the file,
  in order.
\<close>

theorem download_complete:
  assumes "collect_file_stream (take k (read_file open_ok accepted reads path fs)) = Inr bytes"
  shows "\<exists>content mode m. open_for_read open_ok (path_components path) fs = Inr (content, mode)
    \<and> got_bytes (reads content m) = [] \<and> reads content m \<noteq> ReadFailed
    \<and> bytes = concat (map (\<lambda>i. got_bytes (reads content i)) [0..<m])"
proof (cases "open_for_read open_ok (path_components path) fs")
  case (Inl e)
  with assms show ?thesis by (cases k) (simp_all add: read_file_def collect_file_stream_def)
next
  case (Inr opened)
  obtain content mode where o: "opened = (content, mode)" by (cases opened)
  with Inr assms have "collect_chunks False True []
      (take k (read_loop path mode accepted (reads content) 0 True 0)) = Inr bytes"
    by (simp add: read_file_def collect_file_stream_def)
  from collect_read_loop[OF this] Inr o show ?thesis by auto
qed

definition small_fs :: fs where
  "small_fs = [[''f''] \<mapsto> File ''ab'' 420]"

lemma small_fs_reads:
  "read_file True (\<lambda>_. True) (file_reads (\<lambda>_. 0)) ''/f'' small_fs
     = read_loop ''/f'' 33188 (\<lambda>_. True) (file_reads (\<lambda>_. 0) ''ab'') 0 True 0"
proof -
  have "path_components ''/f'' = [''f'']" by code_simp
  then show ?thesis by (simp add: read_file_def open_for_read_def small_fs_def)
qed

lemma download_complete_witness:
  "\<exists>m. concat (map (\<lambda>i. got_bytes (file_reads (\<lambda>_. 0) ''ab'' i)) [0..<m]) = ''ab''"
proof -
  let ?events = "read_file True (\<lambda>_. True) (file_reads (\<lambda>_. 0)) ''/f'' small_fs"
  have "collect_file_stream ?events = Inr ''ab''"
    unfolding small_fs_reads collect_file_stream_def
    by (subst collect_reads[where short = "\<lambda>_. 0" and c = "''ab''"]) (simp_all add: MAX_FILE_SIZE_def)
  then have "collect_file_stream (take (length ?events) ?events) = Inr ''ab''" by simp
  from download_complete[OF this] obtain content mode m where
    "open_for_read True (path_components ''/f'') small_fs = Inr (content, mode)"
    "''ab'' = concat (map (\<lambda>i. got_bytes (file_reads (\<lambda>_. 0) content i)) [0..<m])" by blast
  moreover have "path_components ''/f'' = [''f'']" by code_simp
  ultimately show ?thesis by (auto simp: open_for_read_def small_fs_def)
qed

section \<open>What is put is what is got\<close>

lemma concat_chunks_of [simp]: "0 < n \<Longrightarrow> concat (chunks_of n xs) = xs"
  by (induction n xs rule: chunks_of.induct) (subst chunks_of.simps, simp)

lemma chunks_of_Nil_iff [simp]: "0 < n \<Longrightarrow> chunks_of n xs = [] \<longleftrightarrow> xs = []"
  by (subst chunks_of.simps) simp

definition io_succeeds :: "upload_io \<Rightarrow> bool" where
  "io_succeeds io \<longleftrightarrow> up_create_ok io \<and> (\<forall>n. up_write_fails io n = None) \<and> up_flush_ok io \<and> up_mode_ok io
     \<and> up_rename_ok io \<and> up_dest_open_ok io \<and> up_source_open_ok io \<and> up_copy_fails io = None
     \<and> up_dest_flush_ok io \<and> up_dest_mode_ok io \<and> up_remove_ok io"

definition later_chunk :: "string \<Rightarrow> file_chunk" where
  "later_chunk b = default_chunk\<lparr>fc_data := b\<rparr>"

definition final_chunk :: file_chunk where
  "final_chunk = default_chunk\<lparr>fc_eof := True\<rparr>"

lemma upload_chunks_shape:
  "\<exists>first bs. upload_chunks path content mode atomic_write
       = first # map later_chunk bs @ (if content = [] then [] else [final_chunk])
    \<and> fc_path first = path \<and> fc_mode first = mode \<and> fc_atomic first = atomic_write
    \<and> fc_uid first = 0 \<and> fc_gid first = 0 \<and> fc_version first = PROTOCOL_VERSION
    \<and> (fc_eof first \<longleftrightarrow> content = []) \<and> fc_data first @ concat bs = content
    \<and> (content = [] \<longrightarrow> bs = [])"
proof (cases "content = []")
  case True
  then show ?thesis by (simp add: upload_chunks_def)
next
  case False
  then obtain b bs where bs: "chunks_of 8192 content = b # bs"
    by (cases "chunks_of 8192 content") auto
  have "map (\<lambda>(index, chunk). default_chunk\<lparr>fc_path := if index = 0 then path else [],
      fc_mode := if index = 0 then mode else 0, fc_atomic := index = 0 \<and> atomic_write, fc_data := chunk,
      fc_eof := False, fc_version := if index = 0 then PROTOCOL_VERSION else 0\<rparr>) (enumerate (Suc 0) cs)
      = map later_chunk cs" for cs :: "string list"
    by (rule nth_equalityI) (simp_all add: nth_enumerate_eq later_chunk_def default_chunk_def)
  moreover have "b @ concat bs = content"
    using concat_chunks_of[of 8192 content] bs by simp
  ultimately show ?thesis
    using False by (simp add: upload_chunks_def bs final_chunk_def) blast
qed

lemma upload_loop_later:
  assumes "\<forall>k. up_write_fails io k = None" and "uploading t fs0 m u"
    and "length (up_hashed u) + length (concat bs) \<le> MAX_FILE_SIZE"
  shows "\<exists>u'. upload_loop io t n (map Got (map later_chunk bs @ [final_chunk])) u = (Inr [], u')
    \<and> uploading t fs0 m u' \<and> up_hashed u' = up_hashed u @ concat bs"
  using assms(2,3)
proof (induction bs arbitrary: n u)
  case Nil
  obtain w u1 where w: "write_chunk None t final_chunk u = (w, u1)"
    by (cases "write_chunk None t final_chunk u")
  then have ok: "w = Inr ()" by (auto simp: write_chunk_def final_chunk_def)
  with write_chunk_uploading[OF Nil(1) w] w assms(1) show ?case by (simp add: final_chunk_def)
next
  case (Cons b bs)
  obtain w u1 where w: "write_chunk None t (later_chunk b) u = (w, u1)"
    by (cases "write_chunk None t (later_chunk b) u")
  with Cons.prems have ok: "w = Inr ()"
    by (auto simp: write_chunk_def later_chunk_def uploading_def Let_def split: if_splits)
  with write_chunk_uploading[OF Cons.prems(1) w]
  have u1: "uploading t fs0 m u1" "up_hashed u1 = up_hashed u @ b" by (simp_all add: later_chunk_def)
  with Cons.prems(2) have "length (up_hashed u1) + length (concat bs) \<le> MAX_FILE_SIZE" by simp
  from Cons.IH[OF u1(1) this, of "Suc n"] u1(2) w ok assms(1) show ?case
    by (auto simp: later_chunk_def)
qed

lemma commit_succeeds:
  assumes "io_succeeds io" and "t \<noteq> d" and "fs0 d \<noteq> Some Dir"
    and "fc_atomic first \<or> \<not> is_symlink (fs0 d)"
  shows "\<exists>fs'. commit io first t d (fs0(t \<mapsto> File c 384)) = (Inr (), fs')"
proof -
  have ok: "\<not> (\<not> up_flush_ok io \<or> fc_mode first \<noteq> 0 \<and> \<not> up_mode_ok io)"
    using assms(1) by (simp add: io_succeeds_def)
  show ?thesis
  proof (cases "fc_atomic first")
    case True
    with assms ok show ?thesis by (simp add: commit_eq commit_rename_def io_succeeds_def)
  next
    case False
    with assms ok show ?thesis
      by (simp add: commit_eq io_succeeds_def commit_copy_eq[of t d _ c])
  qed
qed

lemma receive_upload_ok:
  assumes "io_succeeds io" and "t \<noteq> d" and "fs t = None" and "fs d \<noteq> Some Dir"
    and "mode_atomic \<or> \<not> is_symlink (fs d)" and "length content \<le> MAX_FILE_SIZE"
    and "upload_chunks path content mode mode_atomic = first # rest"
  shows "\<exists>res fs'. receive_upload sha io t d first (map Got rest) fs = (Inr res, fs')"
proof -
  obtain bs where first: "rest = map later_chunk bs @ (if content = [] then [] else [final_chunk])"
      "fc_atomic first = mode_atomic" "fc_uid first = 0" "fc_gid first = 0"
      "fc_eof first \<longleftrightarrow> content = []" "fc_data first @ concat bs = content"
      "content = [] \<longrightarrow> bs = []"
    using upload_chunks_shape[of path content mode mode_atomic] assms(7) by auto
  let ?u = "\<lparr>up_fs = fs(t \<mapsto> File [] 384), up_size = 0, up_hashed = []\<rparr>"
  have io: "up_write_fails io k = None" "up_create_ok io" for k
    using assms(1) by (simp_all add: io_succeeds_def)
  have size: "length (fc_data first) + length (concat bs) \<le> MAX_FILE_SIZE"
    using assms(6) first(6) by (metis length_append)
  have start: "uploading t fs 384 ?u" by (simp add: uploading_def)
  obtain w u1 where w: "write_chunk None t first ?u = (w, u1)"
    by (cases "write_chunk None t first ?u")
  then have wok: "w = Inr ()" using size by (auto simp: write_chunk_def Let_def split: if_splits)
  with write_chunk_uploading[OF start w]
  have u1: "uploading t fs 384 u1" "up_hashed u1 = fc_data first" by simp_all
  have loop: "\<exists>u2. (if fc_eof first then (Inr (map Got rest), u1) else upload_loop io t 1 (map Got rest) u1)
      = (Inr [], u2) \<and> uploading t fs 384 u2"
  proof (cases "content = []")
    case True
    with first u1 show ?thesis by simp
  next
    case False
    with upload_loop_later[of io t fs 384 u1 bs 1] io u1 size first(1,5) show ?thesis by auto
  qed
  then obtain u2 where u2: "(if fc_eof first then (Inr (map Got rest), u1)
      else upload_loop io t 1 (map Got rest) u1) = (Inr [], u2)" "uploading t fs 384 u2" by blast
  obtain fs' where "commit io first t d (up_fs u2) = (Inr (), fs')"
    using commit_succeeds[of io t d fs first "up_hashed u2", OF assms(1,2,4)] assms(5) first(2) u2(2)
    by (auto simp: uploading_def)
  with u2(1) w wok io assms(3) first(3,4) show ?thesis
    by (simp add: receive_upload_def upload_body_def)
qed

text \<open>
  C15: What the client puts it can get back: for contents of at most 64 MiB whose upload
  meets no I/O failure, the client's chunks are accepted by the agent, and reading the path
  afterwards, in whatever pieces the reads return, gives the client the same bytes.
\<close>

theorem transfer_roundtrip:
  assumes "length content \<le> 64 * 1024 * 1024" and "io_succeeds io"
    and "safe_path path = Inr path" and "d = path_components path"
    and "fs (temporary_path pid n d) = None" and "fs d \<noteq> Some Dir"
    and "atomic_write \<or> \<not> is_symlink (fs d)"
  shows "\<exists>chunks res fs'. client_put_file path content mode atomic_write = Inr chunks
    \<and> put_file sha io (Suc handshakes) (Suc files) pid n (map Got chunks) fs = (Inr res, fs')
    \<and> fr_size res = length content
    \<and> collect_file_stream (read_file True (\<lambda>_. True) (file_reads short) path fs') = Inr content"
proof -
  obtain first bs where shape: "upload_chunks path content mode atomic_write
       = first # map later_chunk bs @ (if content = [] then [] else [final_chunk])"
      "fc_path first = path" "fc_version first = PROTOCOL_VERSION" "fc_data first @ concat bs = content"
    using upload_chunks_shape[of path content mode atomic_write] by auto
  let ?rest = "map later_chunk bs @ (if content = [] then [] else [final_chunk])"
  have small: "length content \<le> MAX_FILE_SIZE" using assms(1) by (simp add: MAX_FILE_SIZE_def)
  obtain res fs' where up: "receive_upload sha io (temporary_path pid n d) d first (map Got ?rest) fs = (Inr res, fs')"
    using receive_upload_ok[OF assms(2) _ assms(5,6,7) small shape(1), of sha] by auto
  then have put: "put_file sha io (Suc handshakes) (Suc files) pid n (Got first # map Got ?rest) fs = (Inr res, fs')"
    using shape(2,3) assms(3,4) by (simp add: put_file_def)
  have later: "upload_data (map Got (map later_chunk cs)) = concat cs" for cs
    by (induction cs) (simp_all add: later_chunk_def)
  have data: "upload_data (Got first # map Got ?rest) = content"
    using later[of bs] shape(4) by (simp add: final_chunk_def)
  have d: "path_components (fc_path first) = d" using shape(2) assms(4) by simp
  have stored: "fs' d = Some (File content (final_mode io first (fs d)))" "fr_size res = length content"
    using put_file_outcome[OF put d[symmetric] refl] unfolding data by simp_all
  have "collect_file_stream (read_file True (\<lambda>_. True) (file_reads short) path fs') = Inr content"
    using collect_reads[of "file_reads short content" 0 short content "[]" 0 True] small stored(1) assms(4)
    by (simp add: read_file_def open_for_read_def collect_file_stream_def)
  moreover have "client_put_file path content mode atomic_write = Inr (first # ?rest)"
    using assms(1) shape(1) by (simp add: client_put_file_def MAX_COLLECTED_BYTES_def)
  ultimately show ?thesis using put stored(2)
    by (intro exI[of _ "first # ?rest"] exI[of _ res] exI[of _ fs']) simp
qed

lemma transfer_roundtrip_witness:
  "\<exists>chunks res fs'. client_put_file ''/f'' ''hello'' 420 True = Inr chunks
    \<and> put_file rev steady_io (Suc 0) (Suc 0) 7 9 (map Got chunks) Map.empty = (Inr res, fs')
    \<and> fr_size res = length ''hello''
    \<and> collect_file_stream (read_file True (\<lambda>_. True) (file_reads (\<lambda>_. 0)) ''/f'' fs') = Inr ''hello''"
proof -
  have "safe_path ''/f'' = Inr ''/f''" by code_simp
  moreover have "io_succeeds steady_io" by (simp add: io_succeeds_def steady_io_def)
  moreover have "length ''hello'' \<le> 64 * 1024 * 1024" by simp
  ultimately show ?thesis
    using transfer_roundtrip[of "''hello''" steady_io "''/f''" "path_components ''/f''" Map.empty 7 9 True 420 rev 0 0
        "\<lambda>_. 0"] by (simp del: list.size)
qed

end
