(* ===== verification/ExecStreams.thy ===== *)
theory ExecStreams
  imports AgentRequests
begin

text \<open>
  The streams of a running command: the client's input task and its collection of the
  output (\<open>crates/pbox-agent-client/src/lib.rs\<close>), the agent's input and output loops,
  the wait for the child and the final event (\<open>crates/pbox-agent/src/main.rs\<close>). What
  a pipe, a timer or a channel does next is an input of each loop.
\<close>

section \<open>The client's input\<close>

datatype exec_input = IData string | IResize nat nat | IEof | IDetach

text \<open>An event of the input task: an input, or the keep-alive timer.\<close>

datatype pump_event = PInput exec_input | PTick

definition keepalive_request :: exec_request where
  "keepalive_request = default_exec_request\<lparr>xr_version := PROTOCOL_VERSION\<rparr>"

definition input_request :: "exec_input \<Rightarrow> exec_request" where
  "input_request input =
     (let (stdin, stdin_eof, rows, cols) =
            (case input of
               IData bytes \<Rightarrow> (bytes, False, 0, 0)
             | IResize rows cols \<Rightarrow> ([], False, rows, cols)
             | IEof \<Rightarrow> ([], True, 0, 0)
             | IDetach \<Rightarrow> ([], True, 0, 0))
      in default_exec_request\<lparr>xr_version := PROTOCOL_VERSION, xr_stdin := stdin,
           xr_stdin_eof := stdin_eof, xr_rows := rows, xr_cols := cols\<rparr>)"

text \<open>
  The requests sent. \<open>accepted n\<close> tells whether the channel is still open for the
  \<open>n\<close>th send: once it is closed the last end-of-input request fails as well. The end of
  the list is the caller dropping its sender.
\<close>

fun input_pump :: "(nat \<Rightarrow> bool) \<Rightarrow> nat \<Rightarrow> pump_event list \<Rightarrow> exec_request list" where
  "input_pump accepted n [] =
     (if accepted n then [keepalive_request\<lparr>xr_stdin_eof := True\<rparr>] else [])"
| "input_pump accepted n (PTick # rest) =
     (if accepted n then keepalive_request # input_pump accepted (Suc n) rest else [])"
| "input_pump accepted n (PInput input # rest) =
     (if accepted n
      then input_request input
        # (if xr_stdin_eof (input_request input) then [] else input_pump accepted (Suc n) rest)
      else [])"

section \<open>The agent's input loop\<close>

text \<open>
  What a write to the command's input does: all bytes written, or a time-out or an I/O error
  (\<open>EIO\<close> or another) after some of them.
\<close>

datatype write_outcome = WDone | WLate nat | WFailed nat bool

record stdin_sink =
  ss_bytes :: string
  ss_resizes :: "(nat \<times> nat) list"
  ss_shutdown :: bool

definition write_stdin :: "write_outcome \<Rightarrow> bool \<Rightarrow> string \<Rightarrow> stdin_sink \<Rightarrow> (status, unit) result \<times> stdin_sink" where
  "write_stdin outcome pty bytes sink =
     (case outcome of
        WDone \<Rightarrow> (Inr (), sink\<lparr>ss_bytes := ss_bytes sink @ bytes\<rparr>)
      | WLate k \<Rightarrow> (Inl (St DeadlineExceeded ''stdin write timed out''),
          sink\<lparr>ss_bytes := ss_bytes sink @ take k bytes\<rparr>)
      | WFailed k eio \<Rightarrow> (if pty \<and> eio then Inr () else Inl internal_io,
          sink\<lparr>ss_bytes := ss_bytes sink @ take k bytes\<rparr>))"

text \<open>A terminal has no half-close: its end-of-file byte is written instead.\<close>

definition VEOF :: char where "VEOF = CHR 0x04"

definition finish_stdin :: "write_outcome \<Rightarrow> bool \<Rightarrow> stdin_sink \<Rightarrow> (status, unit) result \<times> stdin_sink" where
  "finish_stdin outcome pty sink =
     (case outcome of
        WDone \<Rightarrow> (Inr (), if pty then sink\<lparr>ss_bytes := ss_bytes sink @ [VEOF]\<rparr> else sink\<lparr>ss_shutdown := True\<rparr>)
      | WLate _ \<Rightarrow> (Inl (St DeadlineExceeded ''stdin shutdown timed out''), sink)
      | WFailed _ eio \<Rightarrow> (if pty \<and> eio then Inr () else Inl internal_io, sink))"

definition resize_pty :: "bool \<Rightarrow> nat \<Rightarrow> nat \<Rightarrow> stdin_sink \<Rightarrow> (status, unit) result \<times> stdin_sink" where
  "resize_pty ok rows cols sink =
     (if ok then (Inr (), sink\<lparr>ss_resizes := ss_resizes sink @ [(min rows U16_MAX, min cols U16_MAX)]\<rparr>)
      else (Inl internal_io, sink))"

text \<open>
  The loop over the requests after the first. \<open>writes n\<close> and \<open>resizes n\<close> are the
  outcomes of the calls made for the \<open>n\<close>th request, \<open>closing n\<close> that of finishing then.
\<close>

record stdin_io =
  si_writes :: "nat \<Rightarrow> write_outcome"
  si_resizes :: "nat \<Rightarrow> bool"
  si_closing :: "nat \<Rightarrow> write_outcome"

fun stdin_loop ::
  "stdin_io \<Rightarrow> bool \<Rightarrow> bool \<Rightarrow> nat \<Rightarrow> exec_request received list \<Rightarrow> stdin_sink
     \<Rightarrow> (status, unit) result \<times> stdin_sink" where
  "stdin_loop io pty has_fd n [] sink = finish_stdin (si_closing io n) pty sink"
| "stdin_loop io pty has_fd n (Late # rest) sink =
     (Inl (St DeadlineExceeded ''stdin stream idle timeout''), sink)"
| "stdin_loop io pty has_fd n (Fault e # rest) sink = (Inl e, sink)"
| "stdin_loop io pty has_fd n (Got r # rest) sink =
     (if xr_version r \<noteq> PROTOCOL_VERSION then (Inl version_error, sink)
      else
        let (resized, sink1) =
              (if xr_rows r > 0 \<and> xr_cols r > 0 \<and> has_fd
               then resize_pty (si_resizes io n) (xr_rows r) (xr_cols r) sink else (Inr (), sink))
        in case resized of
             Inl e \<Rightarrow> (Inl e, sink1)
           | Inr _ \<Rightarrow>
               let (written, sink2) =
                     (if xr_stdin r \<noteq> [] then write_stdin (si_writes io n) pty (xr_stdin r) sink1
                      else (Inr (), sink1))
               in case written of
                    Inl e \<Rightarrow> (Inl e, sink2)
                  | Inr _ \<Rightarrow>
                      if xr_stdin_eof r then finish_stdin (si_closing io n) pty sink2
                      else stdin_loop io pty has_fd (Suc n) rest sink2)"

definition forward_stdin ::
  "stdin_io \<Rightarrow> bool \<Rightarrow> bool \<Rightarrow> string \<Rightarrow> bool \<Rightarrow> exec_request received list \<Rightarrow> stdin_sink
     \<Rightarrow> (status, unit) result \<times> stdin_sink" where
  "forward_stdin io pty has_fd initial_data initial_eof requests sink =
     (let (written, sink1) =
            (if initial_data \<noteq> [] then write_stdin (si_writes io 0) pty initial_data sink else (Inr (), sink))
      in case written of
           Inl e \<Rightarrow> (Inl e, sink1)
         | Inr _ \<Rightarrow>
             if initial_eof then finish_stdin (si_closing io 0) pty sink1
             else stdin_loop io pty has_fd 1 requests sink1)"

section \<open>The agent's output loop\<close>

text \<open>
  A read of the command's output: the bytes waiting (none at the end), \<open>EIO\<close> (how a
  terminal ends), another error, or, while output is coalesced, the timer. A read takes what
  fits in the buffer and leaves the rest for the next one.
\<close>

datatype output_read = ORead string | OEio | OError | OTimer

definition unread :: "string \<Rightarrow> output_read list \<Rightarrow> output_read list" where
  "unread bytes reads = (if bytes = [] then reads else ORead bytes # reads)"

fun read_weight :: "output_read \<Rightarrow> nat" where
  "read_weight (ORead bytes) = Suc (length bytes)"
| "read_weight _ = 1"

definition PTY_OUTPUT_COALESCE_SIZE :: nat where "PTY_OUTPUT_COALESCE_SIZE = 1024"

text \<open>
  Waiting for more of a short terminal read: the bytes gathered, whether the output ended
  and the reads left, or an error.
\<close>

fun coalesce :: "string \<Rightarrow> output_read list \<Rightarrow> (unit, string \<times> bool \<times> output_read list) result" where
  "coalesce buffer [] = Inr (buffer, False, [])"
| "coalesce buffer (r # reads) =
     (if length buffer \<ge> PTY_OUTPUT_COALESCE_SIZE then Inr (buffer, False, r # reads)
      else case r of
          OTimer \<Rightarrow> Inr (buffer, False, reads)
        | ORead bytes \<Rightarrow>
            let room = 8192 - length buffer
            in if bytes = [] then Inr (buffer, True, reads)
               else if length bytes \<le> room then coalesce (buffer @ bytes) reads
               else Inr (buffer @ take room bytes, False, unread (drop room bytes) reads)
        | OEio \<Rightarrow> Inr (buffer, True, reads)
        | OError \<Rightarrow> Inl ())"

lemma unread_weight: "sum_list (map read_weight (unread bytes reads)) \<le> Suc (length bytes) + sum_list (map read_weight reads)"
  by (simp add: unread_def)

lemma coalesce_shrinks:
  "coalesce buffer reads = Inr (b, eof, left)
    \<Longrightarrow> sum_list (map read_weight left) \<le> sum_list (map read_weight reads)"
proof (induction buffer reads rule: coalesce.induct)
  case (2 buffer r reads)
  show ?case
  proof (cases r)
    case (ORead bytes)
    with 2 show ?thesis by (fastforce simp: Let_def unread_def split: if_splits)
  qed (use 2 in \<open>auto split: if_splits\<close>)
qed simp

lemma rest_shrinks:
  assumes "(if b then coalesce (take 8192 bytes) (unread (drop 8192 bytes) reads)
      else Inr (take 8192 bytes, False, unread (drop 8192 bytes) reads)) = Inr (buffer, eof, left)"
    and "bytes \<noteq> []"
  shows "sum_list (map read_weight left) < Suc (length bytes + sum_list (map read_weight reads))"
proof -
  have "sum_list (map read_weight left) \<le> sum_list (map read_weight (unread (drop 8192 bytes) reads))"
    using assms(1) coalesce_shrinks by (auto split: if_splits)
  also have "\<dots> < Suc (length bytes + sum_list (map read_weight reads))"
    using assms(2) by (auto simp: unread_def)
  finally show ?thesis .
qed

text \<open>
  The events sent and whether the task signalled a failure. \<open>accepted n\<close>: the
  \<open>n\<close>th event was taken by the channel in time. The end of the list is a read still
  pending, which the drain timer aborts.
\<close>

function send_output ::
  "bool \<Rightarrow> bool \<Rightarrow> (nat \<Rightarrow> bool) \<Rightarrow> nat \<Rightarrow> output_read list \<Rightarrow> (status, exec_event) result list \<times> bool" where
  "send_output stdout pty accepted n [] = ([], False)"
| "send_output stdout pty accepted n (OTimer # reads) = send_output stdout pty accepted n reads"
| "send_output stdout pty accepted n (OEio # reads) =
     (if pty then ([], False) else ([Inl internal_io], True))"
| "send_output stdout pty accepted n (OError # reads) = ([Inl internal_io], True)"
| "send_output stdout pty accepted n (ORead bytes # reads) =
     (let got = take 8192 bytes; waiting = unread (drop 8192 bytes) reads
      in if got = [] then ([], False)
         else case (if pty \<and> length got < PTY_OUTPUT_COALESCE_SIZE then coalesce got waiting
                    else Inr (got, False, waiting)) of
             Inl _ \<Rightarrow> ([Inl internal_io], True)
           | Inr (buffer, eof, left) \<Rightarrow>
               let event = Inr (if stdout then Stdout buffer else Stderr buffer)
               in if \<not> accepted n then ([], True)
                  else if eof then ([event], False)
                  else let (events, failed) = send_output stdout pty accepted (Suc n) left
                       in (event # events, failed))"
  by pat_completeness auto
termination
  by (relation "measure (\<lambda>(_, _, _, _, reads). sum_list (map read_weight reads))")
     (auto dest: rest_shrinks)

declare send_output.simps [simp del]

section \<open>Waiting for the command\<close>

text \<open>What ends the wait, and how the process group is dealt with.\<close>

datatype wait_cause = ChildExited | ClientGone | OutputFailed | DeadlinePassed

datatype child_action = KillGroup | Terminate

definition wait_for_child :: "wait_cause \<Rightarrow> bool \<Rightarrow> status option \<times> child_action list" where
  "wait_for_child cause process_group =
     (case cause of
        ChildExited \<Rightarrow> (None, if process_group then [KillGroup] else [])
      | ClientGone \<Rightarrow> (None, [Terminate])
      | OutputFailed \<Rightarrow> (None, [Terminate])
      | DeadlinePassed \<Rightarrow> (Some (St DeadlineExceeded ''command execution timed out''), [Terminate]))"

text \<open>The first of the wait and the input task to finish.\<close>

datatype first_done = WaitDone wait_cause | InputDone wait_cause | InputFailed status | InputPanicked

definition wait_for_child_with_input :: "first_done \<Rightarrow> bool \<Rightarrow> status option \<times> child_action list \<times> bool" where
  "wait_for_child_with_input event process_group =
     (case event of
        WaitDone cause \<Rightarrow> (let (e, acts) = wait_for_child cause process_group in (e, acts, False))
      | InputDone cause \<Rightarrow> (let (e, acts) = wait_for_child cause process_group in (e, acts, True))
      | InputFailed e \<Rightarrow> (Some e, [Terminate], True)
      | InputPanicked \<Rightarrow> (Some (St Internal ''stdin task failed''), [Terminate], True))"

text \<open>The status reaped from the command: an exit code or a signal; waiting itself may fail.\<close>

datatype exit_status = Exited int | Signaled int

definition send_exit :: "exit_status option \<Rightarrow> (status, exec_event) result" where
  "send_exit status =
     (case status of
        None \<Rightarrow> Inl (St Internal ''wait for command'')
      | Some (Exited code) \<Rightarrow> Inr (Exit code 0)
      | Some (Signaled signal) \<Rightarrow> Inr (Exit (- 1) signal))"

text \<open>
  How the two output tasks share the channel: \<open>True\<close> takes the next standard-output event,
  \<open>False\<close> the next of standard error, until both are exhausted.
\<close>

fun merge :: "bool list \<Rightarrow> 'a list \<Rightarrow> 'a list \<Rightarrow> 'a list" where
  "merge _ [] ys = ys"
| "merge _ xs [] = xs"
| "merge [] xs ys = xs @ ys"
| "merge (True # sch) (x # xs) ys = x # merge sch xs ys"
| "merge (False # sch) xs (y # ys) = y # merge sch xs ys"

text \<open>The events of one run without a terminal.\<close>

datatype start_failure = PrepareFailed string | OpenPtyFailed | PtyIoFailed | SpawnFailed

definition start_status :: "bool \<Rightarrow> start_failure \<Rightarrow> status" where
  "start_status pty failure =
     (case failure of
        PrepareFailed reason \<Rightarrow> St InvalidArgument reason
      | OpenPtyFailed \<Rightarrow> St Internal ''create PTY''
      | PtyIoFailed \<Rightarrow> internal_io
      | SpawnFailed \<Rightarrow> St Internal (if pty then ''spawn PTY command'' else ''spawn command''))"

record command_run =
  cr_failure :: "start_failure option"
  cr_stdout :: "output_read list"
  cr_stderr :: "output_read list"
  cr_accepted :: "bool \<Rightarrow> nat \<Rightarrow> bool"
  cr_schedule :: "bool list"
  cr_first_done :: first_done
  cr_status :: "exit_status option"

definition final_event :: "command_run \<Rightarrow> (status, exec_event) result" where
  "final_event run =
     (case wait_for_child_with_input (cr_first_done run) True of
        (Some e, _, _) \<Rightarrow> Inl e
      | (None, _, _) \<Rightarrow> send_exit (cr_status run))"

definition run_piped_command :: "command_run \<Rightarrow> (status, exec_event) result list" where
  "run_piped_command run =
     (case cr_failure run of
        Some failure \<Rightarrow> [Inl (start_status False failure)]
      | None \<Rightarrow>
          merge (cr_schedule run)
            (fst (send_output True False (cr_accepted run True) 0 (cr_stdout run)))
            (fst (send_output False False (cr_accepted run False) 0 (cr_stderr run)))
          @ [final_event run])"

text \<open>On a terminal, with what a waiting \<open>start\<close> is told.\<close>

definition run_pty_command ::
  "command_run \<Rightarrow> (status, unit) result \<times> (status, exec_event) result list" where
  "run_pty_command run =
     (case cr_failure run of
        Some failure \<Rightarrow> (Inl (start_status True failure), [Inl (start_status True failure)])
      | None \<Rightarrow> (Inr (),
          fst (send_output True True (cr_accepted run True) 0 (cr_stdout run)) @ [final_event run]))"

section \<open>The client's collection\<close>

record exec_result =
  er_stdout :: string
  er_stderr :: string
  er_code :: int
  er_signal :: int
  er_exited :: bool

definition empty_result :: exec_result where
  "empty_result = \<lparr>er_stdout = [], er_stderr = [], er_code = 0, er_signal = 0, er_exited = False\<rparr>"

definition MAX_COLLECTED :: nat where "MAX_COLLECTED = 64 * 1024 * 1024"

text \<open>\<open>None\<close> is an event whose field is unset.\<close>

fun collect_exec ::
  "exec_result \<Rightarrow> (status, exec_event option) result list \<Rightarrow> (client_error, exec_result) result" where
  "collect_exec result [] =
     (if \<not> er_exited result then Inl (Rpc (St Unknown ''agent exec stream ended without exit status''))
      else Inr result)"
| "collect_exec result (Inl e # rest) = Inl (Rpc e)"
| "collect_exec result (Inr event # rest) =
     (if er_exited result then Inl (Rpc (St InvalidArgument ''agent exec stream sent data after exit''))
      else case event of
          Some (Stdout bytes) \<Rightarrow>
            if length (er_stdout result) + length bytes > MAX_COLLECTED
            then Inl (Rpc (St ResourceExhausted ''stdout exceeds the 64 MiB collection limit''))
            else collect_exec (result\<lparr>er_stdout := er_stdout result @ bytes\<rparr>) rest
        | Some (Stderr bytes) \<Rightarrow>
            if length (er_stderr result) + length bytes > MAX_COLLECTED
            then Inl (Rpc (St ResourceExhausted ''stderr exceeds the 64 MiB collection limit''))
            else collect_exec (result\<lparr>er_stderr := er_stderr result @ bytes\<rparr>) rest
        | Some (Exit code signal) \<Rightarrow>
            collect_exec (result\<lparr>er_code := code, er_signal := signal, er_exited := True\<rparr>) rest
        | None \<Rightarrow> Inl (Rpc (St InvalidArgument ''agent exec stream sent an empty event'')))"

definition collect_exec_stream ::
  "(status, exec_event option) result list \<Rightarrow> (client_error, exec_result) result" where
  "collect_exec_stream = collect_exec empty_result"

section \<open>Input reaches the command unchanged\<close>

text \<open>What the caller of the client asked for: bytes and sizes up to the first end of input.\<close>

fun typed :: "pump_event list \<Rightarrow> string" where
  "typed [] = []"
| "typed (PTick # es) = typed es"
| "typed (PInput (IData bytes) # es) = bytes @ typed es"
| "typed (PInput (IResize rows cols) # es) = typed es"
| "typed (PInput IEof # es) = []"
| "typed (PInput IDetach # es) = []"

fun resized :: "pump_event list \<Rightarrow> (nat \<times> nat) list" where
  "resized [] = []"
| "resized (PTick # es) = resized es"
| "resized (PInput (IData bytes) # es) = resized es"
| "resized (PInput (IResize rows cols) # es) =
     (if rows > 0 \<and> cols > 0 then [(min rows U16_MAX, min cols U16_MAX)] else []) @ resized es"
| "resized (PInput IEof # es) = []"
| "resized (PInput IDetach # es) = []"

definition flowing :: stdin_io where
  "flowing = \<lparr>si_writes = \<lambda>_. WDone, si_resizes = \<lambda>_. True, si_closing = \<lambda>_. WDone\<rparr>"

text \<open>The command's input after all of it arrived and was closed.\<close>

definition delivered :: "bool \<Rightarrow> bool \<Rightarrow> string \<Rightarrow> (nat \<times> nat) list \<Rightarrow> stdin_sink \<Rightarrow> stdin_sink" where
  "delivered pty has_fd bytes sizes sink =
     sink\<lparr>ss_bytes := ss_bytes sink @ bytes @ (if pty then [VEOF] else []),
       ss_resizes := ss_resizes sink @ (if has_fd then sizes else []),
       ss_shutdown := ss_shutdown sink \<or> \<not> pty\<rparr>"

lemma default_exec_request_simps [simp]:
  "xr_version default_exec_request = 0" "xr_stdin default_exec_request = []"
  "\<not> xr_stdin_eof default_exec_request" "xr_rows default_exec_request = 0" "xr_cols default_exec_request = 0"
  by (simp_all add: default_exec_request_def)

lemma flowing_simps [simp]:
  "si_writes flowing n = WDone" "si_resizes flowing n" "si_closing flowing n = WDone"
  by (simp_all add: flowing_def)

lemma stdin_loop_flowing:
  "stdin_loop flowing pty has_fd n (map Got (input_pump (\<lambda>_. True) k es)) sink
     = (Inr (), delivered pty has_fd (typed es) (resized es) sink)"
proof (induction es arbitrary: n k sink)
  case Nil
  show ?case by (simp add: keepalive_request_def finish_stdin_def delivered_def)
next
  case (Cons e es)
  show ?case
  proof (cases e)
    case PTick
    with Cons show ?thesis by (simp add: keepalive_request_def)
  next
    case (PInput input)
    with Cons show ?thesis
      by (cases input)
         (auto simp: input_request_def write_stdin_def finish_stdin_def resize_pty_def delivered_def)
  qed
qed

text \<open>
  C22: What is typed is what the command reads: for every sequence of inputs, resizes and
  keep-alives, the client's requests and the agent's loop together deliver the initial bytes
  and then exactly the bytes given before the end of input, apply exactly the non-empty
  resizes, and close the input once: a pipe by shutting it down, a terminal with the
  end-of-file byte.
\<close>

theorem exec_input_refines:
  "forward_stdin flowing pty has_fd initial False (map Got (input_pump (\<lambda>_. True) k es)) sink
     = (Inr (), delivered pty has_fd (initial @ typed es) (resized es) sink)"
  by (cases initial)
     (simp_all add: forward_stdin_def stdin_loop_flowing write_stdin_def delivered_def)

section \<open>Output is collected exactly\<close>

text \<open>The bytes a command produced, up to the end of its output.\<close>

fun produced :: "output_read list \<Rightarrow> string" where
  "produced [] = []"
| "produced (ORead bytes # reads) = (if bytes = [] then [] else bytes @ produced reads)"
| "produced (OTimer # reads) = produced reads"
| "produced (OEio # reads) = []"
| "produced (OError # reads) = []"

definition clean_reads :: "bool \<Rightarrow> output_read list \<Rightarrow> bool" where
  "clean_reads pty reads \<longleftrightarrow> list_all (\<lambda>r. r \<noteq> OError \<and> (r = OEio \<longrightarrow> pty)) reads"

lemma clean_reads_simps [simp]:
  "clean_reads pty []" "clean_reads pty (ORead b # rs) \<longleftrightarrow> clean_reads pty rs"
  "clean_reads pty (OTimer # rs) \<longleftrightarrow> clean_reads pty rs"
  "clean_reads pty (OEio # rs) \<longleftrightarrow> pty \<and> clean_reads pty rs"
  "\<not> clean_reads pty (OError # rs)" "clean_reads pty (unread b rs) \<longleftrightarrow> clean_reads pty rs"
  by (auto simp: clean_reads_def unread_def)

lemma produced_unread [simp]: "produced (unread b rs) = b @ produced rs"
  by (simp add: unread_def)

lemma take_drop_append [simp]: "take n xs @ drop n xs @ ys = xs @ ys"
  by (metis append_assoc append_take_drop_id)

lemma coalesce_exact:
  assumes "clean_reads pty reads"
  shows "\<exists>b eof left. coalesce buffer reads = Inr (b, eof, left) \<and> clean_reads pty left
    \<and> buffer @ produced reads = (if eof then b else b @ produced left)"
  using assms
proof (induction buffer reads rule: coalesce.induct)
  case (2 buffer r reads)
  show ?case
  proof (cases "length buffer \<ge> PTY_OUTPUT_COALESCE_SIZE")
    case True
    with 2(2) show ?thesis by (simp add: exI[of _ False])
  next
    case False
    show ?thesis
    proof (cases r)
      case (ORead bytes)
      show ?thesis
      proof (cases "bytes \<noteq> [] \<and> length bytes \<le> 8192 - length buffer")
        case True
        with ORead False have "coalesce buffer (r # reads) = coalesce (buffer @ bytes) reads"
          by (simp add: Let_def)
        moreover have "buffer @ produced (r # reads) = (buffer @ bytes) @ produced reads"
          using True ORead by simp
        moreover have "clean_reads pty reads" using 2(2) ORead by simp
        ultimately show ?thesis using 2(1)[OF False ORead refl] True by simp
      next
        case stop: False
        show ?thesis
        proof (cases "bytes = []")
          case True
          with 2(2) ORead False show ?thesis by (simp add: Let_def exI[of _ True])
        next
          case big: False
          with 2(2) ORead False stop show ?thesis by (simp add: Let_def exI[of _ False])
        qed
      qed
    next
      case OEio
      have "clean_reads pty reads" using 2(2) OEio by (cases pty) simp_all
      with OEio False show ?thesis
        by (intro exI[of _ buffer] exI[of _ True] exI[of _ reads]) simp
    next
      case OTimer
      with 2(2) False show ?thesis by (simp add: exI[of _ False])
    next
      case OError
      with 2(2) show ?thesis by simp
    qed
  qed
qed (simp add: exI[of _ False])

lemma send_output_exact:
  assumes "clean_reads pty reads"
  shows "\<exists>bs. send_output stdout pty (\<lambda>_. True) n reads
      = (map (\<lambda>b. Inr (if stdout then Stdout b else Stderr b)) bs, False) \<and> concat bs = produced reads"
  using assms
proof (induction "sum_list (map read_weight reads)" arbitrary: n reads rule: less_induct)
  case less
  consider "reads = []" | rs where "reads = OTimer # rs" | rs where "reads = OEio # rs"
    | rs where "reads = OError # rs" | rs where "reads = ORead [] # rs"
    | bytes rs where "reads = ORead bytes # rs" "bytes \<noteq> []"
    by (metis list.exhaust output_read.exhaust)
  then show ?case
  proof cases
    case 2
    with less show ?thesis by (simp add: send_output.simps)
  next
    case 6
    let ?got = "take 8192 bytes" and ?waiting = "unread (drop 8192 bytes) rs"
    have clean: "clean_reads pty ?waiting" using less.prems 6 by simp
    obtain b eof left where step: "(if pty \<and> length ?got < PTY_OUTPUT_COALESCE_SIZE then coalesce ?got ?waiting
          else Inr (?got, False, ?waiting)) = Inr (b, eof, left)"
        "clean_reads pty left" "bytes @ produced rs = (if eof then b else b @ produced left)"
      using coalesce_exact[OF clean, of ?got] clean
      by (cases "pty \<and> length ?got < PTY_OUTPUT_COALESCE_SIZE") auto
    have "sum_list (map read_weight left) < sum_list (map read_weight reads)"
      using rest_shrinks[OF step(1)] 6 by simp
    from less.hyps[OF this step(2), of "Suc n"] obtain bs where
      "send_output stdout pty (\<lambda>_. True) (Suc n) left
         = (map (\<lambda>b. Inr (if stdout then Stdout b else Stderr b)) bs, False)" "concat bs = produced left"
      by blast
    with step 6 show ?thesis
      by (cases eof) (auto simp: send_output.simps Let_def intro: exI[of _ "[b]"] exI[of _ "b # bs"])
  qed (use less.prems in \<open>simp_all add: send_output.simps\<close>)
qed

lemma merge_append: "xs = [] \<or> ys = [] \<or> sch = [] \<Longrightarrow> merge sch xs ys = xs @ ys"
  by (cases sch; cases xs; cases ys; (cases "hd sch")?) auto

lemma collect_merge:
  assumes "\<not> er_exited r"
    and "length (er_stdout r) + length (concat xs) \<le> MAX_COLLECTED"
    and "length (er_stderr r) + length (concat ys) \<le> MAX_COLLECTED"
  shows "collect_exec r (merge sch (map (\<lambda>b. Inr (Some (Stdout b))) xs) (map (\<lambda>b. Inr (Some (Stderr b))) ys) @ rest)
     = collect_exec (r\<lparr>er_stdout := er_stdout r @ concat xs, er_stderr := er_stderr r @ concat ys\<rparr>) rest"
proof -
  have out: "collect_exec r (map (\<lambda>b. Inr (Some (Stdout b))) xs @ rest)
      = collect_exec (r\<lparr>er_stdout := er_stdout r @ concat xs\<rparr>) rest"
    if "\<not> er_exited r" "length (er_stdout r) + length (concat xs) \<le> MAX_COLLECTED" for r xs rest
    using that by (induction xs arbitrary: r) auto
  have err: "collect_exec r (map (\<lambda>b. Inr (Some (Stderr b))) ys @ rest)
      = collect_exec (r\<lparr>er_stderr := er_stderr r @ concat ys\<rparr>) rest"
    if "\<not> er_exited r" "length (er_stderr r) + length (concat ys) \<le> MAX_COLLECTED" for r ys rest
    using that by (induction ys arbitrary: r) auto
  show ?thesis
    using assms
  proof (induction "length xs + length ys" arbitrary: sch xs ys r rule: less_induct)
    case less
    show ?case
    proof (cases "xs = [] \<or> ys = [] \<or> sch = []")
      case True
      with less.prems show ?thesis
        by (simp add: merge_append out err)
    next
      case False
      then obtain x xs' y ys' b sch' where "xs = x # xs'" "ys = y # ys'" "sch = b # sch'"
        by (auto simp: neq_Nil_conv)
      with less.prems less.hyps[of xs' ys "r\<lparr>er_stdout := er_stdout r @ x\<rparr>" sch']
        less.hyps[of xs ys' "r\<lparr>er_stderr := er_stderr r @ y\<rparr>" sch']
      show ?thesis by (cases b) auto
    qed
  qed
qed

lemma merge_map: "merge sch (map f xs) (map f ys) = map f (merge sch xs ys)"
  by (induction sch xs ys rule: merge.induct) simp_all

text \<open>The events as the client receives them.\<close>

definition received_events ::
  "(status, exec_event) result list \<Rightarrow> (status, exec_event option) result list" where
  "received_events = map (map_sum id Some)"

text \<open>
  C23: A run whose command exits while its channel keeps up gives the client exactly what the
  command produced: however the pipes are read and however the two output tasks interleave,
  the collected standard output and standard error are the bytes written to each, with the
  exit code or signal of the command.
\<close>

theorem exec_output_collected:
  assumes "cr_failure run = None" and "cr_accepted run = (\<lambda>_ _. True)"
    and "clean_reads False (cr_stdout run)" and "clean_reads False (cr_stderr run)"
    and "length (produced (cr_stdout run)) \<le> 64 * 1024 * 1024"
    and "length (produced (cr_stderr run)) \<le> 64 * 1024 * 1024"
    and "cr_first_done run \<in> {WaitDone ChildExited, InputDone ChildExited}"
    and "cr_status run = Some st"
  shows "collect_exec_stream (received_events (run_piped_command run)) =
    Inr \<lparr>er_stdout = produced (cr_stdout run), er_stderr = produced (cr_stderr run),
         er_code = (case st of Exited code \<Rightarrow> code | Signaled _ \<Rightarrow> - 1),
         er_signal = (case st of Exited _ \<Rightarrow> 0 | Signaled signal \<Rightarrow> signal), er_exited = True\<rparr>"
proof -
  obtain xs where xs: "fst (send_output True False (\<lambda>_. True) 0 (cr_stdout run)) = map (\<lambda>b. Inr (Stdout b)) xs"
      "concat xs = produced (cr_stdout run)"
    using send_output_exact[OF assms(3), of True 0] by auto
  obtain ys where ys: "fst (send_output False False (\<lambda>_. True) 0 (cr_stderr run)) = map (\<lambda>b. Inr (Stderr b)) ys"
      "concat ys = produced (cr_stderr run)"
    using send_output_exact[OF assms(4), of False 0] by auto
  have final: "final_event run = send_exit (Some st)"
    using assms(7,8) by (auto simp: final_event_def wait_for_child_with_input_def wait_for_child_def)
  have "received_events (run_piped_command run)
      = merge (cr_schedule run) (map (\<lambda>b. Inr (Some (Stdout b))) xs) (map (\<lambda>b. Inr (Some (Stderr b))) ys)
        @ [map_sum id Some (send_exit (Some st))]"
    using assms(1,2) by (simp add: received_events_def run_piped_command_def xs ys final merge_map[symmetric] comp_def)
  with xs(2) ys(2) assms(5,6) show ?thesis
    by (simp add: collect_exec_stream_def collect_merge empty_result_def MAX_COLLECTED_def send_exit_def
        split: exit_status.split)
qed

definition greeting_run :: command_run where
  "greeting_run = \<lparr>cr_failure = None, cr_stdout = [ORead ''hi'', ORead ''!'', ORead []],
     cr_stderr = [ORead ''warn'', ORead []], cr_accepted = \<lambda>_ _. True, cr_schedule = [True, False],
     cr_first_done = InputDone ChildExited, cr_status = Some (Exited 3)\<rparr>"

lemma exec_output_collected_witness:
  "collect_exec_stream (received_events (run_piped_command greeting_run)) =
    Inr \<lparr>er_stdout = ''hi!'', er_stderr = ''warn'', er_code = 3, er_signal = 0, er_exited = True\<rparr>"
  using exec_output_collected[of greeting_run "Exited 3"] by (simp add: greeting_run_def)

text \<open>
  A read error while terminal output is being coalesced drops the bytes already read; without
  coalescing they are sent first.
\<close>

lemma coalesced_bytes_lost:
  "send_output True True (\<lambda>_. True) 0 [ORead ''a'', OError] = ([Inl internal_io], True)"
  "send_output True False (\<lambda>_. True) 0 [ORead ''a'', OError] = ([Inr (Stdout ''a''), Inl internal_io], True)"
  by (simp_all add: send_output.simps PTY_OUTPUT_COALESCE_SIZE_def unread_def)

end
