(* ===== verification/Forwarding.thy ===== *)
theory Forwarding
  imports AgentRequests Interfaces "HOL-Library.Sublist"
begin

text \<open>
  Port forwarding: the loop of the agent's \<open>forward\<close>
  (\<open>crates/pbox-agent/src/main.rs\<close>) and of the client's \<open>forward_tcp\<close>
  (\<open>crates/pbox-agent-client/src/lib.rs\<close>), each a step on its own state, and the two
  together over the streams between them, interleaved in any order. The abstract system is a
  pair of byte pipes.
\<close>

section \<open>Opening a forward\<close>

text \<open>A call under a timeout that may also fail.\<close>

datatype 'a attempt = Done 'a | AttemptFailed | AttemptLate

text \<open>
  The handler up to its task: the free slots found when each permit is tried, the stream's
  first message, name resolution and the connection to the first allowed address.
\<close>

definition open_forward ::
  "('net \<Rightarrow> 'ip \<Rightarrow> bool) \<Rightarrow> 'net list \<Rightarrow> nat \<Rightarrow> nat \<Rightarrow> forward_event option received list
     \<Rightarrow> (string \<Rightarrow> nat \<Rightarrow> 'ip list attempt) \<Rightarrow> ('ip \<Rightarrow> nat \<Rightarrow> 'socket attempt)
     \<Rightarrow> (status, 'ip \<times> nat) result" where
  "open_forward net_contains networks handshakes forwards stream lookup_host connect =
     (if handshakes = 0 then Inl (St ResourceExhausted ''too many concurrent handshakes'')
      else case stream of
          [] \<Rightarrow> Inl (St InvalidArgument ''forward stream must start with open'')
        | Late # _ \<Rightarrow> Inl (St DeadlineExceeded ''forward handshake timed out'')
        | Fault e # _ \<Rightarrow> Inl e
        | Got event # _ \<Rightarrow>
            and_then (forward_open event) (\<lambda>(host, port).
              if forwards = 0 then Inl (St ResourceExhausted ''too many concurrent forwards'')
              else case lookup_host host port of
                  AttemptLate \<Rightarrow> Inl (St DeadlineExceeded ''forward target lookup timed out'')
                | AttemptFailed \<Rightarrow> Inl (St Unavailable ''resolve forward target'')
                | Done addresses \<Rightarrow>
                    and_then (forward_target net_contains networks addresses) (\<lambda>target.
                      case connect target port of
                        AttemptLate \<Rightarrow> Inl (St DeadlineExceeded ''connect forward target timed out'')
                      | AttemptFailed \<Rightarrow> Inl (St Unavailable ''connect forward target'')
                      | Done _ \<Rightarrow> Inr (target, port))))"

lemma open_forward_allowed:
  "open_forward net_contains networks handshakes forwards stream lookup_host connect = Inr (target, port)
    \<Longrightarrow> is_forward_address_allowed net_contains networks target \<and> 0 < port \<and> port \<le> U16_MAX
      \<and> 0 < handshakes \<and> 0 < forwards"
  by (auto simp: open_forward_def forward_target_def forward_open_def res_simps find_Some_iff
      split: if_splits list.splits received.splits attempt.split_asm option.splits forward_event.splits)
    (metis attempt.exhaust)+

section \<open>One end\<close>

text \<open>What awaiting the other end's stream gives, and what a read of the socket gives.\<close>

datatype peer_item = Item "forward_event option" | StreamEnd | StreamFailed status | StreamIdle

datatype socket_read = SRead string | SFailed | SIdle

text \<open>
  The state of a loop: its own source and the other end closed for writing, the task over;
  the bytes read from its socket, the events sent, the bytes written to its socket and whether
  that was shut down.
\<close>

record endpoint =
  ep_local_closed :: bool
  ep_remote_closed :: bool
  ep_done :: bool
  ep_read :: string
  ep_sent :: "forward_event list"
  ep_written :: string
  ep_shutdown :: bool

definition start_endpoint :: "forward_event list \<Rightarrow> endpoint" where
  "start_endpoint sent =
     \<lparr>ep_local_closed = False, ep_remote_closed = False, ep_done = False, ep_read = [], ep_sent = sent,
      ep_written = [], ep_shutdown = False\<rparr>"

definition emit_event :: "bool \<Rightarrow> forward_event \<Rightarrow> endpoint \<Rightarrow> endpoint" where
  "emit_event ok event ep = (if ok then ep\<lparr>ep_sent := ep_sent ep @ [event]\<rparr> else ep)"

section \<open>The agent's loop\<close>

text \<open>Leaving the loop: the close event with its code, whether or not it can be sent.\<close>

definition close_forward :: "bool \<Rightarrow> nat \<Rightarrow> endpoint \<Rightarrow> endpoint" where
  "close_forward ok code ep = (emit_event ok (FClose code False) ep)\<lparr>ep_done := True\<rparr>"

text \<open>
  \<open>written\<close> is how a write to the target ends: \<open>None\<close> in full, \<open>Some k\<close> with an
  error or time-out after \<open>k\<close> bytes.
\<close>

definition agent_receive :: "nat option \<Rightarrow> bool \<Rightarrow> peer_item \<Rightarrow> endpoint \<Rightarrow> endpoint" where
  "agent_receive written ok item ep =
     (case item of
        StreamEnd \<Rightarrow> close_forward ok 1 ep
      | StreamFailed _ \<Rightarrow> close_forward ok 1 ep
      | StreamIdle \<Rightarrow> close_forward ok 2 ep
      | Item (Some (FData bytes)) \<Rightarrow>
          (case written of
             None \<Rightarrow> ep\<lparr>ep_written := ep_written ep @ bytes\<rparr>
           | Some k \<Rightarrow> close_forward ok 1 (ep\<lparr>ep_written := ep_written ep @ take k bytes\<rparr>))
      | Item (Some (FClose code half_close)) \<Rightarrow>
          if code \<noteq> 0 then close_forward ok code ep
          else if half_close
          then (case written of
                  None \<Rightarrow> ep\<lparr>ep_shutdown := True, ep_remote_closed := True\<rparr>
                | Some _ \<Rightarrow> close_forward ok 1 ep)
          else close_forward ok 0 ep
      | Item (Some (FOpen _ _ _)) \<Rightarrow> close_forward ok 1 ep
      | Item None \<Rightarrow> close_forward ok 1 ep)"

definition agent_read :: "bool \<Rightarrow> socket_read \<Rightarrow> endpoint \<Rightarrow> endpoint" where
  "agent_read ok r ep =
     (case r of
        SFailed \<Rightarrow> close_forward ok 1 ep
      | SIdle \<Rightarrow> close_forward ok 2 ep
      | SRead bytes \<Rightarrow>
          let got = take 8192 bytes
          in if got = []
             then (emit_event ok (FClose 0 True) (ep\<lparr>ep_local_closed := True\<rparr>))\<lparr>ep_done := \<not> ok\<rparr>
             else (emit_event ok (FData got) (ep\<lparr>ep_read := ep_read ep @ got\<rparr>))\<lparr>ep_done := \<not> ok\<rparr>)"

text \<open>The test at the top of the loop.\<close>

definition agent_check :: "bool \<Rightarrow> endpoint \<Rightarrow> endpoint" where
  "agent_check ok ep =
     (if \<not> ep_done ep \<and> ep_local_closed ep \<and> ep_remote_closed ep then close_forward ok 0 ep else ep)"

text \<open>An iteration: the branch of the \<open>select\<close> that fires, if it is enabled.\<close>

datatype branch = Peer peer_item | Socket socket_read

definition agent_forward_step :: "nat option \<Rightarrow> bool \<Rightarrow> branch \<Rightarrow> endpoint \<Rightarrow> endpoint" where
  "agent_forward_step written ok b ep =
     (if ep_done ep then ep
      else case b of
          Peer item \<Rightarrow>
            if ep_remote_closed ep then ep else agent_check ok (agent_receive written ok item ep)
        | Socket r \<Rightarrow>
            if ep_local_closed ep then ep else agent_check ok (agent_read ok r ep))"

section \<open>The client's loop\<close>

type_synonym client_end = "endpoint \<times> (client_error, unit) result option"

definition client_stop :: "endpoint \<Rightarrow> (client_error, unit) result \<Rightarrow> client_end" where
  "client_stop ep r = (ep\<lparr>ep_done := True\<rparr>, Some r)"

text \<open>A read of an idle socket does not end here: the client has no idle limit.\<close>

definition client_read :: "bool \<Rightarrow> socket_read \<Rightarrow> endpoint \<Rightarrow> client_end" where
  "client_read ok r ep =
     (case r of
        SIdle \<Rightarrow> (ep, None)
      | SFailed \<Rightarrow> client_stop ep (Inl Io)
      | SRead bytes \<Rightarrow>
          let got = take 8192 bytes
          in if got = []
             then if ok then (emit_event True (FClose 0 True) (ep\<lparr>ep_local_closed := True\<rparr>), None)
                  else client_stop ep (Inl ForwardRequestClosed)
             else let ep1 = ep\<lparr>ep_read := ep_read ep @ got\<rparr>
                  in if ok then (emit_event True (FData got) ep1, None)
                     else client_stop ep1 (Inl ForwardRequestClosed))"

definition client_receive :: "nat option \<Rightarrow> peer_item \<Rightarrow> endpoint \<Rightarrow> client_end" where
  "client_receive written item ep =
     (case item of
        StreamIdle \<Rightarrow> (ep, None)
      | StreamEnd \<Rightarrow> client_stop ep (Inl (Rpc (St Unknown ''agent forward stream ended without close'')))
      | StreamFailed e \<Rightarrow> client_stop ep (Inl (Rpc e))
      | Item (Some (FData bytes)) \<Rightarrow>
          (case written of
             None \<Rightarrow> (ep\<lparr>ep_written := ep_written ep @ bytes\<rparr>, None)
           | Some k \<Rightarrow> client_stop (ep\<lparr>ep_written := ep_written ep @ take k bytes\<rparr>) (Inl Io))
      | Item (Some (FClose code half_close)) \<Rightarrow>
          (case written of
             Some _ \<Rightarrow> client_stop ep (Inl Io)
           | None \<Rightarrow>
               let ep1 = ep\<lparr>ep_shutdown := True\<rparr>
               in if code \<noteq> 0
                  then client_stop ep1 (Inl (Rpc (St Unknown (''agent forward closed with code '' @ show_nat code))))
                  else if half_close then (ep1\<lparr>ep_remote_closed := True\<rparr>, None)
                  else client_stop ep1 (Inr ()))
      | Item (Some (FOpen _ _ _)) \<Rightarrow>
          client_stop ep (Inl (Rpc (St InvalidArgument ''agent forward stream sent an invalid event'')))
      | Item None \<Rightarrow>
          client_stop ep (Inl (Rpc (St InvalidArgument ''agent forward stream sent an invalid event''))))"

definition client_check :: "bool \<Rightarrow> client_end \<Rightarrow> client_end" where
  "client_check ok c =
     (let (ep, r) = c
      in if \<not> ep_done ep \<and> ep_local_closed ep \<and> ep_remote_closed ep
         then client_stop (emit_event ok (FClose 0 False) ep) (Inr ()) else (ep, r))"

definition client_forward_step :: "nat option \<Rightarrow> bool \<Rightarrow> branch \<Rightarrow> endpoint \<Rightarrow> client_end" where
  "client_forward_step written ok b ep =
     (case b of
        Peer item \<Rightarrow>
          if ep_remote_closed ep then (ep, None) else client_check ok (client_receive written item ep)
      | Socket r \<Rightarrow>
          if ep_local_closed ep then (ep, None) else client_check ok (client_read ok r ep))"

definition forward_tcp_start :: "string \<Rightarrow> nat \<Rightarrow> (client_error, endpoint) result" where
  "forward_tcp_start host port =
     and_then (validate_forward_target host port)
       (\<lambda>_. Inr (start_endpoint [FOpen PROTOCOL_VERSION host port]))"

section \<open>Both ends\<close>

text \<open>
  Each end and how many of the other's events it has taken; the agent starts after the open
  event.
\<close>

record tunnel =
  tn_client :: endpoint
  tn_result :: "(client_error, unit) result option"
  tn_agent :: endpoint
  tn_client_took :: nat
  tn_agent_took :: nat

definition tunnel_start :: "string \<Rightarrow> nat \<Rightarrow> tunnel" where
  "tunnel_start host port =
     \<lparr>tn_client = start_endpoint [FOpen PROTOCOL_VERSION host port], tn_result = None,
      tn_agent = start_endpoint [], tn_client_took = 0, tn_agent_took = 1\<rparr>"

text \<open>
  What can happen next: an end handles its socket or the next event of the other end, or its
  stream fails. \<open>item\<close> is \<open>None\<close> for the next event, or the failure.
\<close>

datatype tunnel_event =
    ClientSocket bool socket_read
  | ClientPeer "nat option" bool "peer_item option"
  | AgentSocket bool socket_read
  | AgentPeer "nat option" bool "peer_item option"

definition is_fault :: "peer_item \<Rightarrow> bool" where
  "is_fault item = (case item of Item _ \<Rightarrow> False | _ \<Rightarrow> True)"

definition client_acts :: "nat option \<Rightarrow> bool \<Rightarrow> branch \<Rightarrow> tunnel \<Rightarrow> tunnel" where
  "client_acts written ok b s =
     (let (ep, r) = client_forward_step written ok b (tn_client s) in s\<lparr>tn_client := ep, tn_result := r\<rparr>)"

definition agent_acts :: "nat option \<Rightarrow> bool \<Rightarrow> branch \<Rightarrow> tunnel \<Rightarrow> tunnel" where
  "agent_acts written ok b s = s\<lparr>tn_agent := agent_forward_step written ok b (tn_agent s)\<rparr>"

fun tunnel_step :: "tunnel_event \<Rightarrow> tunnel \<Rightarrow> tunnel option" where
  "tunnel_step (ClientSocket ok r) s =
     (if ep_done (tn_client s) then None else Some (client_acts None ok (Socket r) s))"
| "tunnel_step (ClientPeer written ok (Some fault)) s =
     (if ep_done (tn_client s) \<or> \<not> is_fault fault then None else Some (client_acts written ok (Peer fault) s))"
| "tunnel_step (ClientPeer written ok None) s =
     (if ep_done (tn_client s) \<or> ep_remote_closed (tn_client s)
         \<or> length (ep_sent (tn_agent s)) \<le> tn_client_took s then None
      else Some (client_acts written ok (Peer (Item (Some (ep_sent (tn_agent s) ! tn_client_took s))))
             (s\<lparr>tn_client_took := Suc (tn_client_took s)\<rparr>)))"
| "tunnel_step (AgentSocket ok r) s =
     (if ep_done (tn_agent s) then None else Some (agent_acts None ok (Socket r) s))"
| "tunnel_step (AgentPeer written ok (Some fault)) s =
     (if ep_done (tn_agent s) \<or> \<not> is_fault fault then None else Some (agent_acts written ok (Peer fault) s))"
| "tunnel_step (AgentPeer written ok None) s =
     (if ep_done (tn_agent s) \<or> ep_remote_closed (tn_agent s)
         \<or> length (ep_sent (tn_client s)) \<le> tn_agent_took s then None
      else Some (agent_acts written ok (Peer (Item (Some (ep_sent (tn_client s) ! tn_agent_took s))))
             (s\<lparr>tn_agent_took := Suc (tn_agent_took s)\<rparr>)))"

definition tunnel_rel :: "tunnel_event \<Rightarrow> tunnel \<Rightarrow> tunnel \<Rightarrow> bool" where
  "tunnel_rel e s t \<longleftrightarrow> tunnel_step e s = Some t"

section \<open>What an end guarantees as a source\<close>

fun data_of :: "forward_event list \<Rightarrow> string" where
  "data_of [] = []"
| "data_of (FData b # es) = b @ data_of es"
| "data_of (_ # es) = data_of es"

lemma data_of_append [simp]: "data_of (xs @ ys) = data_of xs @ data_of ys"
  by (induction xs rule: data_of.induct) simp_all

abbreviation half_close :: forward_event where
  "half_close \<equiv> FClose 0 True"

text \<open>Nothing but closing events follows a half close.\<close>

definition settled :: "forward_event list \<Rightarrow> bool" where
  "settled sent \<longleftrightarrow> (\<forall>n. half_close \<in> set (take n sent) \<longrightarrow> data_of (take n sent) = data_of sent)"

lemma settledD: "settled sent \<Longrightarrow> half_close \<in> set (take n sent) \<Longrightarrow> data_of (take n sent) = data_of sent"
  by (simp add: settled_def)

lemma settled_snoc:
  assumes "settled sent" and "half_close \<in> set sent \<longrightarrow> data_of [e] = []"
  shows "settled (sent @ [e])"
  unfolding settled_def
proof (intro allI impI)
  fix n assume half: "half_close \<in> set (take n (sent @ [e]))"
  show "data_of (take n (sent @ [e])) = data_of (sent @ [e])"
  proof (cases "n \<le> length sent")
    case True
    with half have "half_close \<in> set (take n sent)" by simp
    with assms settledD[OF assms(1) this] show ?thesis using True by (auto dest: in_set_takeD)
  qed simp
qed

lemma settled_close: "settled sent \<Longrightarrow> settled (sent @ [FClose code half])"
  by (rule settled_snoc) simp_all

lemma settled_data: "settled sent \<Longrightarrow> half_close \<notin> set sent \<Longrightarrow> settled (sent @ [FData b])"
  by (rule settled_snoc) simp_all

definition source_ok :: "endpoint \<Rightarrow> bool" where
  "source_ok ep \<longleftrightarrow> prefix (data_of (ep_sent ep)) (ep_read ep)
     \<and> (\<not> ep_done ep \<longrightarrow> data_of (ep_sent ep) = ep_read ep)
     \<and> (half_close \<in> set (ep_sent ep) \<longrightarrow> ep_local_closed ep \<and> data_of (ep_sent ep) = ep_read ep)
     \<and> settled (ep_sent ep)"

lemma source_ok_start: "data_of sent = [] \<Longrightarrow> half_close \<notin> set sent \<Longrightarrow> source_ok (start_endpoint sent)"
  by (auto simp: source_ok_def start_endpoint_def settled_def dest: in_set_takeD)

text \<open>
  The three ways an end changes as a source; its other fields do not matter.
\<close>

definition same_source :: "endpoint \<Rightarrow> endpoint \<Rightarrow> bool" where
  "same_source ep ep' \<longleftrightarrow> ep_read ep' = ep_read ep \<and> ep_local_closed ep' = ep_local_closed ep"

lemma source_ok_close:
  assumes "source_ok ep" and "same_source ep ep'" and "ep_done ep \<longrightarrow> ep_done ep'"
    and "ep_sent ep' = ep_sent ep \<or> (\<exists>code. ep_sent ep' = ep_sent ep @ [FClose code False])"
  shows "source_ok ep'"
  using assms by (auto simp: source_ok_def same_source_def intro: settled_close settled_data)

lemma source_ok_data:
  assumes "source_ok ep" and "\<not> ep_done ep" and "\<not> ep_local_closed ep"
    and "ep_read ep' = ep_read ep @ b" and "ep_local_closed ep' = ep_local_closed ep"
    and "(ep_sent ep' = ep_sent ep @ [FData b]) \<or> (ep_sent ep' = ep_sent ep \<and> ep_done ep')"
  shows "source_ok ep'"
  using assms by (auto simp: source_ok_def intro: settled_close settled_data)

lemma source_ok_eof:
  assumes "source_ok ep" and "\<not> ep_done ep"
    and "ep_read ep' = ep_read ep" and "ep_local_closed ep'"
    and "(ep_sent ep' = ep_sent ep @ [half_close]) \<or> ep_sent ep' = ep_sent ep"
  shows "source_ok ep'"
  using assms by (auto simp: source_ok_def intro: settled_close settled_data)

lemmas agent_defs = close_forward_def emit_event_def agent_receive_def agent_check_def same_source_def
lemmas client_defs = client_stop_def emit_event_def client_receive_def client_check_def same_source_def

lemma agent_receive_source:
  "source_ok ep \<Longrightarrow> source_ok (agent_receive written ok item ep)"
  by (rule source_ok_close[of ep])
     (auto simp: agent_defs split: peer_item.splits option.splits forward_event.splits)

lemma agent_check_source: "source_ok ep \<Longrightarrow> source_ok (agent_check ok ep)"
  by (rule source_ok_close[of ep]) (auto simp: agent_defs)

lemma agent_read_source:
  assumes "source_ok ep" and "\<not> ep_done ep" and "\<not> ep_local_closed ep"
  shows "source_ok (agent_read ok r ep)"
proof (cases r)
  case (SRead bytes)
  show ?thesis
  proof (cases "take 8192 bytes = []")
    case True
    with SRead source_ok_eof[OF assms(1,2)] show ?thesis by (simp add: agent_read_def emit_event_def)
  next
    case False
    with SRead source_ok_data[OF assms, of _ "take 8192 bytes"] show ?thesis
      by (simp add: agent_read_def emit_event_def Let_def)
  qed
qed (use source_ok_close[OF assms(1)] in \<open>auto simp: agent_read_def agent_defs\<close>)

lemma agent_step_source: "source_ok ep \<Longrightarrow> source_ok (agent_forward_step written ok b ep)"
  by (auto simp: agent_forward_step_def agent_receive_source agent_check_source agent_read_source
      split: branch.split)

lemma client_receive_source: "source_ok ep \<Longrightarrow> source_ok (fst (client_receive written item ep))"
  by (rule source_ok_close[of ep])
     (auto simp: client_defs Let_def split: peer_item.splits option.splits forward_event.splits)

lemma client_check_source: "source_ok (fst c) \<Longrightarrow> source_ok (fst (client_check ok c))"
  by (rule source_ok_close[of "fst c"]) (auto simp: client_defs split: prod.splits)

lemma client_read_source:
  assumes "source_ok ep" and "\<not> ep_done ep" and "\<not> ep_local_closed ep"
  shows "source_ok (fst (client_read ok r ep))"
proof (cases r)
  case (SRead bytes)
  show ?thesis
  proof (cases "take 8192 bytes = []")
    case True
    with SRead source_ok_eof[OF assms(1,2)] source_ok_close[OF assms(1)] show ?thesis
      by (simp add: client_read_def emit_event_def client_stop_def same_source_def)
  next
    case False
    with SRead source_ok_data[OF assms, of _ "take 8192 bytes"] show ?thesis
      by (simp add: client_read_def emit_event_def client_stop_def Let_def)
  qed
qed (use assms(1) source_ok_close[OF assms(1)] in \<open>auto simp: client_read_def client_defs\<close>)

lemma client_step_source:
  "source_ok ep \<Longrightarrow> \<not> ep_done ep \<Longrightarrow> source_ok (fst (client_forward_step written ok b ep))"
  by (auto simp: client_forward_step_def client_receive_source client_check_source client_read_source
      split: branch.split)

section \<open>What an end guarantees as a sink\<close>

text \<open>\<open>took\<close> events of the other end's \<open>sent\<close> have been handled.\<close>

definition sink_ok :: "forward_event list \<Rightarrow> nat \<Rightarrow> endpoint \<Rightarrow> bool" where
  "sink_ok sent took ep \<longleftrightarrow> took \<le> length sent
     \<and> prefix (ep_written ep) (data_of (take took sent))
     \<and> (\<not> ep_done ep \<longrightarrow> ep_written ep = data_of (take took sent))
     \<and> (ep_remote_closed ep \<longrightarrow> half_close \<in> set (take took sent) \<and> ep_written ep = data_of (take took sent))
     \<and> (\<not> ep_done ep \<and> half_close \<in> set (take took sent) \<longrightarrow> ep_remote_closed ep)"

lemma sink_ok_start: "data_of (take took sent) = [] \<Longrightarrow> took \<le> length sent
    \<Longrightarrow> half_close \<notin> set (take took sent) \<Longrightarrow> sink_ok sent took (start_endpoint x)"
  by (simp add: sink_ok_def start_endpoint_def)

lemma sink_ok_grow: "sink_ok sent took ep \<Longrightarrow> sink_ok (sent @ xs) took ep"
  by (simp add: sink_ok_def)

lemma sink_ok_same:
  assumes "sink_ok sent took ep" and "ep_written ep' = ep_written ep"
    and "ep_remote_closed ep' = ep_remote_closed ep" and "ep_done ep \<longrightarrow> ep_done ep'"
  shows "sink_ok sent took ep'"
  using assms by (auto simp: sink_ok_def)

lemma sink_ok_data:
  assumes "sink_ok sent took ep" and "\<not> ep_done ep" and "\<not> ep_remote_closed ep" and "took < length sent"
    and "sent ! took = FData b" and "ep_remote_closed ep' = ep_remote_closed ep"
    and "ep_written ep' = ep_written ep @ b \<or> (\<exists>k. ep_written ep' = ep_written ep @ take k b \<and> ep_done ep')"
  shows "sink_ok sent (Suc took) ep'"
  using assms by (auto simp: sink_ok_def take_Suc_conv_app_nth take_is_prefix)

lemma sink_ok_close:
  assumes "sink_ok sent took ep" and "\<not> ep_done ep" and "\<not> ep_remote_closed ep" and "took < length sent"
    and "data_of [sent ! took] = []" and "ep_written ep' = ep_written ep"
    and "(ep_remote_closed ep' \<and> sent ! took = half_close) \<or> (\<not> ep_remote_closed ep' \<and> ep_done ep')"
  shows "sink_ok sent (Suc took) ep'"
  using assms by (auto simp: sink_ok_def take_Suc_conv_app_nth)

lemma agent_check_sink: "sink_ok sent took ep \<Longrightarrow> sink_ok sent took (agent_check ok ep)"
  by (rule sink_ok_same[of _ _ ep]) (auto simp: agent_defs)

lemma agent_take_sink:
  assumes "sink_ok sent took ep" and "\<not> ep_done ep" and "\<not> ep_remote_closed ep" and "took < length sent"
  shows "sink_ok sent (Suc took) (agent_forward_step written ok (Peer (Item (Some (sent ! took)))) ep)"
proof -
  have "sink_ok sent (Suc took) (agent_receive written ok (Item (Some (sent ! took))) ep)"
  proof (cases "sent ! took")
    case (FData b)
    show ?thesis
      using FData by (intro sink_ok_data[OF assms FData]) (auto simp: agent_defs split: option.splits)
  next
    case (FClose code half)
    show ?thesis
      using FClose assms(2,3) by (intro sink_ok_close[OF assms]) (auto simp: agent_defs split: option.splits)
  next
    case FOpen
    show ?thesis
      using FOpen assms(2,3) by (intro sink_ok_close[OF assms]) (auto simp: agent_defs)
  qed
  with assms(2,3) show ?thesis by (simp add: agent_forward_step_def agent_check_sink)
qed

lemma agent_read_sink:
  "sink_ok sent took ep \<Longrightarrow> \<not> ep_done ep \<Longrightarrow> sink_ok sent took (agent_read ok r ep)"
  by (rule sink_ok_same[of _ _ ep]; cases r) (auto simp: agent_read_def agent_defs Let_def)

lemma agent_fault_sink:
  "sink_ok sent took ep \<Longrightarrow> is_fault item \<Longrightarrow> sink_ok sent took (agent_receive written ok item ep)"
  by (rule sink_ok_same[of _ _ ep]; cases item) (auto simp: agent_defs is_fault_def)

lemma agent_other_sink:
  assumes "sink_ok sent took ep" and "\<not> ep_done ep"
    and "(\<exists>r. b = Socket r) \<or> (\<exists>item. b = Peer item \<and> is_fault item)"
  shows "sink_ok sent took (agent_forward_step written ok b ep)"
  using assms by (auto simp: agent_forward_step_def agent_check_sink agent_read_sink agent_fault_sink)

lemma client_check_sink: "sink_ok sent took (fst c) \<Longrightarrow> sink_ok sent took (fst (client_check ok c))"
  by (rule sink_ok_same[of _ _ "fst c"]) (auto simp: client_defs split: prod.splits)

lemma client_take_sink:
  assumes "sink_ok sent took ep" and "\<not> ep_done ep" and "\<not> ep_remote_closed ep" and "took < length sent"
  shows "sink_ok sent (Suc took) (fst (client_forward_step written ok (Peer (Item (Some (sent ! took)))) ep))"
proof -
  have "sink_ok sent (Suc took) (fst (client_receive written (Item (Some (sent ! took))) ep))"
  proof (cases "sent ! took")
    case (FData b)
    show ?thesis
      using FData by (intro sink_ok_data[OF assms FData]) (auto simp: client_defs split: option.splits)
  next
    case (FClose code half)
    show ?thesis
      using FClose assms(2,3) by (intro sink_ok_close[OF assms]) (auto simp: client_defs Let_def split: option.splits)
  next
    case FOpen
    show ?thesis
      using FOpen assms(2,3) by (intro sink_ok_close[OF assms]) (auto simp: client_defs)
  qed
  with assms(2,3) show ?thesis by (simp add: client_forward_step_def client_check_sink)
qed

lemma client_read_sink:
  "sink_ok sent took ep \<Longrightarrow> sink_ok sent took (fst (client_read ok r ep))"
  by (rule sink_ok_same[of _ _ ep]; cases r) (auto simp: client_read_def client_defs Let_def)

lemma client_fault_sink:
  "sink_ok sent took ep \<Longrightarrow> is_fault item \<Longrightarrow> sink_ok sent took (fst (client_receive written item ep))"
  by (rule sink_ok_same[of _ _ ep]; cases item) (auto simp: client_defs is_fault_def)

lemma client_other_sink:
  assumes "sink_ok sent took ep" and "\<not> ep_done ep"
    and "(\<exists>r. b = Socket r) \<or> (\<exists>item. b = Peer item \<and> is_fault item)"
  shows "sink_ok sent took (fst (client_forward_step written ok b ep))"
  using assms by (auto simp: client_forward_step_def client_check_sink client_read_sink client_fault_sink)

section \<open>The whole tunnel\<close>

lemma client_sent_grows: "\<exists>xs. ep_sent (fst (client_forward_step written ok b ep)) = ep_sent ep @ xs"
proof -
  have check: "\<exists>xs. ep_sent (fst (client_check ok c)) = ep_sent (fst c) @ xs" for c
    by (cases c) (auto simp: client_defs)
  have rec: "ep_sent (fst (client_receive written item ep)) = ep_sent ep" for item
    by (auto simp: client_defs Let_def split: peer_item.splits option.splits forward_event.splits)
  have rd: "\<exists>xs. ep_sent (fst (client_read ok r ep)) = ep_sent ep @ xs" for r
    by (cases r) (auto simp: client_read_def client_defs Let_def)
  show ?thesis
  proof (cases b)
    case (Peer item)
    with check[of "client_receive written item ep"] rec show ?thesis by (simp add: client_forward_step_def)
  next
    case (Socket r)
    with check[of "client_read ok r ep"] rd[of r] show ?thesis by (auto simp: client_forward_step_def)
  qed
qed

lemma agent_sent_grows: "\<exists>xs. ep_sent (agent_forward_step written ok b ep) = ep_sent ep @ xs"
proof -
  have check: "\<exists>xs. ep_sent (agent_check ok e) = ep_sent e @ xs" for e
    by (auto simp: agent_defs)
  have rec: "\<exists>xs. ep_sent (agent_receive written ok item ep) = ep_sent ep @ xs" for item
    by (auto simp: agent_defs split: peer_item.splits option.splits forward_event.splits)
  have rd: "\<exists>xs. ep_sent (agent_read ok r ep) = ep_sent ep @ xs" for r
    by (cases r) (auto simp: agent_read_def agent_defs Let_def)
  show ?thesis
  proof (cases b)
    case (Peer item)
    with check[of "agent_receive written ok item ep"] rec[of item] show ?thesis
      by (auto simp: agent_forward_step_def)
  next
    case (Socket r)
    with check[of "agent_read ok r ep"] rd[of r] show ?thesis by (auto simp: agent_forward_step_def)
  qed
qed

definition tunnel_inv :: "tunnel \<Rightarrow> bool" where
  "tunnel_inv s \<longleftrightarrow> source_ok (tn_client s) \<and> source_ok (tn_agent s)
     \<and> sink_ok (ep_sent (tn_client s)) (tn_agent_took s) (tn_agent s)
     \<and> sink_ok (ep_sent (tn_agent s)) (tn_client_took s) (tn_client s)"

lemma tunnel_start_inv: "tunnel_inv (tunnel_start host port)"
  by (auto simp: tunnel_inv_def tunnel_start_def start_endpoint_def source_ok_def sink_ok_def settled_def
      dest: in_set_takeD)

lemma client_acts_inv:
  assumes "tunnel_inv s" and "\<not> ep_done (tn_client s)"
    and "sink_ok (ep_sent (tn_agent s)) took (fst (client_forward_step written ok b (tn_client s)))"
  shows "tunnel_inv (client_acts written ok b (s\<lparr>tn_client_took := took\<rparr>))"
proof -
  obtain xs where "ep_sent (fst (client_forward_step written ok b (tn_client s))) = ep_sent (tn_client s) @ xs"
    using client_sent_grows by blast
  moreover have "source_ok (fst (client_forward_step written ok b (tn_client s)))"
    using assms(1,2) by (simp add: client_step_source tunnel_inv_def)
  ultimately show ?thesis
    using assms(1,3) by (simp add: tunnel_inv_def client_acts_def case_prod_unfold Let_def sink_ok_grow)
qed

lemma agent_acts_inv:
  assumes "tunnel_inv s" and "\<not> ep_done (tn_agent s)"
    and "sink_ok (ep_sent (tn_client s)) took (agent_forward_step written ok b (tn_agent s))"
  shows "tunnel_inv (agent_acts written ok b (s\<lparr>tn_agent_took := took\<rparr>))"
proof -
  obtain xs where "ep_sent (agent_forward_step written ok b (tn_agent s)) = ep_sent (tn_agent s) @ xs"
    using agent_sent_grows by blast
  with assms show ?thesis
    by (auto simp: tunnel_inv_def agent_acts_def sink_ok_grow agent_step_source)
qed

lemma tunnel_step_inv: "tunnel_inv s \<Longrightarrow> tunnel_step e s = Some t \<Longrightarrow> tunnel_inv t"
proof (induction e s rule: tunnel_step.induct)
  case (1 ok r s)
  then show ?case using client_acts_inv[of s "tn_client_took s" None ok "Socket r"]
    by (auto simp: tunnel_inv_def client_other_sink split: if_splits)
next
  case (2 written ok fault s)
  then show ?case using client_acts_inv[of s "tn_client_took s" written ok "Peer fault"]
    by (auto simp: tunnel_inv_def client_other_sink split: if_splits)
next
  case (3 written ok s)
  then show ?case
    using client_acts_inv[of s "Suc (tn_client_took s)" written ok
        "Peer (Item (Some (ep_sent (tn_agent s) ! tn_client_took s)))"]
    by (auto simp: tunnel_inv_def client_take_sink split: if_splits)
next
  case (4 ok r s)
  then show ?case using agent_acts_inv[of s "tn_agent_took s" None ok "Socket r"]
    by (auto simp: tunnel_inv_def agent_other_sink split: if_splits)
next
  case (5 written ok fault s)
  then show ?case using agent_acts_inv[of s "tn_agent_took s" written ok "Peer fault"]
    by (auto simp: tunnel_inv_def agent_other_sink split: if_splits)
next
  case (6 written ok s)
  then show ?case
    using agent_acts_inv[of s "Suc (tn_agent_took s)" written ok
        "Peer (Item (Some (ep_sent (tn_client s) ! tn_agent_took s)))"]
    by (auto simp: tunnel_inv_def agent_take_sink split: if_splits)
qed

section \<open>Success means everything arrived\<close>

abbreviation full_close :: forward_event where
  "full_close \<equiv> FClose 0 False"

definition orderly :: "forward_event list \<Rightarrow> bool" where
  "orderly sent \<longleftrightarrow> (\<forall>n. full_close \<in> set (take n sent) \<longrightarrow> half_close \<in> set (take n sent))"

lemma orderly_snoc:
  assumes "orderly sent" and "e = full_close \<longrightarrow> half_close \<in> set sent"
  shows "orderly (sent @ [e])"
  unfolding orderly_def
proof (intro allI impI)
  fix n assume full: "full_close \<in> set (take n (sent @ [e]))"
  show "half_close \<in> set (take n (sent @ [e]))"
  proof (cases "n \<le> length sent")
    case True
    with full assms(1) show ?thesis by (simp add: orderly_def)
  next
    case False
    then have "take n (sent @ [e]) = sent @ [e]" by simp
    with full assms orderly_def[of sent] show ?thesis by (metis Un_iff order_refl set_append set_ConsD take_all empty_iff list.set(1))
  qed
qed

text \<open>A live end that closed its source has said so.\<close>

definition eof_sent :: "endpoint \<Rightarrow> bool" where
  "eof_sent ep \<longleftrightarrow> (ep_local_closed ep \<and> \<not> ep_done ep \<longrightarrow> half_close \<in> set (ep_sent ep))"

lemma close_forward_orderly:
  "orderly (ep_sent ep) \<Longrightarrow> (code = 0 \<longrightarrow> half_close \<in> set (ep_sent ep))
    \<Longrightarrow> orderly (ep_sent (close_forward ok code ep)) \<and> eof_sent (close_forward ok code ep)"
  by (auto simp: close_forward_def emit_event_def eof_sent_def intro: orderly_snoc)

lemma agent_receive_orderly:
  assumes "orderly (ep_sent ep)" and "eof_sent ep" and "\<not> ep_done ep" and "item \<noteq> Item (Some full_close)"
  shows "orderly (ep_sent (agent_receive written ok item ep)) \<and> eof_sent (agent_receive written ok item ep)"
  using assms close_forward_orderly[of ep] close_forward_orderly[of "ep\<lparr>ep_written := w\<rparr>" for w]
  by (auto simp: agent_receive_def eof_sent_def split: peer_item.splits option.splits forward_event.splits)

lemma agent_read_orderly:
  assumes "orderly (ep_sent ep)" and "eof_sent ep" and "\<not> ep_done ep"
  shows "orderly (ep_sent (agent_read ok r ep)) \<and> eof_sent (agent_read ok r ep)"
proof (cases r)
  case (SRead bytes)
  with assms show ?thesis
    by (auto simp: agent_read_def emit_event_def eof_sent_def Let_def intro: orderly_snoc)
qed (use close_forward_orderly[OF assms(1)] in \<open>auto simp: agent_read_def\<close>)

lemma agent_check_orderly:
  assumes "orderly (ep_sent ep) \<and> eof_sent ep"
  shows "orderly (ep_sent (agent_check ok ep)) \<and> eof_sent (agent_check ok ep)"
proof (cases "\<not> ep_done ep \<and> ep_local_closed ep \<and> ep_remote_closed ep")
  case True
  with assms have "half_close \<in> set (ep_sent ep)" by (simp add: eof_sent_def)
  with True assms close_forward_orderly[of ep 0 ok] show ?thesis by (simp add: agent_check_def)
qed (use assms in \<open>auto simp: agent_check_def\<close>)

lemma agent_step_orderly:
  assumes "orderly (ep_sent ep)" and "eof_sent ep" and "b \<noteq> Peer (Item (Some full_close))"
  shows "orderly (ep_sent (agent_forward_step written ok b ep)) \<and> eof_sent (agent_forward_step written ok b ep)"
  using assms
  by (auto simp: agent_forward_step_def agent_check_orderly agent_receive_orderly agent_read_orderly
      split: branch.split)

text \<open>How a step of the client ends.\<close>

definition client_result_ok :: "client_end \<Rightarrow> bool" where
  "client_result_ok c \<longleftrightarrow> (snd c = None \<longleftrightarrow> \<not> ep_done (fst c))
     \<and> (snd c = Some (Inr ()) \<longrightarrow> ep_local_closed (fst c) \<and> ep_remote_closed (fst c))
     \<and> (full_close \<in> set (ep_sent (fst c)) \<longrightarrow> ep_done (fst c))"

lemma client_receive_result:
  assumes "\<not> ep_done ep" and "full_close \<notin> set (ep_sent ep)" and "item \<noteq> Item (Some full_close)"
  shows "client_result_ok (client_receive written item ep)"
  using assms
  by (cases item)
     (auto simp: client_result_ok_def client_receive_def client_stop_def Let_def split: option.splits forward_event.splits)

lemma client_read_result:
  assumes "\<not> ep_done ep" and "full_close \<notin> set (ep_sent ep)"
  shows "client_result_ok (client_read ok r ep)"
  using assms by (cases r) (auto simp: client_result_ok_def client_read_def client_stop_def emit_event_def Let_def)

lemma client_check_result: "client_result_ok c \<Longrightarrow> client_result_ok (client_check ok c)"
  by (cases c) (auto simp: client_result_ok_def client_check_def client_stop_def emit_event_def)

lemma client_step_result:
  assumes "\<not> ep_done ep" and "full_close \<notin> set (ep_sent ep)" and "b \<noteq> Peer (Item (Some full_close))"
  shows "client_result_ok (client_forward_step written ok b ep)"
proof (cases b)
  case (Peer item)
  with assms client_check_result[OF client_receive_result[of ep item written]] show ?thesis
    by (auto simp: client_forward_step_def client_result_ok_def)
next
  case (Socket r)
  with assms client_check_result[OF client_read_result[of ep ok r]] show ?thesis
    by (auto simp: client_forward_step_def client_result_ok_def)
qed

definition success_inv :: "tunnel \<Rightarrow> bool" where
  "success_inv s \<longleftrightarrow> client_result_ok (tn_client s, tn_result s)
     \<and> (\<not> ep_done (tn_client s) \<longrightarrow> orderly (ep_sent (tn_agent s)) \<and> eof_sent (tn_agent s))"

lemma success_start: "success_inv (tunnel_start host port)"
  by (simp add: success_inv_def tunnel_start_def start_endpoint_def client_result_ok_def orderly_def eof_sent_def)

lemma client_acts_success:
  assumes "success_inv s" and "\<not> ep_done (tn_client s)" and "b \<noteq> Peer (Item (Some full_close))"
  shows "success_inv (client_acts written ok b (s\<lparr>tn_client_took := took\<rparr>))"
proof -
  have "full_close \<notin> set (ep_sent (tn_client s))"
    using assms(1,2) by (auto simp: success_inv_def client_result_ok_def)
  from client_step_result[OF assms(2) this assms(3)] assms(1,2) show ?thesis
    by (simp add: success_inv_def client_acts_def case_prod_unfold Let_def)
qed

lemma agent_acts_success:
  assumes "success_inv s" and "ep_done (tn_client s) \<or> b \<noteq> Peer (Item (Some full_close))"
  shows "success_inv (agent_acts written ok b (s\<lparr>tn_agent_took := took\<rparr>))"
  using assms agent_step_orderly[of "tn_agent s" b written ok] by (auto simp: success_inv_def agent_acts_def)

lemma fault_not_item: "is_fault fault \<Longrightarrow> fault \<noteq> Item x"
  by (auto simp: is_fault_def)

lemma no_full_close_for_live_client:
  assumes "sink_ok sent took ep" and "orderly sent" and "\<not> ep_done ep" and "\<not> ep_remote_closed ep"
    and "took < length sent"
  shows "sent ! took \<noteq> full_close"
proof
  assume full: "sent ! took = full_close"
  then have "full_close \<in> set (take (Suc took) sent)" using assms(5) by (simp add: take_Suc_conv_app_nth)
  with assms(2) have "half_close \<in> set (take (Suc took) sent)" by (simp add: orderly_def)
  with full assms(5) have "half_close \<in> set (take took sent)" by (simp add: take_Suc_conv_app_nth)
  with assms(1,3,4) show False by (simp add: sink_ok_def)
qed

lemma tunnel_step_success:
  "tunnel_inv s \<Longrightarrow> success_inv s \<Longrightarrow> tunnel_step e s = Some t \<Longrightarrow> success_inv t"
proof (induction e s rule: tunnel_step.induct)
  case (1 ok r s)
  then show ?case using client_acts_success[of s "Socket r" None ok "tn_client_took s"]
    by (auto split: if_splits)
next
  case (2 written ok fault s)
  then show ?case using client_acts_success[of s "Peer fault" written ok "tn_client_took s"]
    by (auto dest: fault_not_item split: if_splits)
next
  case (3 written ok s)
  from 3(3) have live: "\<not> ep_done (tn_client s)" "\<not> ep_remote_closed (tn_client s)"
      "tn_client_took s < length (ep_sent (tn_agent s))"
    by (auto split: if_splits)
  have "ep_sent (tn_agent s) ! tn_client_took s \<noteq> full_close"
    by (rule no_full_close_for_live_client[OF _ _ live(1,2,3)])
       (use 3(1,2) live(1) in \<open>simp_all add: tunnel_inv_def success_inv_def\<close>)
  with 3(2,3) live client_acts_success[of s "Peer (Item (Some (ep_sent (tn_agent s) ! tn_client_took s)))"
      written ok "Suc (tn_client_took s)"]
  show ?case by simp
next
  case (4 ok r s)
  then show ?case using agent_acts_success[of s "Socket r" None ok "tn_agent_took s"]
    by (auto split: if_splits)
next
  case (5 written ok fault s)
  then show ?case using agent_acts_success[of s "Peer fault" written ok "tn_agent_took s"]
    by (auto dest: fault_not_item split: if_splits)
next
  case (6 written ok s)
  from 6(3) have live: "\<not> ep_done (tn_agent s)" "\<not> ep_remote_closed (tn_agent s)"
      "tn_agent_took s < length (ep_sent (tn_client s))"
    by (auto split: if_splits)
  have "ep_done (tn_client s) \<or> ep_sent (tn_client s) ! tn_agent_took s \<noteq> full_close"
    using 6(2) nth_mem[OF live(3)] by (auto simp: success_inv_def client_result_ok_def)
  with 6(2,3) live agent_acts_success[of s "Peer (Item (Some (ep_sent (tn_client s) ! tn_agent_took s)))"
      written ok "Suc (tn_agent_took s)"]
  show ?case by simp
qed

section \<open>The abstract system: two byte pipes\<close>

text \<open>Bytes put into a pipe and bytes that came out, client to target (True) and back.\<close>

type_synonym pipes = "bool \<Rightarrow> string \<times> string"

datatype pipe_event = Put bool string | Emit bool string

fun pipe_step :: "pipe_event \<Rightarrow> pipes \<Rightarrow> pipes \<Rightarrow> bool" where
  "pipe_step (Put d b) p q \<longleftrightarrow> q = p(d := (fst (p d) @ b, snd (p d)))"
| "pipe_step (Emit d b) p q \<longleftrightarrow> q = p(d := (fst (p d), snd (p d) @ b)) \<and> prefix (snd (p d) @ b) (fst (p d))"

definition tunnel_pipes :: "tunnel \<Rightarrow> pipes" where
  "tunnel_pipes s d =
     (if d then (ep_read (tn_client s), ep_written (tn_agent s))
      else (ep_read (tn_agent s), ep_written (tn_client s)))"

definition empty_pipes :: pipes where
  "empty_pipes = (\<lambda>_. ([], []))"

text \<open>A step of an end reads from its socket or writes to it, and never both.\<close>

definition reads_or_writes :: "endpoint \<Rightarrow> endpoint \<Rightarrow> bool" where
  "reads_or_writes ep ep' \<longleftrightarrow>
     (\<exists>b. ep_read ep' = ep_read ep @ b \<and> ep_written ep' = ep_written ep)
     \<or> (\<exists>b. ep_read ep' = ep_read ep \<and> ep_written ep' = ep_written ep @ b)"

lemma reads_or_writes_same: "ep_read ep' = ep_read ep \<Longrightarrow> ep_written ep' = ep_written ep @ b \<Longrightarrow> reads_or_writes ep ep'"
  by (auto simp: reads_or_writes_def)

lemma agent_check_sockets [simp]:
  "ep_read (agent_check ok ep) = ep_read ep" "ep_written (agent_check ok ep) = ep_written ep"
  by (simp_all add: agent_defs)

lemma client_check_sockets [simp]:
  "ep_read (fst (client_check ok c)) = ep_read (fst c)"
  "ep_written (fst (client_check ok c)) = ep_written (fst c)"
  by (simp_all add: client_defs split: prod.splits)

lemma agent_step_sockets: "reads_or_writes ep (agent_forward_step written ok b ep)"
proof (cases b)
  case (Peer item)
  have "reads_or_writes ep (agent_receive written ok item ep)"
    by (auto simp: reads_or_writes_def agent_defs split: peer_item.splits option.splits forward_event.splits)
  then show ?thesis using Peer by (auto simp: agent_forward_step_def reads_or_writes_def)
next
  case (Socket r)
  have "reads_or_writes ep (agent_read ok r ep)"
    by (cases r) (auto simp: reads_or_writes_def agent_read_def agent_defs Let_def)
  then show ?thesis using Socket by (auto simp: agent_forward_step_def reads_or_writes_def)
qed

lemma client_step_sockets: "reads_or_writes ep (fst (client_forward_step written ok b ep))"
proof (cases b)
  case (Peer item)
  have "reads_or_writes ep (fst (client_receive written item ep))"
    by (auto simp: reads_or_writes_def client_defs Let_def split: peer_item.splits option.splits forward_event.splits)
  then show ?thesis using Peer by (auto simp: client_forward_step_def reads_or_writes_def)
next
  case (Socket r)
  have "reads_or_writes ep (fst (client_read ok r ep))"
    by (cases r) (auto simp: reads_or_writes_def client_read_def client_defs Let_def)
  then show ?thesis using Socket by (auto simp: client_forward_step_def reads_or_writes_def)
qed

lemma pipe_moves:
  assumes "prefix (snd (p d)) (fst (p d))" and "\<forall>d'. d' \<noteq> d \<longrightarrow> q d' = p d'"
    and "prefix (snd (q d)) (fst (q d))"
    and "(\<exists>b. q d = (fst (p d) @ b, snd (p d))) \<or> (\<exists>b. q d = (fst (p d), snd (p d) @ b))"
  shows "\<exists>a. pipe_step a p q"
  using assms(4)
proof (elim disjE exE)
  fix b assume "q d = (fst (p d) @ b, snd (p d))"
  with assms(2) have "pipe_step (Put d b) p q" by (auto simp: fun_eq_iff)
  then show ?thesis by blast
next
  fix b assume q: "q d = (fst (p d), snd (p d) @ b)"
  with assms(2,3) have "pipe_step (Emit d b) p q" by (auto simp: fun_eq_iff)
  then show ?thesis by blast
qed

lemma tunnel_inv_prefix:
  assumes "tunnel_inv s"
  shows "prefix (snd (tunnel_pipes s d)) (fst (tunnel_pipes s d))"
proof -
  have through: "prefix (ep_written dst) (ep_read src)"
    if "source_ok src" "sink_ok (ep_sent src) n dst" for src dst n
  proof -
    have "prefix (data_of (take n (ep_sent src))) (data_of (ep_sent src))"
      by (metis append_take_drop_id data_of_append prefixI)
    with that show ?thesis by (auto simp: source_ok_def sink_ok_def intro: prefix_order.trans)
  qed
  with assms show ?thesis by (auto simp: tunnel_inv_def tunnel_pipes_def)
qed

text \<open>Which end an event belongs to, and what is left alone.\<close>

lemma tunnel_step_ends:
  assumes "tunnel_step e s = Some t"
  shows "(tn_agent t = tn_agent s \<and> reads_or_writes (tn_client s) (tn_client t))
    \<or> (tn_client t = tn_client s \<and> reads_or_writes (tn_agent s) (tn_agent t))"
  using assms client_step_sockets[of "tn_client s"] agent_step_sockets[of "tn_agent s"]
  by (induction e s rule: tunnel_step.induct)
     (auto simp: client_acts_def agent_acts_def case_prod_unfold Let_def split: if_splits)

lemma tunnel_step_refines:
  assumes "tunnel_inv s" and "tunnel_step e s = Some t"
  shows "\<exists>a. pipe_step a (tunnel_pipes s) (tunnel_pipes t)"
proof -
  note before = tunnel_inv_prefix[OF assms(1)]
  note after = tunnel_inv_prefix[OF tunnel_step_inv[OF assms]]
  from tunnel_step_ends[OF assms(2)] show ?thesis
  proof (elim disjE conjE)
    assume agent: "tn_agent t = tn_agent s" and "reads_or_writes (tn_client s) (tn_client t)"
    then consider b where "ep_read (tn_client t) = ep_read (tn_client s) @ b" "ep_written (tn_client t) = ep_written (tn_client s)"
      | b where "ep_read (tn_client t) = ep_read (tn_client s)" "ep_written (tn_client t) = ep_written (tn_client s) @ b"
      unfolding reads_or_writes_def by blast
    then show ?thesis
    proof cases
      case 1
      with agent show ?thesis
        by (intro pipe_moves[of _ True, OF before _ after]) (auto simp: tunnel_pipes_def)
    next
      case 2
      with agent show ?thesis
        by (intro pipe_moves[of _ False, OF before _ after]) (auto simp: tunnel_pipes_def)
    qed
  next
    assume client: "tn_client t = tn_client s" and "reads_or_writes (tn_agent s) (tn_agent t)"
    then consider b where "ep_read (tn_agent t) = ep_read (tn_agent s) @ b" "ep_written (tn_agent t) = ep_written (tn_agent s)"
      | b where "ep_read (tn_agent t) = ep_read (tn_agent s)" "ep_written (tn_agent t) = ep_written (tn_agent s) @ b"
      unfolding reads_or_writes_def by blast
    then show ?thesis
    proof cases
      case 1
      with client show ?thesis
        by (intro pipe_moves[of _ False, OF before _ after]) (auto simp: tunnel_pipes_def)
    next
      case 2
      with client show ?thesis
        by (intro pipe_moves[of _ True, OF before _ after]) (auto simp: tunnel_pipes_def)
    qed
  qed
qed

definition tunnel_ok :: "tunnel \<Rightarrow> bool" where
  "tunnel_ok s \<longleftrightarrow> tunnel_inv s \<and> success_inv s"

interpretation tunnel: refined_system tunnel_rel tunnel_ok pipe_step tunnel_pipes
proof
  fix s t e assume "tunnel_ok s" "tunnel_rel e s t"
  then have "tunnel_inv s" "success_inv s" "tunnel_step e s = Some t"
    by (simp_all add: tunnel_ok_def tunnel_rel_def)
  then show "tunnel_ok t" "tunnel_pipes t = tunnel_pipes s \<or> (\<exists>a. pipe_step a (tunnel_pipes s) (tunnel_pipes t))"
    using tunnel_step_inv tunnel_step_success tunnel_step_refines by (auto simp: tunnel_ok_def)
qed

lemma tunnel_start_ok: "tunnel_ok (tunnel_start host port)"
  by (simp add: tunnel_ok_def tunnel_start_inv success_start)

text \<open>
  C24: Forwarding is a pair of byte pipes: every run of the client's and the agent's loops,
  whatever the sockets, streams and failures do and in whatever order, is a run of two
  pipes, in each of which bytes only come out in the order they were put in.
\<close>

theorem tunnel_refines_pipes:
  assumes "reaches tunnel_rel (tunnel_start host port) s"
  shows "reaches pipe_step empty_pipes (tunnel_pipes s)"
proof -
  have "tunnel_pipes (tunnel_start host port) = empty_pipes"
    by (auto simp: tunnel_pipes_def tunnel_start_def start_endpoint_def empty_pipes_def)
  with tunnel.reaches_refines[OF assms tunnel_start_ok] show ?thesis by simp
qed


section \<open>A run\<close>

abbreviation run_tunnel where "run_tunnel \<equiv> run_events tunnel_step"

lemma run_reaches: "run_tunnel es s = Some t \<Longrightarrow> reaches tunnel_rel s t"
  using run_events_reaches[of tunnel_step es s t] by (simp add: tunnel_rel_def[abs_def])

definition echo_run :: "tunnel_event list" where
  "echo_run = [ClientSocket True (SRead ''hi''), ClientSocket True (SRead []), AgentPeer None True None,
     AgentPeer None True None, AgentSocket True (SRead ''yo''), AgentSocket True (SRead []),
     ClientPeer None True None, ClientPeer None True None]"

lemma echo_run_ends:
  "\<exists>s. run_tunnel echo_run (tunnel_start ''h'' 80) = Some s \<and> tn_result s = Some (Inr ())
     \<and> ep_remote_closed (tn_agent s) \<and> ep_read (tn_client s) = ''hi'' \<and> ep_read (tn_agent s) = ''yo''"
  by (simp add: echo_run_def tunnel_start_def start_endpoint_def client_acts_def agent_acts_def
      client_forward_step_def agent_forward_step_def client_read_def agent_read_def client_defs agent_defs Let_def)


lemma tunnel_refines_pipes_witness:
  "\<exists>s. tn_result s = Some (Inr ()) \<and> reaches pipe_step empty_pipes (tunnel_pipes s)"
proof -
  obtain s where s: "run_tunnel echo_run (tunnel_start ''h'' 80) = Some s" "tn_result s = Some (Inr ())"
    using echo_run_ends by blast
  with tunnel_refines_pipes[OF run_reaches[OF s(1)]] show ?thesis by blast
qed

end
