(* ===== verification/TerminalModes.thy ===== *)
theory TerminalModes
  imports AgentRequests
begin

text \<open>
  What the agent remembers of a terminal besides its screen: the keyboard and cursor modes
  set by control sequences the terminal library leaves to its caller, the replies to queries
  while nobody is attached, and the bytes that restore the modes for a new viewer
  (\<open>crates/pbox-agent/src/sessions.rs\<close>, \<open>crates/pbox-agent-client/src/terminal.rs\<close>).
\<close>

unbundle bit_operations_syntax

section \<open>Control sequences\<close>

text \<open>
  A CSI sequence as the library reports it: its marker or intermediate, its parameters (each
  with sub-parameters) and its final character.
\<close>

datatype csi = CSI "char option" "16 word list list" char

definition show_word :: "16 word \<Rightarrow> string" where
  "show_word w = show_nat (unat w)"

definition show_params :: "16 word list list \<Rightarrow> string" where
  "show_params params = join_with CHR '';'' (map (\<lambda>p. join_with CHR '':'' (map show_word p)) params)"

text \<open>The bytes of a sequence: a space is an intermediate, any other marker comes first.\<close>

fun csi_text :: "csi \<Rightarrow> string" where
  "csi_text (CSI marker params command) =
     [CHR 0x1B, CHR ''['']
     @ (case marker of Some c \<Rightarrow> if c = CHR '' '' then [] else [c] | None \<Rightarrow> [])
     @ show_params params
     @ (if marker = Some CHR '' '' then '' '' else [])
     @ [command]"

text \<open>
  Screen controls the library lacks: the sequence processed in their place
  (\<open>terminal_extension\<close>), or \<open>None\<close>.
\<close>

definition terminal_extension :: "csi \<Rightarrow> string option" where
  "terminal_extension seq =
     (case seq of
        CSI marker params action \<Rightarrow>
          if marker = None \<and> (params = [] \<or> params = [[0]]) \<and> action = CHR ''s''
             \<or> marker = Some CHR ''?'' \<and> params = [[1048]] \<and> action = CHR ''h''
          then Some [CHR 0x1B, CHR ''7'']
          else if marker = None \<and> (params = [] \<or> params = [[0]]) \<and> action = CHR ''u''
             \<or> marker = Some CHR ''?'' \<and> params = [[1048]] \<and> action = CHR ''l''
          then Some [CHR 0x1B, CHR ''8'']
          else if marker = Some CHR ''?'' \<and> params = [[1047]] \<and> action = CHR ''h''
          then Some ([CHR 0x1B] @ ''[?47h'' @ [CHR 0x1B] @ ''[2J'')
          else if marker = Some CHR ''?'' \<and> params = [[1047]] \<and> action = CHR ''l''
          then Some ([CHR 0x1B] @ ''[?47l'')
          else None)"

section \<open>The modes\<close>

record modes =
  tm_headless :: bool
  tm_replies :: string
  tm_kitty :: "16 word"
  tm_stack :: "16 word list"
  tm_modify_keys :: "16 word"
  tm_focus :: bool
  tm_cursor_style :: "16 word option"
  tm_cursor_blink :: "bool option"

definition default_modes :: modes where
  "default_modes = \<lparr>tm_headless = False, tm_replies = [], tm_kitty = 0, tm_stack = [], tm_modify_keys = 0,
     tm_focus = False, tm_cursor_style = None, tm_cursor_blink = None\<rparr>"

definition first_param :: "16 word list list \<Rightarrow> 16 word" where
  "first_param params = (case params of (v # _) # _ \<Rightarrow> v | _ \<Rightarrow> 0)"

definition second_param :: "16 word list list \<Rightarrow> 16 word" where
  "second_param params = (case params of _ # (v # _) # _ \<Rightarrow> v | _ \<Rightarrow> 1)"

text \<open>The answer to a query while no viewer is attached; the cursor is the screen's.\<close>

definition query_reply :: "nat \<times> nat \<Rightarrow> 16 word \<Rightarrow> char option \<Rightarrow> char \<Rightarrow> 16 word \<Rightarrow> string option" where
  "query_reply cursor kitty marker command v =
     (let esc = [CHR 0x1B, CHR ''['']
      in if marker = None \<and> command = CHR ''n'' \<and> v = 5 then Some (esc @ ''0n'')
         else if marker = None \<and> command = CHR ''n'' \<and> v = 6
         then Some (esc @ show_nat (fst cursor + 1) @ '';'' @ show_nat (snd cursor + 1) @ ''R'')
         else if marker = None \<and> command = CHR ''c'' \<and> v = 0 then Some (esc @ ''?1;2c'')
         else if marker = Some CHR ''>'' \<and> command = CHR ''c'' \<and> v = 0 then Some (esc @ ''>0;1;0c'')
         else if marker = Some CHR ''?'' \<and> command = CHR ''u'' then Some (esc @ ''?'' @ show_word kitty @ ''u'')
         else None)"

text \<open>The keyboard-mode stack holds at most sixteen entries, the oldest going first.\<close>

definition push_kitty :: "16 word \<Rightarrow> modes \<Rightarrow> modes" where
  "push_kitty v m =
     m\<lparr>tm_stack := (if length (tm_stack m) = 16 then tl (tm_stack m) else tm_stack m) @ [tm_kitty m],
       tm_kitty := v\<rparr>"

definition pop_kitty :: "modes \<Rightarrow> modes" where
  "pop_kitty m =
     (if tm_stack m = [] then m\<lparr>tm_kitty := 0\<rparr>
      else m\<lparr>tm_kitty := last (tm_stack m), tm_stack := butlast (tm_stack m)\<rparr>)"

definition set_modes :: "char option \<Rightarrow> char \<Rightarrow> 16 word \<Rightarrow> 16 word \<Rightarrow> modes \<Rightarrow> modes" where
  "set_modes marker command v second m =
     (if marker = Some CHR '' '' \<and> command = CHR ''q'' \<and> v \<le> 6 then m\<lparr>tm_cursor_style := Some v\<rparr>
      else if marker = Some CHR ''?'' \<and> command = CHR ''h'' \<and> v = 12 then m\<lparr>tm_cursor_blink := Some True\<rparr>
      else if marker = Some CHR ''?'' \<and> command = CHR ''l'' \<and> v = 12 then m\<lparr>tm_cursor_blink := Some False\<rparr>
      else if marker = Some CHR ''>'' \<and> command = CHR ''u'' then push_kitty v m
      else if marker = Some CHR ''<'' \<and> command = CHR ''u''
      then (pop_kitty ^^ max 1 (min 16 (unat v))) m
      else if marker = Some CHR ''='' \<and> command = CHR ''u''
      then m\<lparr>tm_kitty := (if second = 2 then tm_kitty m OR v
                          else if second = 3 then tm_kitty m AND NOT v else v)\<rparr>
      else if marker = Some CHR ''>'' \<and> command = CHR ''m'' \<and> v = 4 then m\<lparr>tm_modify_keys := second\<rparr>
      else if marker = Some CHR ''?'' \<and> command = CHR ''h'' \<and> v = 1004 then m\<lparr>tm_focus := True\<rparr>
      else if marker = Some CHR ''?'' \<and> command = CHR ''l'' \<and> v = 1004 then m\<lparr>tm_focus := False\<rparr>
      else m)"

definition unhandled_csi :: "nat \<times> nat \<Rightarrow> csi \<Rightarrow> modes \<Rightarrow> modes" where
  "unhandled_csi cursor seq m =
     (if terminal_extension seq \<noteq> None then m
      else case seq of
          CSI marker params command \<Rightarrow>
            let v = first_param params; second = second_param params;
                m1 = (if tm_headless m
                      then case query_reply cursor (tm_kitty m) marker command v of
                             Some reply \<Rightarrow> m\<lparr>tm_replies := tm_replies m @ reply\<rparr>
                           | None \<Rightarrow> m
                      else m)
            in set_modes marker command v second m1)"

text \<open>Colour queries (\<open>OSC 10\<close> and \<open>OSC 11\<close>) are answered the same way.\<close>

definition unhandled_osc :: "string list \<Rightarrow> modes \<Rightarrow> modes" where
  "unhandled_osc params m =
     (if tm_headless m \<and> length params \<ge> 2 \<and> params ! 1 = ''?''
      then if hd params = ''10''
           then m\<lparr>tm_replies := tm_replies m @ [CHR 0x1B] @ '']10;rgb:ffff/ffff/ffff'' @ [CHR 0x1B, CHR 0x5C]\<rparr>
           else if hd params = ''11''
           then m\<lparr>tm_replies := tm_replies m @ [CHR 0x1B] @ '']11;rgb:0000/0000/0000'' @ [CHR 0x1B, CHR 0x5C]\<rparr>
           else m
      else m)"

section \<open>Restoring the modes\<close>

definition esc_csi :: string where "esc_csi = [CHR 0x1B, CHR ''['']"

definition restore_modes :: "modes \<Rightarrow> string" where
  "restore_modes m =
     (case tm_cursor_style m of Some style \<Rightarrow> esc_csi @ show_word style @ '' q'' | None \<Rightarrow> [])
     @ (case tm_cursor_blink m of
          Some blink \<Rightarrow> esc_csi @ ''?12'' @ [if blink then CHR ''h'' else CHR ''l''] | None \<Rightarrow> [])
     @ esc_csi @ ''<16u''
     @ (case tm_stack m of
          initial # rest \<Rightarrow>
            esc_csi @ ''='' @ show_word initial @ ''u''
            @ concat (map (\<lambda>flags. esc_csi @ ''>'' @ show_word flags @ ''u'') (rest @ [tm_kitty m]))
        | [] \<Rightarrow> esc_csi @ ''='' @ show_word (tm_kitty m) @ ''u'')
     @ esc_csi @ ''>4;'' @ show_word (tm_modify_keys m) @ ''m''
     @ esc_csi @ ''?1004'' @ [if tm_focus m then CHR ''h'' else CHR ''l'']"

text \<open>The same as sequences.\<close>

definition restore_commands :: "modes \<Rightarrow> csi list" where
  "restore_commands m =
     (case tm_cursor_style m of Some style \<Rightarrow> [CSI (Some CHR '' '') [[style]] CHR ''q''] | None \<Rightarrow> [])
     @ (case tm_cursor_blink m of
          Some blink \<Rightarrow> [CSI (Some CHR ''?'') [[12]] (if blink then CHR ''h'' else CHR ''l'')] | None \<Rightarrow> [])
     @ [CSI (Some CHR ''<'') [[16]] CHR ''u'']
     @ (case tm_stack m of
          initial # rest \<Rightarrow>
            CSI (Some CHR ''='') [[initial]] CHR ''u''
            # map (\<lambda>flags. CSI (Some CHR ''>'') [[flags]] CHR ''u'') (rest @ [tm_kitty m])
        | [] \<Rightarrow> [CSI (Some CHR ''='') [[tm_kitty m]] CHR ''u''])
     @ [CSI (Some CHR ''>'') [[4], [tm_modify_keys m]] CHR ''m'',
        CSI (Some CHR ''?'') [[1004]] (if tm_focus m then CHR ''h'' else CHR ''l'')]"

section \<open>Screens\<close>

text \<open>
  What the library reports of a screen: each row's text, its formatted bytes and whether it
  wraps into the next, the cursor, and the bytes that set the attributes and input modes.
\<close>

record screen =
  sc_rows :: "(string \<times> string \<times> bool) list"
  sc_cursor :: "nat \<times> nat"
  sc_attributes :: string
  sc_input_mode :: string
  sc_hide_cursor :: bool

definition append_terminal_screen :: "screen \<Rightarrow> string" where
  "append_terminal_screen s =
     (let cursor_row = fst (sc_cursor s); cursor_col = snd (sc_cursor s);
          used = map fst (filter (\<lambda>(i, row). fst row \<noteq> []) (enumerate 0 (sc_rows s)));
          last_row = max (if used = [] then 0 else Max (set used)) cursor_row;
          crlf = [CHR 0x0D, CHR 0x0A]
      in crlf
         @ concat (map (\<lambda>(i, row).
             (if 0 < i \<and> \<not> snd (snd (sc_rows s ! (i - 1))) then crlf else [])
             @ esc_csi @ ''0m'' @ fst (snd row))
             (enumerate 0 (take (last_row + 1) (sc_rows s))))
         @ [CHR 0x0D]
         @ (if cursor_row < last_row then esc_csi @ show_nat (last_row - cursor_row) @ ''A'' else [])
         @ (if 0 < cursor_col then esc_csi @ show_nat cursor_col @ ''C'' else [])
         @ sc_attributes s @ sc_input_mode s
         @ esc_csi @ (if sc_hide_cursor s then ''?25l'' else ''?25h''))"

text \<open>
  The bytes a new viewer gets. An alternate screen is rebuilt from a blank one
  (\<open>diff\<close>, the library's); the normal screen is appended.
\<close>

definition redraw :: "string option \<Rightarrow> screen \<Rightarrow> modes \<Rightarrow> string" where
  "redraw alternate_diff s m =
     (case alternate_diff of
        Some diff \<Rightarrow> esc_csi @ ''?1049h'' @ diff
      | None \<Rightarrow> append_terminal_screen s)
     @ restore_modes m"

text \<open>The newest lines that fit in 1 MiB, counting eight bytes of overhead for each.\<close>

definition HISTORY_BYTES :: nat where "HISTORY_BYTES = 1024 * 1024"

fun newest_lines :: "nat \<Rightarrow> string list \<Rightarrow> nat" where
  "newest_lines bytes [] = 0"
| "newest_lines bytes (line # older) =
     (let bytes = bytes + length line + 8
      in if bytes \<le> HISTORY_BYTES then Suc (newest_lines bytes older) else 0)"

definition terminal_history :: "string list \<Rightarrow> string list" where
  "terminal_history lines = drop (length lines - newest_lines 0 (rev lines)) lines"

section \<open>The stored modes stay within their bounds\<close>

definition modes_ok :: "modes \<Rightarrow> bool" where
  "modes_ok m \<longleftrightarrow> length (tm_stack m) \<le> 16 \<and> (case tm_cursor_style m of Some v \<Rightarrow> v \<le> 6 | None \<Rightarrow> True)"

lemma modes_ok_default: "modes_ok default_modes"
  by (simp add: modes_ok_def default_modes_def)

lemma modes_ok_pops: "modes_ok m \<Longrightarrow> modes_ok ((pop_kitty ^^ n) m)"
  by (induction n) (auto simp: modes_ok_def pop_kitty_def)

lemma modes_ok_push: "modes_ok m \<Longrightarrow> modes_ok (push_kitty v m)"
  by (auto simp: modes_ok_def push_kitty_def)

lemma modes_ok_updates [simp]:
  "modes_ok (m\<lparr>tm_kitty := k\<rparr>) = modes_ok m" "modes_ok (m\<lparr>tm_modify_keys := k\<rparr>) = modes_ok m"
  "modes_ok (m\<lparr>tm_focus := f\<rparr>) = modes_ok m" "modes_ok (m\<lparr>tm_cursor_blink := b\<rparr>) = modes_ok m"
  by (simp_all add: modes_ok_def)

lemma modes_ok_style: "modes_ok m \<Longrightarrow> v \<le> 6 \<Longrightarrow> modes_ok (m\<lparr>tm_cursor_style := Some v\<rparr>)"
  by (simp add: modes_ok_def)

lemma modes_ok_if: "(c \<Longrightarrow> modes_ok a) \<Longrightarrow> (\<not> c \<Longrightarrow> modes_ok b) \<Longrightarrow> modes_ok (if c then a else b)"
  by simp

lemma modes_ok_set: "modes_ok m \<Longrightarrow> modes_ok (set_modes marker command v second m)"
  unfolding set_modes_def
  by (intro modes_ok_if) (simp_all add: modes_ok_pops modes_ok_push modes_ok_style)

lemma modes_ok_replies [simp]: "modes_ok (m\<lparr>tm_replies := r\<rparr>) = modes_ok m"
  by (simp add: modes_ok_def)

lemma modes_ok_csi: "modes_ok m \<Longrightarrow> modes_ok (unhandled_csi cursor seq m)"
  by (auto simp: unhandled_csi_def Let_def modes_ok_set split: csi.split option.split)

lemma modes_ok_run: "modes_ok m \<Longrightarrow> modes_ok (fold (\<lambda>(cursor, seq). unhandled_csi cursor seq) seqs m)"
  by (induction seqs arbitrary: m) (auto simp: modes_ok_csi)

section \<open>A new viewer gets the same modes\<close>

lemma digit_char_eq: "d < 10 \<Longrightarrow> digit_char d = c \<longleftrightarrow> byte c = 48 + d"
  by (metis byte_digit_char byte_inject)

lemma show_nats: "show_nat 12 = ''12''" "show_nat 16 = ''16''" "show_nat 4 = ''4''" "show_nat 1004 = ''1004''"
  by (simp_all add: show_nat.simps digit_char_eq byte_def)

lemma show_words:
  "show_word 12 = ''12''" "show_word 16 = ''16''" "show_word 4 = ''4''" "show_word 1004 = ''1004''"
  by (simp_all add: show_word_def show_nats)

lemma restore_modes_commands: "restore_modes m = concat (map csi_text (restore_commands m))"
  by (cases "tm_stack m"; cases "tm_cursor_style m"; cases "tm_cursor_blink m")
     (simp_all add: restore_modes_def restore_commands_def esc_csi_def show_params_def join_with_def comp_def show_words)

lemma pops_empty:
  "length (tm_stack m) \<le> n \<Longrightarrow> 0 < n
    \<Longrightarrow> \<exists>k. (pop_kitty ^^ n) m = m\<lparr>tm_kitty := k, tm_stack := []\<rparr>"
proof (induction n arbitrary: m)
  case (Suc n)
  show ?case
  proof (cases "n = 0")
    case True
    with Suc.prems(1) have "butlast (tm_stack m) = []" by (cases "tm_stack m") auto
    with True show ?thesis
      by (cases "tm_stack m = []")
         (auto simp: pop_kitty_def intro: exI[of _ "last (tm_stack m)"] exI[of _ 0])
  next
    case False
    have "length (tm_stack (pop_kitty m)) \<le> n"
      using Suc.prems(1) by (auto simp: pop_kitty_def)
    from Suc.IH[OF this] False obtain k where
      "(pop_kitty ^^ n) (pop_kitty m) = (pop_kitty m)\<lparr>tm_kitty := k, tm_stack := []\<rparr>" by auto
    moreover have "(pop_kitty m)\<lparr>tm_kitty := k, tm_stack := []\<rparr> = m\<lparr>tm_kitty := k, tm_stack := []\<rparr>"
      by (simp add: pop_kitty_def)
    ultimately show ?thesis by (simp add: funpow_Suc_right del: funpow.simps) blast
  qed
qed simp

lemma pushes:
  "length (tm_stack m) + length vs \<le> 16
    \<Longrightarrow> fold (\<lambda>v. set_modes (Some CHR ''>'') CHR ''u'' v second) vs m
      = m\<lparr>tm_stack := tm_stack m @ butlast (tm_kitty m # vs), tm_kitty := last (tm_kitty m # vs)\<rparr>"
  by (induction vs arbitrary: m) (auto simp: set_modes_def push_kitty_def)

text \<open>None of the restoring sequences is a query or a screen control.\<close>

lemma csi_plain:
  assumes "marker = Some c" and "c \<in> {CHR '' '', CHR ''<'', CHR ''='', CHR ''>'', CHR ''?''}"
    and "c = CHR ''>'' \<longrightarrow> command \<noteq> CHR ''c''"
    and "c = CHR ''?'' \<longrightarrow> command \<noteq> CHR ''u'' \<and> params \<noteq> [[1048]] \<and> params \<noteq> [[1047]]"
  shows "unhandled_csi cursor (CSI marker params command) m
    = set_modes marker command (first_param params) (second_param params) m"
proof -
  have "terminal_extension (CSI marker params command) = None"
    using assms(1,4) by (cases "c = CHR ''?''") (simp_all add: terminal_extension_def)
  moreover have "query_reply cursor k marker command v = None" for k v
    using assms(1,3,4) by (simp add: query_reply_def Let_def) blast
  ultimately show ?thesis by (simp add: unhandled_csi_def Let_def)
qed

lemma csi_numbers [simp]:
  "[[12]] \<noteq> [[1048 :: 16 word]]" "[[12]] \<noteq> [[1047 :: 16 word]]"
  "[[1004]] \<noteq> [[1048 :: 16 word]]" "[[1004]] \<noteq> [[1047 :: 16 word]]"
  by simp_all

lemma restore_stack:
  assumes "length (tm_stack m0) \<le> 16" and "length (tm_stack m) \<le> 16"
  shows "fold (unhandled_csi cursor)
      (CSI (Some CHR ''<'') [[16]] CHR ''u''
       # (case tm_stack m of
          initial # rest \<Rightarrow>
            CSI (Some CHR ''='') [[initial]] CHR ''u''
            # map (\<lambda>flags. CSI (Some CHR ''>'') [[flags]] CHR ''u'') (rest @ [tm_kitty m])
        | [] \<Rightarrow> [CSI (Some CHR ''='') [[tm_kitty m]] CHR ''u''])) m0
    = m0\<lparr>tm_stack := tm_stack m, tm_kitty := tm_kitty m\<rparr>"
proof -
  obtain k where pops: "(pop_kitty ^^ 16) m0 = m0\<lparr>tm_kitty := k, tm_stack := []\<rparr>"
    using pops_empty[of m0 16] assms(1) by auto
  have first: "unhandled_csi cursor (CSI (Some CHR ''<'') [[16]] CHR ''u'') m0
      = m0\<lparr>tm_kitty := k, tm_stack := []\<rparr>"
    by (simp add: csi_plain set_modes_def first_param_def pops)
  have set: "unhandled_csi cursor (CSI (Some CHR ''='') [[v]] CHR ''u'') x = x\<lparr>tm_kitty := v\<rparr>" for v x
    by (simp add: csi_plain set_modes_def first_param_def second_param_def)
  have push: "unhandled_csi cursor (CSI (Some CHR ''>'') [[v]] CHR ''u'')
      = set_modes (Some CHR ''>'') CHR ''u'' v 1" for v
    by (rule ext) (simp add: csi_plain first_param_def second_param_def)
  show ?thesis
  proof (cases "tm_stack m")
    case Nil
    then show ?thesis by (simp add: first set)
  next
    case (Cons initial rest)
    let ?m1 = "m0\<lparr>tm_kitty := initial, tm_stack := []\<rparr>"
    have "fold (unhandled_csi cursor) (map (\<lambda>flags. CSI (Some CHR ''>'') [[flags]] CHR ''u'') (rest @ [tm_kitty m])) ?m1
        = m0\<lparr>tm_stack := tm_stack m, tm_kitty := tm_kitty m\<rparr>"
      using pushes[of ?m1 "rest @ [tm_kitty m]" 1] assms(2) Cons
      by (simp only: fold_map comp_def push) (simp add: butlast_append)
    moreover have "unhandled_csi cursor (CSI (Some CHR ''='') [[initial]] CHR ''u'')
        (unhandled_csi cursor (CSI (Some CHR ''<'') [[16]] CHR ''u'') m0) = ?m1"
      unfolding first set by simp
    ultimately show ?thesis unfolding Cons by simp
  qed
qed

lemma restore_all:
  assumes "length (tm_stack m0) \<le> 16" and "modes_ok m"
  shows "fold (unhandled_csi cursor) (restore_commands m) m0 =
    m\<lparr>tm_headless := tm_headless m0, tm_replies := tm_replies m0,
      tm_cursor_style := (case tm_cursor_style m of None \<Rightarrow> tm_cursor_style m0 | s \<Rightarrow> s),
      tm_cursor_blink := (case tm_cursor_blink m of None \<Rightarrow> tm_cursor_blink m0 | b \<Rightarrow> b)\<rparr>"
proof -
  let ?style = "case tm_cursor_style m of Some style \<Rightarrow> [CSI (Some CHR '' '') [[style]] CHR ''q''] | None \<Rightarrow> []"
  let ?blink = "case tm_cursor_blink m of
      Some blink \<Rightarrow> [CSI (Some CHR ''?'') [[12]] (if blink then CHR ''h'' else CHR ''l'')] | None \<Rightarrow> []"
  have style: "fold (unhandled_csi cursor) ?style x
      = x\<lparr>tm_cursor_style := (case tm_cursor_style m of None \<Rightarrow> tm_cursor_style x | s \<Rightarrow> s)\<rparr>" for x
    using assms(2)
    by (cases "tm_cursor_style m") (simp_all add: csi_plain set_modes_def first_param_def modes_ok_def)
  have blink: "fold (unhandled_csi cursor) ?blink x
      = x\<lparr>tm_cursor_blink := (case tm_cursor_blink m of None \<Rightarrow> tm_cursor_blink x | b \<Rightarrow> b)\<rparr>" for x
    by (cases "tm_cursor_blink m") (auto simp: csi_plain set_modes_def first_param_def)
  have keys: "unhandled_csi cursor (CSI (Some CHR ''>'') [[4], [v]] CHR ''m'') x = x\<lparr>tm_modify_keys := v\<rparr>" for v x
    by (simp add: csi_plain set_modes_def first_param_def second_param_def)
  have focus: "unhandled_csi cursor (CSI (Some CHR ''?'') [[1004]] (if f then CHR ''h'' else CHR ''l'')) x
      = x\<lparr>tm_focus := f\<rparr>" for f x
    by (simp add: csi_plain set_modes_def first_param_def)
  have stack: "length (tm_stack m) \<le> 16" using assms(2) by (simp add: modes_ok_def)
  let ?x = "m0\<lparr>tm_cursor_style := (case tm_cursor_style m of None \<Rightarrow> tm_cursor_style m0 | s \<Rightarrow> s),
      tm_cursor_blink := (case tm_cursor_blink m of None \<Rightarrow> tm_cursor_blink m0 | b \<Rightarrow> b)\<rparr>"
  have x: "fold (unhandled_csi cursor) ?blink (fold (unhandled_csi cursor) ?style m0) = ?x"
    unfolding style blink by (cases "tm_cursor_blink m") simp_all
  have "fold (unhandled_csi cursor) (restore_commands m) m0 =
      ?x\<lparr>tm_stack := tm_stack m, tm_kitty := tm_kitty m, tm_modify_keys := tm_modify_keys m, tm_focus := tm_focus m\<rparr>"
    using restore_stack[OF _ stack, of ?x cursor] assms(1)
    unfolding restore_commands_def fold_append comp_def x by (simp add: keys focus del: if_splits)
  then show ?thesis by simp
qed

definition run_csi :: "((nat \<times> nat) \<times> csi) list \<Rightarrow> modes \<Rightarrow> modes" where
  "run_csi = fold (\<lambda>(cursor, seq). unhandled_csi cursor seq)"

text \<open>
  C21: A new viewer gets the modes of the session: after any sequences the program sent, the
  restoring bytes are sequences that, whatever modes the viewer's own terminal was left in by
  anything it processed before, set its keyboard stack, key modifiers and focus reporting to
  the session's, and its cursor style and blinking where the session has set them; and they
  trigger no reply.
\<close>

theorem modes_restored:
  "let m = run_csi seqs default_modes; m0 = run_csi seqs0 (default_modes\<lparr>tm_headless := h\<rparr>)
   in restore_modes m = concat (map csi_text (restore_commands m))
      \<and> fold (unhandled_csi cursor) (restore_commands m) m0 =
          m\<lparr>tm_headless := tm_headless m0, tm_replies := tm_replies m0,
            tm_cursor_style := (case tm_cursor_style m of None \<Rightarrow> tm_cursor_style m0 | s \<Rightarrow> s),
            tm_cursor_blink := (case tm_cursor_blink m of None \<Rightarrow> tm_cursor_blink m0 | b \<Rightarrow> b)\<rparr>"
proof -
  have "modes_ok (run_csi seqs default_modes)"
    unfolding run_csi_def by (rule modes_ok_run[OF modes_ok_default])
  moreover have "modes_ok (run_csi seqs0 (default_modes\<lparr>tm_headless := h\<rparr>))"
    unfolding run_csi_def by (rule modes_ok_run) (simp add: modes_ok_def default_modes_def)
  then have "length (tm_stack (run_csi seqs0 (default_modes\<lparr>tm_headless := h\<rparr>))) \<le> 16"
    by (simp add: modes_ok_def)
  ultimately show ?thesis
    unfolding Let_def using restore_modes_commands restore_all by blast
qed

section \<open>The history sent is bounded\<close>

lemma newest_lines_bound:
  "newest_lines b ls \<le> length ls
   \<and> (b \<le> HISTORY_BYTES \<longrightarrow>
       b + sum_list (map (\<lambda>l. length l + 8) (take (newest_lines b ls) ls)) \<le> HISTORY_BYTES)"
  by (induction b ls rule: newest_lines.induct) (auto simp: Let_def)

lemma terminal_history_bound:
  "\<exists>older. lines = older @ terminal_history lines
    \<and> sum_list (map (\<lambda>l. length l + 8) (terminal_history lines)) \<le> HISTORY_BYTES"
proof -
  let ?n = "newest_lines 0 (rev lines)"
  have recent: "terminal_history lines = rev (take ?n (rev lines))"
    by (simp add: terminal_history_def take_rev)
  have "sum_list (map (\<lambda>l. length l + 8) (terminal_history lines))
      = sum_list (map (\<lambda>l. length l + 8) (take ?n (rev lines)))"
    unfolding recent by (simp only: rev_map[symmetric] sum_list_rev)
  also have "\<dots> \<le> HISTORY_BYTES" using newest_lines_bound[of 0 "rev lines"] by linarith
  finally have "sum_list (map (\<lambda>l. length l + 8) (terminal_history lines)) \<le> HISTORY_BYTES" .
  moreover have "take (length lines - ?n) lines @ terminal_history lines = lines"
    unfolding terminal_history_def by (rule append_take_drop_id)
  ultimately show ?thesis by (intro exI[of _ "take (length lines - ?n) lines"]) simp
qed

end
