(* ===== verification/TerminalKeys.thy ===== *)
theory TerminalKeys
  imports TerminalModes Utf8
begin

text \<open>
  How text and named keys become the bytes written to a terminal (\<open>terminal_input\<close> and
  \<open>encode_key\<close> of \<open>crates/pbox-agent/src/sessions.rs\<close>).
\<close>

unbundle bit_operations_syntax

section \<open>Named keys\<close>

text \<open>A key's code, its legacy bytes, and for a functional key the number and suffix of its CSI form.\<close>

type_synonym key_info = "nat \<times> string \<times> (nat \<times> char) option"

definition key_table :: "(string \<times> key_info) list" where
  "key_table =
     [(''enter'', 13, [CHR 0x0D], None), (''return'', 13, [CHR 0x0D], None),
      ([CHR 0x0A], 13, [CHR 0x0D], None), ([CHR 0x0D], 13, [CHR 0x0D], None),
      (''tab'', 9, [CHR 0x09], None), ([CHR 0x09], 9, [CHR 0x09], None),
      (''escape'', 27, [CHR 0x1B], None), (''esc'', 27, [CHR 0x1B], None),
      (''backspace'', 127, [CHR 0x7F], None), (''space'', 32, '' '', None),
      (''up'', 57352, [], Some (1, CHR ''A'')), (''down'', 57353, [], Some (1, CHR ''B'')),
      (''right'', 57351, [], Some (1, CHR ''C'')), (''left'', 57350, [], Some (1, CHR ''D'')),
      (''home'', 57356, [], Some (1, CHR ''H'')), (''end'', 57357, [], Some (1, CHR ''F'')),
      (''insert'', 57348, [], Some (2, CHR ''~'')), (''delete'', 57349, [], Some (3, CHR ''~'')),
      (''f1'', 57364, [], Some (1, CHR ''P'')), (''f2'', 57365, [], Some (1, CHR ''Q'')),
      (''f3'', 57366, [], Some (13, CHR ''~'')), (''f4'', 57367, [], Some (1, CHR ''S'')),
      (''f5'', 57368, [], Some (15, CHR ''~'')), (''f6'', 57369, [], Some (17, CHR ''~'')),
      (''f7'', 57370, [], Some (18, CHR ''~'')), (''f8'', 57371, [], Some (19, CHR ''~'')),
      (''f9'', 57372, [], Some (20, CHR ''~'')), (''f10'', 57373, [], Some (21, CHR ''~'')),
      (''f11'', 57374, [], Some (23, CHR ''~'')), (''f12'', 57375, [], Some (24, CHR ''~'')),
      (''pageup'', 57354, [], Some (5, CHR ''~'')), (''pagedown'', 57355, [], Some (6, CHR ''~''))]"

definition key_error :: "string \<Rightarrow> status" where
  "key_error key = St InvalidArgument
     (''unknown key '' @ [CHR 0x27] @ key @ [CHR 0x27] @ ''; use Enter, Escape, Tab, arrows or Ctrl+C'')"

definition modifier_bit :: "string \<Rightarrow> nat option" where
  "modifier_bit part =
     (if part = ''shift'' then Some 1
      else if part = ''alt'' then Some 2
      else if part = ''ctrl'' \<or> part = ''control'' then Some 4
      else None)"

fun modifiers_of :: "string list \<Rightarrow> nat option" where
  "modifiers_of [] = Some 0"
| "modifiers_of (part # parts) =
     (case modifier_bit (lowercase part) of
        None \<Rightarrow> None
      | Some b \<Rightarrow> map_option (\<lambda>m. b OR m) (modifiers_of parts))"

text \<open>
  The key named by the last part: one of the table, or a single character standing for itself
  (lower case under Ctrl).
\<close>

definition key_info :: "nat \<Rightarrow> string \<Rightarrow> key_info option" where
  "key_info modifiers name =
     (case map_of key_table (lowercase name) of
        Some info \<Rightarrow> Some info
      | None \<Rightarrow>
          if length (utf8_chars name) \<noteq> 1 then None
          else let c = (if modifiers AND 4 \<noteq> 0 then lowercase name else name)
               in Some (hd (utf8_chars c), c, None))"

text \<open>The C0 control of a key under Ctrl.\<close>

definition control_byte :: "nat \<Rightarrow> nat option" where
  "control_byte code =
     (if code \<in> {9, 13, 27} then Some code
      else if code = 127 then Some 8
      else if code \<in> {32, 64} then Some 0
      else if 97 \<le> code \<and> code \<le> 122 then Some (code - 96)
      else if 91 \<le> code \<and> code \<le> 95 then Some (code - 64)
      else if code = 63 then Some 127
      else None)"

text \<open>
  \<open>app_cursor\<close>: the screen is in application-cursor mode; \<open>flags\<close>: the kitty
  keyboard flags; \<open>upper\<close>: Unicode upper-casing.
\<close>

definition functional_key :: "bool \<Rightarrow> 16 word \<Rightarrow> nat \<Rightarrow> nat \<Rightarrow> char \<Rightarrow> string" where
  "functional_key app_cursor flags modifiers number suffix =
     (if modifiers \<noteq> 0 then esc_csi @ show_nat number @ '';'' @ show_nat (modifiers + 1) @ [suffix]
      else if suffix = CHR ''~'' then esc_csi @ show_nat number @ ''~''
      else if (app_cursor \<or> suffix \<in> {CHR ''P'', CHR ''Q'', CHR ''S''}) \<and> flags = 0
      then [CHR 0x1B, CHR ''O'', suffix]
      else esc_csi @ [suffix])"

definition plain_key ::
  "(string \<Rightarrow> string) \<Rightarrow> string \<Rightarrow> nat \<Rightarrow> string \<Rightarrow> nat \<Rightarrow> string \<Rightarrow> (status, string) result" where
  "plain_key upper key modifiers name code legacy =
     (let alt = (if modifiers AND 2 \<noteq> 0 then [CHR 0x1B] else [])
      in if modifiers AND 4 \<noteq> 0
         then case control_byte code of
                None \<Rightarrow> Inl (key_error key)
              | Some b \<Rightarrow> Inr (alt @ [char_of b])
         else Inr (alt @ (if modifiers AND 1 \<noteq> 0 \<and> length (utf8_chars name) = 1 then upper name else legacy)))"

definition encode_key ::
  "(string \<Rightarrow> string) \<Rightarrow> bool \<Rightarrow> 16 word \<Rightarrow> string \<Rightarrow> (status, string) result" where
  "encode_key upper app_cursor flags key =
     (let parts = split_char CHR ''+'' key; name = last parts
      in case modifiers_of (butlast parts) of
           None \<Rightarrow> Inl (key_error key)
         | Some modifiers \<Rightarrow>
             (case key_info modifiers name of
                None \<Rightarrow> Inl (key_error key)
              | Some (code, legacy, csi) \<Rightarrow>
                  (case csi of
                     Some (number, suffix) \<Rightarrow> Inr (functional_key app_cursor flags modifiers number suffix)
                   | None \<Rightarrow>
                       if flags AND 8 \<noteq> 0 \<or> (flags AND 1 \<noteq> 0 \<and> (modifiers \<noteq> 0 \<or> code = 27))
                       then Inr (esc_csi @ show_nat code @ '';'' @ show_nat (modifiers + 1) @ ''u'')
                       else if code = 9 \<and> modifiers = 1 then Inr (esc_csi @ ''Z'')
                       else plain_key upper key modifiers name code legacy)))"

section \<open>Text\<close>

fun encode_keys ::
  "(string \<Rightarrow> string) \<Rightarrow> bool \<Rightarrow> 16 word \<Rightarrow> string list \<Rightarrow> (status, string) result" where
  "encode_keys upper app_cursor flags [] = Inr []"
| "encode_keys upper app_cursor flags (key # keys) =
     and_then (encode_key upper app_cursor flags key) (\<lambda>bytes.
     and_then (encode_keys upper app_cursor flags keys) (\<lambda>rest. Inr (bytes @ rest)))"

definition terminal_input ::
  "(string \<Rightarrow> string) \<Rightarrow> bool \<Rightarrow> bool \<Rightarrow> 16 word \<Rightarrow> string \<Rightarrow> string list \<Rightarrow> (status, string) result" where
  "terminal_input upper bracketed_paste app_cursor flags text keys =
     (if list_ex (\<lambda>c. is_control_char c \<and> c \<noteq> 10 \<and> c \<noteq> 13 \<and> c \<noteq> 9) (utf8_chars text)
      then Inl (St InvalidArgument ''text contains control characters; use named keys'')
      else
        and_then
          (if text = [] then Inr []
           else if bracketed_paste then Inr (esc_csi @ ''200~'' @ text @ esc_csi @ ''201~'')
           else if flags AND 8 \<noteq> 0 then encode_keys upper app_cursor flags (char_texts text)
           else Inr text)
          (\<lambda>bytes. and_then (encode_keys upper app_cursor flags keys) (\<lambda>rest. Inr (bytes @ rest))))"

text \<open>The request limits of \<open>send\<close>.\<close>

definition send_limits :: "string \<Rightarrow> string list \<Rightarrow> (status, unit) result" where
  "send_limits text keys =
     (if length text > 64 * 1024 \<or> length keys > 256
      then Inl (St InvalidArgument ''send accepts at most 64 KiB of text and 256 keys'') else Inr ())"

section \<open>Properties\<close>

text \<open>A byte below 128 is always a character of its own: an escape byte cannot hide.\<close>

lemma utf8_chars_step:
  "\<exists>v k. utf8_chars (a # s) = v # utf8_chars (drop k s) \<and> list_all cont (take k s)
     \<and> (byte a < 128 \<longrightarrow> v = byte a)"
proof -
  have one: ?thesis if "utf8_chars (a # s) = v # utf8_chars (drop k s)" "list_all cont (take k s)"
      "byte a < 128 \<longrightarrow> v = byte a" for v k
    using that by blast
  show ?thesis
  proof (cases "byte a < 128")
    case True
    then show ?thesis by (intro one[of "byte a" 0]) (auto simp del: utf8_chars.simps(2) simp add: utf8_chars.simps(2)[of a])
  next
    case high: False
    show ?thesis
    proof (cases s)
      case Nil
      with high show ?thesis by (intro one[of "byte a" 0]) (auto simp del: utf8_chars.simps(2) simp add: utf8_chars.simps(2)[of a])
    next
      case b: (Cons b s1)
      show ?thesis
      proof (cases "192 \<le> byte a \<and> byte a < 224 \<and> cont b")
        case True
        with high b show ?thesis by (intro one[of "(byte a - 192) * 64 + (byte b - 128)" 1]) (auto simp del: utf8_chars.simps(2) simp add: utf8_chars.simps(2)[of a])
      next
        case two: False
        show ?thesis
        proof (cases s1)
          case Nil
          with high b two show ?thesis by (intro one[of "byte a" 0]) (auto simp del: utf8_chars.simps(2) simp add: utf8_chars.simps(2)[of a])
        next
          case c: (Cons c s2)
          show ?thesis
          proof (cases "224 \<le> byte a \<and> byte a < 240 \<and> cont b \<and> cont c")
            case True
            with high b two c show ?thesis
              by (intro one[of "(byte a - 224) * 4096 + (byte b - 128) * 64 + (byte c - 128)" 2]) (auto simp del: utf8_chars.simps(2) simp add: utf8_chars.simps(2)[of a])
          next
            case three: False
            show ?thesis
            proof (cases s2)
              case Nil
              with high b two c three show ?thesis by (intro one[of "byte a" 0]) (auto simp del: utf8_chars.simps(2) simp add: utf8_chars.simps(2)[of a])
            next
              case d: (Cons d s3)
              show ?thesis
              proof (cases "240 \<le> byte a \<and> byte a < 248 \<and> cont b \<and> cont c \<and> cont d")
                case True
                with high b two c three d show ?thesis
                  by (intro one[of "(byte a - 240) * 262144 + (byte b - 128) * 4096 + (byte c - 128) * 64
                        + (byte d - 128)" 3]) (simp_all del: utf8_chars.simps(2) add: utf8_chars.simps(2)[of a] numeral_3_eq_3)
              next
                case False
                with high b two c three d show ?thesis by (intro one[of "byte a" 0]) (auto simp del: utf8_chars.simps(2) simp add: utf8_chars.simps(2)[of a])
              qed
            qed
          qed
        qed
      qed
    qed
  qed
qed

lemma ascii_byte_in_chars: "c \<in> set s \<Longrightarrow> byte c < 128 \<Longrightarrow> byte c \<in> set (utf8_chars s)"
proof (induction "length s" arbitrary: s rule: less_induct)
  case less
  then obtain a r where s: "s = a # r" by (cases s) auto
  obtain v k where step: "utf8_chars (a # r) = v # utf8_chars (drop k r)" "list_all cont (take k r)"
      "byte a < 128 \<longrightarrow> v = byte a"
    using utf8_chars_step by blast
  show ?case
  proof (cases "c = a")
    case True
    with s step(1,3) less.prems(2) show ?thesis by simp
  next
    case False
    with less.prems(1) s have "c \<in> set (take k r) \<union> set (drop k r)"
      by (metis append_take_drop_id set_append set_ConsD)
    moreover have "c \<notin> set (take k r)"
      using step(2) less.prems(2) by (auto simp: list_all_iff cont_def)
    ultimately have "c \<in> set (drop k r)" by blast
    from less.hyps[OF _ this less.prems(2)] s step(1) show ?thesis by simp
  qed
qed

lemma find_sub_None_head: "p = x # q \<Longrightarrow> x \<notin> set s \<Longrightarrow> find_sub p s = None"
  by (induction s) (auto simp: starts_with_def)

text \<open>
  Pasted text cannot leave the paste: while the program has bracketed paste on, text that
  \<open>send\<close> accepts is written between the two paste brackets, and a program that reads up
  to the first closing bracket gets exactly that text, with the keys after it.
\<close>

theorem paste_contained:
  assumes "terminal_input upper True app_cursor flags text keys = Inr bytes" and "text \<noteq> []"
  shows "\<exists>rest. encode_keys upper app_cursor flags keys = Inr rest
    \<and> bytes = esc_csi @ ''200~'' @ text @ esc_csi @ ''201~'' @ rest
    \<and> split_once (text @ esc_csi @ ''201~'' @ rest) (esc_csi @ ''201~'') = Some (text, rest)"
proof -
  have ok: "\<not> list_ex (\<lambda>c. is_control_char c \<and> c \<noteq> 10 \<and> c \<noteq> 13 \<and> c \<noteq> 9) (utf8_chars text)"
    using assms(1) by (auto simp: terminal_input_def split: if_splits)
  have esc: "CHR 0x1B \<notin> set text"
  proof
    assume "CHR 0x1B \<in> set text"
    then have "27 \<in> set (utf8_chars text)"
      using ascii_byte_in_chars[of "CHR 0x1B" "text"] by (simp add: byte_def)
    with ok show False by (auto simp: list_ex_iff is_control_char_def)
  qed
  obtain rest where rest: "encode_keys upper app_cursor flags keys = Inr rest"
      "bytes = esc_csi @ ''200~'' @ text @ esc_csi @ ''201~'' @ rest"
    using assms ok by (auto simp: terminal_input_def res_simps)
  have mark: "esc_csi @ ''201~'' = CHR 0x1B # ''[201~''" by (simp add: esc_csi_def)
  have "find_sub (esc_csi @ ''201~'') (text @ (esc_csi @ ''201~'') @ rest) = Some (length text)"
    by (rule find_sub_unique_head[OF mark]) (use esc find_sub_None_head[OF mark] in auto)
  then have "split_once (text @ esc_csi @ ''201~'' @ rest) (esc_csi @ ''201~'') = Some (text, rest)"
    by (simp add: split_once_def esc_csi_def)
  with rest show ?thesis by blast
qed

lemma paste_contained_witness:
  "\<exists>rest. encode_keys (\<lambda>s. s) False 0 [''Enter''] = Inr rest
    \<and> split_once (''hi'' @ esc_csi @ ''201~'' @ rest) (esc_csi @ ''201~'') = Some (''hi'', rest)"
proof -
  have "encode_keys (\<lambda>s. s) False 0 [''Enter''] = Inr [CHR 0x0D]"
  proof -
    have "split_char CHR ''+'' ''Enter'' = [''Enter'']" by code_simp
    moreover have "lowercase ''Enter'' = ''enter''" by code_simp
    then have "map_of key_table (lowercase ''Enter'') = Some (13, [CHR 0x0D], None)"
      by (simp add: key_table_def)
    ultimately show ?thesis
      by (simp add: encode_key_def key_info_def plain_key_def)
  qed
  moreover have "utf8_chars ''hi'' = [104, 105]" by code_simp
  ultimately have "terminal_input (\<lambda>s. s) True False 0 ''hi'' [''Enter'']
      = Inr (esc_csi @ ''200~'' @ ''hi'' @ esc_csi @ ''201~'' @ [CHR 0x0D])"
    by (simp add: terminal_input_def is_control_char_def)
  from paste_contained[OF this] show ?thesis by auto
qed

text \<open>
  With the report-all-keys flag text is sent key by key, and a plus sign is taken for the
  separator of a key name: such text is refused.
\<close>

lemma plus_key_refused: "encode_key upper app_cursor flags ''+'' = Inl (key_error ''+'')"
proof -
  have "split_char CHR ''+'' ''+'' = [[], []]" by simp
  moreover have "modifiers_of [[]] = None" by code_simp
  ultimately show ?thesis by (simp add: encode_key_def)
qed

lemma plus_text_refused:
  "terminal_input upper False app_cursor 8 ''+'' [] = Inl (key_error ''+'')"
proof -
  have "utf8_chars ''+'' = [43]" by code_simp
  then show ?thesis by (simp add: terminal_input_def is_control_char_def plus_key_refused)
qed

end
