(* ===== verification/Sessions.thy ===== *)
theory Sessions
  imports TerminalKeys Interfaces
begin

text \<open>
  The agent's terminal sessions (\<open>crates/pbox-agent/src/sessions.rs\<close>): a registry of
  named sessions, each owned by one task that publishes its output to the attached viewers.
  Everything done under a lock is one event; the events of all sessions and viewers
  interleave in any order. A terminal screen is the list of what was applied to it.
\<close>

section \<open>Requests\<close>

definition check_protocol :: "nat \<Rightarrow> (status, unit) result" where
  "check_protocol version = (if version \<noteq> PROTOCOL_VERSION then Inl version_error else Inr ())"

definition dimensions :: "nat \<Rightarrow> nat \<Rightarrow> (status, nat \<times> nat) result" where
  "dimensions rows cols =
     (let rows = (if rows = 0 then 24 else rows); cols = (if cols = 0 then 80 else cols)
      in if rows > 200 \<or> cols > 500
         then Inl (St InvalidArgument ''terminal size exceeds 200 rows or 500 columns'')
         else Inr (rows, cols))"

definition validate_name :: "string \<Rightarrow> (status, unit) result" where
  "validate_name name =
     (if name = [] \<or> length name > 64
         \<or> \<not> list_all (\<lambda>c. is_alnum c \<or> c = CHR ''-'' \<or> c = CHR ''_'') name
      then Inl (St InvalidArgument (''session names use 1'' @ [CHR 0xE2, CHR 0x80, CHR 0x93]
             @ ''64 letters, digits, hyphens or underscores''))
      else Inr ())"

section \<open>State\<close>

datatype screen_op = Process string | Resize nat nat

text \<open>
  A session: its description, what its screen was fed, what its owner has received from the
  terminal so far, the viewers subscribed, the requests queued for its terminal, the item being
  delivered with the viewers still to get it, and whether its owner is yet to be spawned,
  running, has left its loop, has dismissed the viewers, or is gone.
\<close>

type_synonym outcome = "(status, exec_event) result"

datatype phase = Idle | Running | Stopping | Dismissed | Gone

record session =
  se_name :: string
  se_user :: string
  se_cwd :: string
  se_argv :: "string list"
  se_rows :: nat
  se_cols :: nat
  se_screen :: "screen_op list"
  se_events :: "outcome list"
  se_outputs :: "nat list"
  se_input :: "exec_request list"
  se_pending :: "(outcome \<times> nat list) option"
  se_generation :: nat
  se_phase :: phase

text \<open>What a viewer's stream carries: the redraw of a screen, then events or an error.\<close>

datatype stream_item = Redraw "screen_op list" | Live outcome

record viewer =
  vw_session :: nat
  vw_user :: string
  vw_from :: nat
  vw_got :: "stream_item list"
  vw_open :: bool
  vw_attached :: bool

text \<open>
  The registry of names, the sessions, the viewers, the attachments prepared but not yet
  subscribed (with their session's number and whether they created it), the next session
  number and the permits left.
\<close>

record sessions =
  sn_registry :: "string \<rightharpoonup> nat"
  sn_sessions :: "nat \<rightharpoonup> session"
  sn_viewers :: "nat \<rightharpoonup> viewer"
  sn_attaching :: "nat \<rightharpoonup> exec_request \<times> nat \<times> bool"
  sn_next :: nat
  sn_slots :: nat

definition new_sessions :: "nat \<Rightarrow> sessions" where
  "new_sessions slots = \<lparr>sn_registry = Map.empty, sn_sessions = Map.empty, sn_viewers = Map.empty,
     sn_attaching = Map.empty, sn_next = 0, sn_slots = slots\<rparr>"

definition set_session :: "nat \<Rightarrow> session \<Rightarrow> sessions \<Rightarrow> sessions" where
  "set_session i x s = s\<lparr>sn_sessions := (sn_sessions s)(i \<mapsto> x)\<rparr>"

text \<open>One message to a viewer; an error ends its stream.\<close>

definition give :: "nat \<Rightarrow> outcome \<Rightarrow> sessions \<Rightarrow> sessions" where
  "give v item s =
     (case sn_viewers s v of
        Some w \<Rightarrow> if vw_open w
          then s\<lparr>sn_viewers := (sn_viewers s)(v \<mapsto> w\<lparr>vw_got := vw_got w @ [Live item], vw_open := is_ok item\<rparr>)\<rparr>
          else s
      | None \<Rightarrow> s)"

definition is_open :: "sessions \<Rightarrow> nat \<Rightarrow> bool" where
  "is_open s v = (case sn_viewers s v of Some w \<Rightarrow> vw_open w | None \<Rightarrow> False)"

section \<open>Finding or creating a session\<close>

text \<open>The request with its defaults filled in, or its first fault.\<close>

definition normalise_request :: "exec_request \<Rightarrow> (status, exec_request) result" where
  "normalise_request r =
     and_then (check_protocol (xr_version r)) (\<lambda>_.
     let r = (if xr_user r = [] then r\<lparr>xr_user := ''pbox''\<rparr> else r)
     in if \<not> xr_pty r then Inl (St InvalidArgument ''terminal requires a PTY'')
        else let r = (if xr_session r = [] then r\<lparr>xr_session := ''main''\<rparr> else r)
             in and_then (validate_name (xr_session r)) (\<lambda>_.
                and_then (dimensions (xr_rows r) (xr_cols r)) (\<lambda>(rows, cols).
                Inr (r\<lparr>xr_rows := rows, xr_cols := cols\<rparr>))))"

definition new_session :: "exec_request \<Rightarrow> session" where
  "new_session r = \<lparr>se_name = xr_session r, se_user = xr_user r, se_cwd = xr_cwd r, se_argv = xr_argv r,
     se_rows = xr_rows r, se_cols = xr_cols r, se_screen = [], se_events = [], se_outputs = [], se_input = [],
     se_pending = None, se_generation = 0, se_phase = Idle\<rparr>"

definition register_session :: "exec_request \<Rightarrow> sessions \<Rightarrow> sessions" where
  "register_session r s =
     s\<lparr>sn_registry := (sn_registry s)(xr_session r \<mapsto> sn_next s),
       sn_sessions := (sn_sessions s)(sn_next s \<mapsto> new_session r),
       sn_next := Suc (sn_next s), sn_slots := sn_slots s - 1\<rparr>"

text \<open>The normalised request, the session's number and whether it is new.\<close>

definition prepare ::
  "exec_request \<Rightarrow> bool \<Rightarrow> sessions \<Rightarrow> (status, exec_request \<times> nat \<times> bool) result \<times> sessions" where
  "prepare first create_only s =
     (case normalise_request first of
        Inl e \<Rightarrow> (Inl e, s)
      | Inr r \<Rightarrow>
          (case Option.bind (sn_registry s (xr_session r)) (\<lambda>i. map_option (Pair i) (sn_sessions s i)) of
             Some (i, x) \<Rightarrow>
               if create_only
               then (Inl (St AlreadyExists ''session already exists; read it or attach with pbox ssh''), s)
               else if se_user x \<noteq> xr_user r
               then (Inl (St FailedPrecondition
                      ''session belongs to a different guest user; choose another session name or use --user''), s)
               else (Inr (r, i, False), s)
           | None \<Rightarrow>
               if sn_slots s = 0
               then (Inl (St ResourceExhausted
                      ''too many running commands or terminal sessions; close an unused session''), s)
               else (Inr (r, sn_next s, True), register_session r s)))"

section \<open>Handlers\<close>

text \<open>A session's owner is spawned.\<close>

definition spawn_owner :: "nat \<Rightarrow> sessions \<Rightarrow> sessions" where
  "spawn_owner i s =
     (case sn_sessions s i of Some x \<Rightarrow> set_session i (x\<lparr>se_phase := Running\<rparr>) s | None \<Rightarrow> s)"

text \<open>\<open>ready\<close> is what the owner reports of the start; \<open>None\<close> if it stopped first.\<close>

definition start_session ::
  "(status, unit) result option \<Rightarrow> exec_request \<Rightarrow> sessions \<Rightarrow> (status, session) result \<times> sessions" where
  "start_session ready first s =
     (case prepare first True s of
        (Inl e, s') \<Rightarrow> (Inl e, s')
      | (Inr (r, i, _), s') \<Rightarrow>
          (and_then (ok_or (St Internal ''terminal owner stopped during startup'') ready) (\<lambda>started.
             map_sum id (\<lambda>_. new_session r) started), spawn_owner i s'))"

definition resize_request :: "nat \<Rightarrow> nat \<Rightarrow> exec_request" where
  "resize_request rows cols =
     default_exec_request\<lparr>xr_version := PROTOCOL_VERSION, xr_rows := rows, xr_cols := cols\<rparr>"

text \<open>
  Attaching viewer \<open>v\<close>: the session is found or made under the registry's lock; then
  subscription and snapshot happen under the session's. \<open>queue_ok\<close>: the terminal's
  input queue had room for the resize.
\<close>

definition attach_prepare :: "nat \<Rightarrow> exec_request \<Rightarrow> sessions \<Rightarrow> (status, unit) result \<times> sessions" where
  "attach_prepare v first s =
     (case prepare first False s of
        (Inl e, s') \<Rightarrow> (Inl e, s')
      | (Inr prepared, s') \<Rightarrow> (Inr (), s'\<lparr>sn_attaching := (sn_attaching s')(v \<mapsto> prepared)\<rparr>))"

definition attach_subscribe :: "nat \<Rightarrow> bool \<Rightarrow> exec_request \<Rightarrow> nat \<Rightarrow> bool \<Rightarrow> session \<Rightarrow> sessions \<Rightarrow> sessions" where
  "attach_subscribe v queue_ok r i created x s =
     (let screen = se_screen x @ [Resize (xr_rows r) (xr_cols r)];
          x' = x\<lparr>se_screen := screen, se_outputs := se_outputs x @ [v],
                 se_rows := xr_rows r, se_cols := xr_cols r,
                 se_input := se_input x
                   @ (if queue_ok then [resize_request (xr_rows r) (xr_cols r)] else []),
                 se_phase := (if created then Running else se_phase x)\<rparr>;
          w = \<lparr>vw_session = i, vw_user = xr_user r, vw_from = length (se_events x),
               vw_got = (if created then [] else [Redraw screen]), vw_open = True, vw_attached = True\<rparr>
      in (set_session i x' s)\<lparr>sn_viewers := (sn_viewers s)(v \<mapsto> w), sn_attaching := (sn_attaching s)(v := None)\<rparr>)"

definition get_session :: "string \<Rightarrow> sessions \<Rightarrow> (status, nat \<times> session) result" where
  "get_session name s =
     ok_or (St NotFound (''session '' @ [CHR 0x27] @ name @ [CHR 0x27] @ '' was not found''))
       (Option.bind (sn_registry s name) (\<lambda>i. map_option (Pair i) (sn_sessions s i)))"

text \<open>
  \<open>send\<close>: \<open>modes\<close> gives, for a screen, bracketed paste, application cursor and
  keyboard flags; \<open>reserved\<close> is how reserving a place in the input queue ends.
\<close>

datatype reserve = Reserved | ReserveLate | QueueClosed

definition send_input ::
  "(string \<Rightarrow> string) \<Rightarrow> (screen_op list \<Rightarrow> bool \<times> bool \<times> 16 word) \<Rightarrow> reserve \<Rightarrow> string \<Rightarrow> string
     \<Rightarrow> string list \<Rightarrow> sessions \<Rightarrow> (status, unit) result \<times> sessions" where
  "send_input upper modes reserved name text keys s =
     (case and_then (send_limits text keys) (\<lambda>_. get_session name s) of
        Inl e \<Rightarrow> (Inl e, s)
      | Inr (i, x) \<Rightarrow>
          (case reserved of
             ReserveLate \<Rightarrow> (Inl (St DeadlineExceeded ''terminal input is busy''), s)
           | QueueClosed \<Rightarrow> (Inl (St NotFound ''terminal has ended''), s)
           | Reserved \<Rightarrow>
               let (bracketed, app_cursor, flags) = modes (se_screen x)
               in (case terminal_input upper bracketed app_cursor flags text keys of
                     Inl e \<Rightarrow> (Inl e, s)
                   | Inr bytes \<Rightarrow>
                       (Inr (), set_session i (x\<lparr>se_input := se_input x
                          @ [default_exec_request\<lparr>xr_version := PROTOCOL_VERSION, xr_stdin := bytes\<rparr>]\<rparr>) s))))"

text \<open>
  A request of an attached viewer; \<open>None\<close> is anything that ends its task: the viewer
  gone, its stream ended, broken or idle.
\<close>

definition detach :: "nat \<Rightarrow> sessions \<Rightarrow> sessions" where
  "detach v s =
     (case sn_viewers s v of
        Some w \<Rightarrow> s\<lparr>sn_viewers := (sn_viewers s)(v \<mapsto> w\<lparr>vw_attached := False\<rparr>)\<rparr> | None \<Rightarrow> s)"

definition queue_request :: "nat \<Rightarrow> (nat \<times> nat) option \<Rightarrow> exec_request \<Rightarrow> sessions \<Rightarrow> sessions" where
  "queue_request i resize r s =
     (case sn_sessions s i of
        None \<Rightarrow> s
      | Some x \<Rightarrow>
          let x1 = (case resize of
                      Some (rows, cols) \<Rightarrow>
                        x\<lparr>se_screen := se_screen x @ [Resize rows cols], se_rows := rows, se_cols := cols\<rparr>
                    | None \<Rightarrow> x)
          in set_session i (x1\<lparr>se_input := se_input x1 @ [r]\<rparr>) s)"

definition viewer_input :: "nat \<Rightarrow> reserve \<Rightarrow> exec_request option \<Rightarrow> sessions \<Rightarrow> sessions" where
  "viewer_input v reserved request s =
     (case sn_viewers s v of
        None \<Rightarrow> s
      | Some w \<Rightarrow>
          (case request of
             None \<Rightarrow> detach v s
           | Some r \<Rightarrow>
               if check_protocol (xr_version r) \<noteq> Inr () \<or> xr_stdin_eof r then detach v s
               else case (if xr_rows r > 0 \<and> xr_cols r > 0
                          then map_sum id Some (dimensions (xr_rows r) (xr_cols r)) else Inr None) of
                   Inl e \<Rightarrow> detach v (give v (Inl e) s)
                 | Inr resize \<Rightarrow>
                     if reserved \<noteq> Reserved then detach v s
                     else queue_request (vw_session w) resize r s))"

section \<open>The owner of a session\<close>

definition stdout_bytes :: "outcome \<Rightarrow> string" where
  "stdout_bytes event = (case event of Inr (Stdout bytes) \<Rightarrow> bytes | _ \<Rightarrow> [])"

text \<open>
  The part of \<open>publish_output\<close> under the lock. \<open>replies\<close> gives the answers to
  terminal queries, asked of a screen while no viewer is open.
\<close>

definition publish_output ::
  "(bool \<Rightarrow> screen_op list \<Rightarrow> string \<Rightarrow> string) \<Rightarrow> bool \<Rightarrow> nat \<Rightarrow> outcome \<Rightarrow> session \<Rightarrow> sessions \<Rightarrow> sessions" where
  "publish_output replies queue_ok i event x s =
     (let open_viewers = filter (is_open s) (se_outputs x);
          x1 = (case event of
                  Inr (Stdout bytes) \<Rightarrow>
                    let answer = replies (open_viewers = []) (se_screen x) bytes
                    in x\<lparr>se_screen := se_screen x @ [Process bytes],
                         se_input := se_input x
                           @ (if answer \<noteq> [] \<and> queue_ok
                              then [default_exec_request\<lparr>xr_version := PROTOCOL_VERSION, xr_stdin := answer\<rparr>]
                              else [])\<rparr>
                | _ \<Rightarrow> x)
      in set_session i (x1\<lparr>se_events := se_events x @ [event], se_outputs := open_viewers,
           se_pending := Some (event, open_viewers)\<rparr>) s)"

text \<open>The next of the sends that follow, outside the lock; a closed viewer is dropped.\<close>

definition deliver_next :: "nat \<Rightarrow> session \<Rightarrow> sessions \<Rightarrow> sessions" where
  "deliver_next i x s =
     (case se_pending x of
        None \<Rightarrow> s
      | Some (event, []) \<Rightarrow> set_session i (x\<lparr>se_pending := None\<rparr>) s
      | Some (event, v # vs) \<Rightarrow>
          if is_open s v then set_session i (x\<lparr>se_pending := Some (event, vs)\<rparr>) (give v event s)
          else set_session i (x\<lparr>se_pending := Some (event, vs),
                 se_outputs := filter (is_open s) (se_outputs x)\<rparr>) s)"

text \<open>
  The end of \<open>own_session\<close>: the loop is left, the viewers are told, the name is freed
  and the permit returned. \<open>room v\<close>: the viewer's channel had room for the message.
\<close>

definition cancelled :: status where
  "cancelled = St Cancelled ''terminal session closed''"

definition dismiss_viewers :: "(nat \<Rightarrow> bool) \<Rightarrow> nat \<Rightarrow> session \<Rightarrow> sessions \<Rightarrow> sessions" where
  "dismiss_viewers room i x s =
     set_session i (x\<lparr>se_outputs := [], se_generation := Suc (se_generation x), se_phase := Dismissed\<rparr>)
       (fold (\<lambda>v s. if room v then give v (Inl cancelled) s else s) (se_outputs x) s)"

definition forget_session :: "nat \<Rightarrow> session \<Rightarrow> sessions \<Rightarrow> sessions" where
  "forget_session i x s =
     (set_session i (x\<lparr>se_phase := Gone\<rparr>) s)
       \<lparr>sn_registry := (sn_registry s)(se_name x := None), sn_slots := Suc (sn_slots s)\<rparr>"

section \<open>The system\<close>

datatype session_event =
    StartSession "(status, unit) result option" exec_request
  | AttachPrepare nat exec_request
  | AttachSubscribe nat bool
  | SendInput reserve string string "string list"
  | ViewerInput nat reserve "exec_request option"
  | ViewerCloses nat
  | Heartbeat nat
  | Publish nat bool outcome
  | DeliverNext nat
  | OwnerStops nat
  | OwnerDismisses nat "nat \<Rightarrow> bool"
  | OwnerForgets nat

text \<open>What a session's owner does, if it is in the phase for it.\<close>

definition owner_acts :: "nat \<Rightarrow> (session \<Rightarrow> bool) \<Rightarrow> (session \<Rightarrow> sessions \<Rightarrow> sessions) \<Rightarrow> sessions \<Rightarrow> sessions option" where
  "owner_acts i ready f s =
     (case sn_sessions s i of Some x \<Rightarrow> if ready x then Some (f x s) else None | None \<Rightarrow> None)"

fun session_step ::
  "(string \<Rightarrow> string) \<Rightarrow> (screen_op list \<Rightarrow> bool \<times> bool \<times> 16 word)
     \<Rightarrow> (bool \<Rightarrow> screen_op list \<Rightarrow> string \<Rightarrow> string) \<Rightarrow> session_event \<Rightarrow> sessions \<Rightarrow> sessions option" where
  "session_step upper modes replies (StartSession ready r) s = Some (snd (start_session ready r s))"
| "session_step upper modes replies (AttachPrepare v r) s =
     (if sn_viewers s v = None \<and> sn_attaching s v = None then Some (snd (attach_prepare v r s)) else None)"
| "session_step upper modes replies (AttachSubscribe v queue_ok) s =
     (case sn_attaching s v of
        Some (r, i, created) \<Rightarrow>
          (case sn_sessions s i of
             Some x \<Rightarrow> Some (attach_subscribe v queue_ok r i created x s) | None \<Rightarrow> None)
      | None \<Rightarrow> None)"
| "session_step upper modes replies (SendInput reserved name text keys) s =
     Some (snd (send_input upper modes reserved name text keys s))"
| "session_step upper modes replies (ViewerInput v reserved r) s =
     (case sn_viewers s v of
        Some w \<Rightarrow> if vw_attached w then Some (viewer_input v reserved r s) else None | None \<Rightarrow> None)"
| "session_step upper modes replies (ViewerCloses v) s =
     (case sn_viewers s v of
        Some w \<Rightarrow> Some (s\<lparr>sn_viewers := (sn_viewers s)(v \<mapsto> w\<lparr>vw_open := False\<rparr>)\<rparr>) | None \<Rightarrow> None)"
| "session_step upper modes replies (Heartbeat i) s =
     owner_acts i (\<lambda>x. se_phase x = Running \<and> se_pending x = None)
       (\<lambda>x. set_session i (x\<lparr>se_input := se_input x
          @ [default_exec_request\<lparr>xr_version := PROTOCOL_VERSION\<rparr>]\<rparr>)) s"
| "session_step upper modes replies (Publish i queue_ok event) s =
     owner_acts i (\<lambda>x. se_phase x = Running \<and> se_pending x = None) (publish_output replies queue_ok i event) s"
| "session_step upper modes replies (DeliverNext i) s =
     owner_acts i (\<lambda>x. se_phase x = Running \<and> se_pending x \<noteq> None) (deliver_next i) s"
| "session_step upper modes replies (OwnerStops i) s =
     owner_acts i (\<lambda>x. se_phase x = Running)
       (\<lambda>x. set_session i (x\<lparr>se_phase := Stopping, se_pending := None\<rparr>)) s"
| "session_step upper modes replies (OwnerDismisses i room) s =
     owner_acts i (\<lambda>x. se_phase x = Stopping) (dismiss_viewers room i) s"
| "session_step upper modes replies (OwnerForgets i) s =
     owner_acts i (\<lambda>x. se_phase x = Dismissed) (forget_session i) s"

end
