(* ===== verification/SessionProofs.thy ===== *)
theory SessionProofs
  imports Sessions
begin

text \<open>
  What the terminal sessions keep under every interleaving of requests, viewers and owners:
  one live session per name and one permit per session, viewers only of their own user's
  sessions, and to each viewer the redraw of the screen followed by exactly the later output.
\<close>

lemmas session_defs = set_session_def Let_def

section \<open>Names, permits and users\<close>

definition registry_ok :: "nat \<Rightarrow> sessions \<Rightarrow> bool" where
  "registry_ok limit s \<longleftrightarrow>
     finite (dom (sn_registry s)) \<and> sn_slots s + card (dom (sn_registry s)) = limit
     \<and> (\<forall>n i. sn_registry s n = Some i \<longleftrightarrow> (\<exists>x. sn_sessions s i = Some x \<and> se_name x = n \<and> se_phase x \<noteq> Gone))
     \<and> (\<forall>i. sn_sessions s i \<noteq> None \<longrightarrow> i < sn_next s)"

definition users_ok :: "sessions \<Rightarrow> bool" where
  "users_ok s \<longleftrightarrow>
     (\<forall>v w. sn_viewers s v = Some w \<longrightarrow>
        (\<exists>x. sn_sessions s (vw_session w) = Some x \<and> se_user x = vw_user w))
     \<and> (\<forall>v r i c. sn_attaching s v = Some (r, i, c) \<longrightarrow>
          sn_viewers s v = None
          \<and> (\<exists>x. sn_sessions s i = Some x \<and> se_user x = xr_user r \<and> (c \<longrightarrow> se_phase x = Idle)))
     \<and> (\<forall>u v q r i. sn_attaching s u = Some (q, i, True) \<longrightarrow> sn_attaching s v = Some (r, i, True) \<longrightarrow> u = v)"

lemma registry_entry:
  "registry_ok limit s \<Longrightarrow>
     sn_registry s n = Some i \<longleftrightarrow> (\<exists>x. sn_sessions s i = Some x \<and> se_name x = n \<and> se_phase x \<noteq> Gone)"
  by (simp add: registry_ok_def)

lemma registry_permits:
  "registry_ok limit s \<Longrightarrow> finite (dom (sn_registry s)) \<and> sn_slots s + card (dom (sn_registry s)) = limit"
  by (simp add: registry_ok_def)

lemma fresh_session: "registry_ok limit s \<Longrightarrow> sn_next s \<le> i \<Longrightarrow> sn_sessions s i = None"
  unfolding registry_ok_def using leD by blast

lemma users_ok_viewer:
  "users_ok s \<Longrightarrow> sn_viewers s v = Some w \<Longrightarrow>
     \<exists>x. sn_sessions s (vw_session w) = Some x \<and> se_user x = vw_user w"
  unfolding users_ok_def by blast

lemma users_ok_attaching:
  assumes "users_ok s" "sn_attaching s v = Some (r, i, c)"
  shows "sn_viewers s v = None"
    and "\<exists>x. sn_sessions s i = Some x \<and> se_user x = xr_user r \<and> (c \<longrightarrow> se_phase x = Idle)"
  using assms unfolding users_ok_def by blast+

lemma users_ok_creator:
  "users_ok s \<Longrightarrow> sn_attaching s u = Some (q, i, True) \<Longrightarrow> sn_attaching s v = Some (r, i, True) \<Longrightarrow> u = v"
  unfolding users_ok_def by blast

text \<open>A step that changes none of what these speak of.\<close>

definition session_frame :: "session \<Rightarrow> string \<times> string \<times> phase" where
  "session_frame x = (se_name x, se_user x, se_phase x)"

definition viewer_frame :: "viewer \<Rightarrow> nat \<times> string" where
  "viewer_frame w = (vw_session w, vw_user w)"

definition quiet :: "sessions \<Rightarrow> sessions \<Rightarrow> bool" where
  "quiet s t \<longleftrightarrow>
     sn_registry t = sn_registry s \<and> sn_attaching t = sn_attaching s
     \<and> sn_next t = sn_next s \<and> sn_slots t = sn_slots s
     \<and> (\<forall>i. map_option session_frame (sn_sessions t i) = map_option session_frame (sn_sessions s i))
     \<and> (\<forall>v. map_option viewer_frame (sn_viewers t v) = map_option viewer_frame (sn_viewers s v))"

lemma quiet_refl [simp]: "quiet s s"
  by (simp add: quiet_def)

lemma quiet_trans [trans]: "quiet s t \<Longrightarrow> quiet t u \<Longrightarrow> quiet s u"
  by (simp add: quiet_def)

lemma quiet_frames:
  assumes "quiet s t"
  shows "map_option session_frame (sn_sessions t i) = map_option session_frame (sn_sessions s i)"
    and "map_option viewer_frame (sn_viewers t v) = map_option viewer_frame (sn_viewers s v)"
  using assms unfolding quiet_def by blast+

lemma quiet_session:
  assumes "quiet s t"
  shows "(\<exists>x. sn_sessions t i = Some x \<and> P (se_name x) (se_user x) (se_phase x))
       \<longleftrightarrow> (\<exists>x. sn_sessions s i = Some x \<and> P (se_name x) (se_user x) (se_phase x))"
  using quiet_frames(1)[OF assms, of i]
  by (cases "sn_sessions s i"; cases "sn_sessions t i") (auto simp: session_frame_def)

lemma quiet_viewer:
  assumes "quiet s t" "sn_viewers t v = Some w"
  obtains w' where "sn_viewers s v = Some w'" "vw_session w' = vw_session w" "vw_user w' = vw_user w"
  using quiet_frames(2)[OF assms(1), of v] assms(2) that
  by (cases "sn_viewers s v") (auto simp: viewer_frame_def)

lemma quiet_no_viewer: "quiet s t \<Longrightarrow> sn_viewers t v = None \<longleftrightarrow> sn_viewers s v = None"
  using quiet_frames(2)[of s t v] by (cases "sn_viewers s v"; cases "sn_viewers t v") auto

lemma registry_ok_quiet:
  assumes "quiet s t" "registry_ok limit s"
  shows "registry_ok limit t"
proof -
  have "sn_sessions t i \<noteq> None \<longleftrightarrow> sn_sessions s i \<noteq> None" for i
    using quiet_session[OF assms(1), of i "\<lambda>_ _ _. True"] by auto
  moreover have "(\<exists>x. sn_sessions t i = Some x \<and> se_name x = n \<and> se_phase x \<noteq> Gone)
      \<longleftrightarrow> (\<exists>x. sn_sessions s i = Some x \<and> se_name x = n \<and> se_phase x \<noteq> Gone)" for i n
    by (rule quiet_session[OF assms(1)])
  ultimately show ?thesis using assms by (simp add: registry_ok_def quiet_def)
qed

lemma users_ok_quiet:
  assumes "quiet s t" "users_ok s"
  shows "users_ok t"
proof -
  have att: "sn_attaching t = sn_attaching s" using assms by (simp add: quiet_def)
  have "\<exists>x. sn_sessions t (vw_session w) = Some x \<and> se_user x = vw_user w" if w: "sn_viewers t v = Some w" for v w
  proof -
    obtain w' where "sn_viewers s v = Some w'" "vw_session w' = vw_session w" "vw_user w' = vw_user w"
      using quiet_viewer[OF assms(1) w] .
    then have "\<exists>x. sn_sessions s (vw_session w) = Some x \<and> se_user x = vw_user w"
      using assms(2) unfolding users_ok_def by metis
    then show ?thesis using quiet_session[OF assms(1), of _ "\<lambda>_ u _. u = vw_user w"] by blast
  qed
  moreover have "\<exists>x. sn_sessions t i = Some x \<and> se_user x = xr_user r \<and> (c \<longrightarrow> se_phase x = Idle)"
    if "sn_attaching s v = Some (r, i, c)" for v r i c
    using that assms(2) quiet_session[OF assms(1), of _ "\<lambda>_ u p. u = xr_user r \<and> (c \<longrightarrow> p = Idle)"]
    unfolding users_ok_def by metis
  moreover have "sn_viewers t v = None" if "sn_attaching s v = Some (r, i, c)" for v r i c
    using that assms quiet_no_viewer[OF assms(1)] by (simp add: users_ok_def)
  ultimately show ?thesis using assms(2) by (auto simp: users_ok_def att)
qed

lemma quiet_set_session:
  "sn_sessions s i = Some x \<Longrightarrow> session_frame x' = session_frame x \<Longrightarrow> quiet s (set_session i x' s)"
  by (simp add: quiet_def set_session_def)

lemma quiet_give: "quiet s (give v item s)"
  by (simp add: quiet_def give_def viewer_frame_def split: option.splits)

lemma quiet_detach: "quiet s (detach v s)"
  by (simp add: quiet_def detach_def viewer_frame_def split: option.splits)

lemma quiet_queue_request: "quiet s (queue_request i resize r s)"
  by (auto simp: queue_request_def Let_def session_frame_def split: option.splits intro!: quiet_set_session)

lemma quiet_give_detach: "quiet s (detach v (give u item s))"
  by (rule quiet_trans[OF quiet_give quiet_detach])

lemma quiet_viewer_input: "quiet s (viewer_input v reserved request s)"
  unfolding viewer_input_def
  by (auto split: option.splits sum.splits intro: quiet_detach quiet_queue_request quiet_give_detach)

lemma give_sessions [simp]: "sn_sessions (give v item s) = sn_sessions s"
  by (simp add: give_def split: option.splits)

lemma get_session_Inr:
  "get_session name s = Inr (i, x) \<longleftrightarrow> sn_registry s name = Some i \<and> sn_sessions s i = Some x"
  by (auto simp: get_session_def ok_or_def split: option.splits bind_splits)

lemma quiet_send_input: "quiet s (snd (send_input upper modes reserved name text keys s))"
  by (auto simp: send_input_def and_then_Inr_iff get_session_Inr session_frame_def
      split: sum.splits reserve.splits prod.splits intro!: quiet_set_session)

lemma quiet_publish: "sn_sessions s i = Some x \<Longrightarrow> quiet s (publish_output replies queue_ok i event x s)"
  by (auto simp: publish_output_def Let_def session_frame_def
      split: sum.splits exec_event.splits intro!: quiet_set_session)

lemma quiet_give_session:
  "sn_sessions s i = Some x \<Longrightarrow> session_frame x' = session_frame x
     \<Longrightarrow> quiet s (set_session i x' (give v item s))"
  by (rule quiet_trans[OF quiet_give quiet_set_session]) simp_all

lemma quiet_deliver: "sn_sessions s i = Some x \<Longrightarrow> quiet s (deliver_next i x s)"
  by (auto simp: deliver_next_def session_frame_def
      split: option.splits prod.splits list.splits intro!: quiet_set_session quiet_give_session)

text \<open>A session that moves on from one phase to another, still registered.\<close>

lemma registry_ok_phase:
  assumes "registry_ok limit s" "sn_sessions s i = Some x" "se_name x' = se_name x"
    and "se_phase x' = Gone \<longleftrightarrow> se_phase x = Gone"
  shows "registry_ok limit (set_session i x' s)"
  using assms by (auto simp: registry_ok_def set_session_def)

lemma users_ok_phase:
  assumes inv: "users_ok s" and x: "sn_sessions s i = Some x" and user: "se_user x' = se_user x"
    and idle: "\<And>v r. sn_attaching s v = Some (r, i, True) \<Longrightarrow> se_phase x' = Idle"
  shows "users_ok (set_session i x' s)"
  unfolding users_ok_def
proof (intro conjI allI impI)
  fix v w assume "sn_viewers (set_session i x' s) v = Some w"
  then show "\<exists>y. sn_sessions (set_session i x' s) (vw_session w) = Some y \<and> se_user y = vw_user w"
    using users_ok_viewer[OF inv, of v w] x user by (auto simp: set_session_def)
next
  fix v r j c assume att: "sn_attaching (set_session i x' s) v = Some (r, j, c)"
  then show "sn_viewers (set_session i x' s) v = None"
    using users_ok_attaching(1)[OF inv] by (simp add: set_session_def)
  show "\<exists>y. sn_sessions (set_session i x' s) j = Some y \<and> se_user y = xr_user r \<and> (c \<longrightarrow> se_phase y = Idle)"
    using att users_ok_attaching(2)[OF inv, of v r j c] x user idle[of v r]
    by (cases "j = i") (auto simp: set_session_def)
next
  fix u v q r j
  assume "sn_attaching (set_session i x' s) u = Some (q, j, True)" "sn_attaching (set_session i x' s) v = Some (r, j, True)"
  then show "u = v" using users_ok_creator[OF inv] by (simp add: set_session_def)
qed

text \<open>What \<open>prepare\<close> can do.\<close>

lemma prepare_cases:
  assumes "registry_ok limit s" "prepare first create_only s = (res, t)"
  obtains (failed) e where "res = Inl e" "t = s"
  | (found) r i x where "res = Inr (r, i, False)" "t = s" "\<not> create_only" "normalise_request first = Inr r"
      "sn_registry s (xr_session r) = Some i" "sn_sessions s i = Some x" "se_user x = xr_user r"
  | (created) r where "res = Inr (r, sn_next s, True)" "t = register_session r s" "normalise_request first = Inr r"
      "sn_registry s (xr_session r) = None" "0 < sn_slots s"
proof (cases "normalise_request first")
  case (Inl e)
  then show ?thesis using assms(2) failed by (auto simp: prepare_def)
next
  case (Inr r)
  show ?thesis
  proof (cases "sn_registry s (xr_session r)")
    case None
    with Inr assms(2) show ?thesis
      using failed created[of r] by (auto simp: prepare_def split: if_splits)
  next
    case (Some i)
    then obtain x where "sn_sessions s i = Some x" using assms(1) by (auto simp: registry_ok_def)
    with Some Inr assms(2) show ?thesis
      using failed found[of r i x] by (auto simp: prepare_def split: if_splits)
  qed
qed

lemma registry_ok_register:
  assumes inv: "registry_ok limit s" and new: "sn_registry s (xr_session r) = None" and slot: "0 < sn_slots s"
  shows "registry_ok limit (register_session r s)"
proof -
  note fresh = fresh_session[OF inv order.refl]
  have "card (insert (xr_session r) (dom (sn_registry s))) = Suc (card (dom (sn_registry s)))"
    using new registry_permits[OF inv] by (simp add: domIff)
  then have "sn_slots s - 1 + card (insert (xr_session r) (dom (sn_registry s))) = limit"
    using slot registry_permits[OF inv] by simp
  moreover have "\<not> (\<exists>x. sn_sessions s i = Some x \<and> se_name x = xr_session r \<and> se_phase x \<noteq> Gone)" for i
    using registry_entry[OF inv, of "xr_session r" i] new by simp
  moreover have "sn_registry s n \<noteq> Some (sn_next s)" for n
    using registry_entry[OF inv, of n "sn_next s"] fresh by simp
  ultimately show ?thesis
    using inv fresh by (auto simp: registry_ok_def register_session_def new_session_def less_Suc_eq)
qed

lemma registry_ok_forget:
  assumes inv: "registry_ok limit s" and x: "sn_sessions s i = Some x" and live: "se_phase x \<noteq> Gone"
  shows "registry_ok limit (forget_session i x s)"
proof -
  have mem: "sn_registry s (se_name x) = Some i" using registry_entry[OF inv] x live by blast
  have "card (dom (sn_registry s)) = Suc (card (dom (sn_registry s) - {se_name x}))"
    using mem registry_permits[OF inv] by (intro card.remove) auto
  then have "Suc (sn_slots s) + card (dom (sn_registry s) - {se_name x}) = limit"
    using registry_permits[OF inv] by simp
  moreover have "sn_registry s n = Some i \<longleftrightarrow> n = se_name x" for n
    using registry_entry[OF inv, of n i] x live by auto
  moreover have "\<not> (\<exists>y. sn_sessions s j = Some y \<and> se_name y = se_name x \<and> se_phase y \<noteq> Gone)" if "j \<noteq> i" for j
    using registry_entry[OF inv, of "se_name x" j] mem that by auto
  ultimately show ?thesis
    using inv x by (auto simp: registry_ok_def forget_session_def set_session_def)
qed

lemma users_ok_extends:
  assumes inv: "users_ok s" and same: "sn_viewers t = sn_viewers s" "sn_attaching t = sn_attaching s"
    and more: "\<And>i x. sn_sessions s i = Some x \<Longrightarrow> sn_sessions t i = Some x"
  shows "users_ok t"
  unfolding users_ok_def same
proof (intro conjI allI impI)
  fix v w assume "sn_viewers s v = Some w"
  from users_ok_viewer[OF inv this] more
  show "\<exists>x. sn_sessions t (vw_session w) = Some x \<and> se_user x = vw_user w" by blast
next
  fix v r i c assume "sn_attaching s v = Some (r, i, c)"
  from users_ok_attaching[OF inv this] more
  show "sn_viewers s v = None"
    and "\<exists>x. sn_sessions t i = Some x \<and> se_user x = xr_user r \<and> (c \<longrightarrow> se_phase x = Idle)" by blast+
qed (rule users_ok_creator[OF inv])

lemma users_ok_register: "users_ok s \<Longrightarrow> registry_ok limit s \<Longrightarrow> users_ok (register_session r s)"
  by (erule users_ok_extends) (auto simp: register_session_def dest: fresh_session[OF _ order.refl])

text \<open>An attachment prepared: by joining a session of its user or by making one.\<close>

lemma users_ok_prepared:
  assumes inv: "users_ok s" and fresh: "sn_viewers s v = None"
    and x: "sn_sessions s i = Some x" "se_user x = xr_user r" "c \<longrightarrow> se_phase x = Idle"
    and creator: "\<And>u q. c \<Longrightarrow> sn_attaching s u \<noteq> Some (q, i, True)"
  shows "users_ok (s\<lparr>sn_attaching := (sn_attaching s)(v \<mapsto> (r, i, c))\<rparr>)" (is "users_ok ?t")
  unfolding users_ok_def
proof (intro conjI allI impI)
  fix u w assume "sn_viewers ?t u = Some w"
  then show "\<exists>x. sn_sessions ?t (vw_session w) = Some x \<and> se_user x = vw_user w"
    using users_ok_viewer[OF inv] by simp
next
  fix u q j d assume "sn_attaching ?t u = Some (q, j, d)"
  then show "sn_viewers ?t u = None"
    and "\<exists>x. sn_sessions ?t j = Some x \<and> se_user x = xr_user q \<and> (d \<longrightarrow> se_phase x = Idle)"
    using fresh x users_ok_attaching[OF inv, of u q j d] by (auto split: if_splits)
next
  fix u u' q q' j
  assume "sn_attaching ?t u = Some (q, j, True)" "sn_attaching ?t u' = Some (q', j, True)"
  then show "u = u'" using creator users_ok_creator[OF inv] by (auto split: if_splits)
qed

text \<open>An attachment that becomes a viewer; its session runs if it made it.\<close>

lemma users_ok_subscribed:
  assumes inv: "users_ok s" and att: "sn_attaching s v = Some (r, i, c)" and x: "sn_sessions s i = Some x"
    and x': "se_user x' = se_user x" "se_phase x' = (if c then Running else se_phase x)"
    and w: "vw_session w = i" "vw_user w = xr_user r"
  shows "users_ok ((set_session i x' s)\<lparr>sn_viewers := (sn_viewers s)(v \<mapsto> w),
           sn_attaching := (sn_attaching s)(v := None)\<rparr>)" (is "users_ok ?t")
  unfolding users_ok_def
proof (intro conjI allI impI)
  have user: "se_user x = xr_user r" using users_ok_attaching(2)[OF inv att] x by auto
  fix u w' assume "sn_viewers ?t u = Some w'"
  then show "\<exists>y. sn_sessions ?t (vw_session w') = Some y \<and> se_user y = vw_user w'"
    using users_ok_viewer[OF inv, of u w'] x x' w user by (auto simp: set_session_def split: if_splits)
next
  fix u q j d assume "sn_attaching ?t u = Some (q, j, d)"
  then have u: "u \<noteq> v" "sn_attaching s u = Some (q, j, d)" by (auto split: if_splits)
  then show "sn_viewers ?t u = None" using users_ok_attaching(1)[OF inv] by simp
  have "\<not> (c \<and> d \<and> j = i)" using users_ok_creator[OF inv, of v r i u q] att u by auto
  then show "\<exists>y. sn_sessions ?t j = Some y \<and> se_user y = xr_user q \<and> (d \<longrightarrow> se_phase y = Idle)"
    using users_ok_attaching(2)[OF inv u(2)] x x' by (auto simp: set_session_def)
next
  fix u u' q q' j
  assume "sn_attaching ?t u = Some (q, j, True)" "sn_attaching ?t u' = Some (q', j, True)"
  then show "u = u'" using users_ok_creator[OF inv] by (auto split: if_splits)
qed

section \<open>What a viewer gets\<close>

definition printed :: "outcome list \<Rightarrow> string" where
  "printed events = concat (map stdout_bytes events)"

definition fed :: "screen_op list \<Rightarrow> string" where
  "fed ops = concat (map (\<lambda>op. case op of Process bytes \<Rightarrow> bytes | Resize _ _ \<Rightarrow> []) ops)"

lemma printed_append [simp]: "printed (es @ fs) = printed es @ printed fs"
  by (simp add: printed_def)

lemma printed_simps [simp]: "printed [] = []" "printed (e # es) = stdout_bytes e @ printed es"
  by (simp_all add: printed_def)

lemma fed_append [simp]: "fed (es @ fs) = fed es @ fed fs"
  by (simp add: fed_def)

lemma fed_simps [simp]:
  "fed [] = []" "fed (Process bytes # es) = bytes @ fed es" "fed (Resize rows cols # es) = fed es"
  by (simp_all add: fed_def)

text \<open>The item being delivered, as long as this viewer has not got it.\<close>

definition owed :: "nat \<Rightarrow> session \<Rightarrow> outcome list" where
  "owed v x = (case se_pending x of Some (event, vs) \<Rightarrow> if v \<in> set vs then [event] else [] | None \<Rightarrow> [])"

text \<open>
  A stream starts with the redraw of a screen fed what was printed before the viewer came,
  or with nothing if there was nothing; then come the events since then.
\<close>

definition starts_at :: "stream_item list \<Rightarrow> viewer \<Rightarrow> session \<Rightarrow> bool" where
  "starts_at first w x \<longleftrightarrow>
     vw_from w \<le> length (se_events x)
     \<and> (first = [] \<and> vw_from w = 0
        \<or> (\<exists>ops. first = [Redraw ops] \<and> fed ops = printed (take (vw_from w) (se_events x))))"

definition stream_ok :: "nat \<Rightarrow> viewer \<Rightarrow> session \<Rightarrow> bool" where
  "stream_ok v w x \<longleftrightarrow>
     (\<exists>first live ending rest.
        vw_got w = first @ map Live (live @ ending) \<and> starts_at first w x
        \<and> drop (vw_from w) (se_events x) = live @ rest
        \<and> (ending = [] \<or> \<not> vw_open w \<and> (\<exists>e. ending = [Inl e]))
        \<and> (vw_open w \<and> se_phase x \<in> {Idle, Running} \<longrightarrow> v \<in> set (se_outputs x) \<and> rest = owed v x))"

definition watched :: "session \<Rightarrow> nat set" where
  "watched x = set (se_outputs x) \<union> (case se_pending x of Some (_, vs) \<Rightarrow> set vs | None \<Rightarrow> {})"

definition session_ok :: "session \<Rightarrow> bool" where
  "session_ok x \<longleftrightarrow>
     fed (se_screen x) = printed (se_events x)
     \<and> distinct (se_outputs x)
     \<and> (se_phase x = Idle \<longrightarrow> se_events x = [] \<and> se_pending x = None)
     \<and> (\<forall>event vs. se_pending x = Some (event, vs) \<longrightarrow> distinct vs)"

definition streams_ok :: "sessions \<Rightarrow> bool" where
  "streams_ok s \<longleftrightarrow>
     (\<forall>i x. sn_sessions s i = Some x \<longrightarrow> session_ok x
        \<and> (\<forall>v \<in> watched x. \<exists>w. sn_viewers s v = Some w \<and> vw_session w = i))
     \<and> (\<forall>v w x. sn_viewers s v = Some w \<longrightarrow> sn_sessions s (vw_session w) = Some x \<longrightarrow> stream_ok v w x)"

lemma streams_ok_session:
  assumes "streams_ok s" "sn_sessions s i = Some x"
  shows "session_ok x" and "v \<in> watched x \<Longrightarrow> \<exists>w. sn_viewers s v = Some w \<and> vw_session w = i"
  using assms unfolding streams_ok_def by blast+

lemma streams_ok_stream:
  "streams_ok s \<Longrightarrow> sn_viewers s v = Some w \<Longrightarrow> sn_sessions s (vw_session w) = Some x \<Longrightarrow> stream_ok v w x"
  unfolding streams_ok_def by blast

text \<open>A step of one session and its viewers.\<close>

lemma streams_ok_step:
  assumes inv: "streams_ok s" and sess: "sn_sessions t = (sn_sessions s)(i \<mapsto> x')"
    and ok: "session_ok x'" and watch: "\<And>v. v \<in> watched x' \<Longrightarrow> \<exists>w. sn_viewers t v = Some w \<and> vw_session w = i"
    and others: "\<And>v w. sn_viewers t v = Some w \<Longrightarrow> vw_session w \<noteq> i \<Longrightarrow> sn_viewers s v = Some w"
    and kept: "\<And>v w. sn_viewers s v = Some w \<Longrightarrow> vw_session w \<noteq> i \<Longrightarrow> sn_viewers t v = Some w"
    and own: "\<And>v w. sn_viewers t v = Some w \<Longrightarrow> vw_session w = i \<Longrightarrow> stream_ok v w x'"
  shows "streams_ok t"
  unfolding streams_ok_def
proof (intro conjI allI impI)
  fix j y assume y: "sn_sessions t j = Some y"
  show "session_ok y" using y ok inv sess streams_ok_session(1) by (auto split: if_splits)
  show "\<forall>v \<in> watched y. \<exists>w. sn_viewers t v = Some w \<and> vw_session w = j"
  proof (cases "j = i")
    case True
    then show ?thesis using y sess watch by simp
  next
    case False
    then show ?thesis using y sess streams_ok_session(2)[OF inv, of j y] kept by fastforce
  qed
next
  fix v w y assume "sn_viewers t v = Some w" "sn_sessions t (vw_session w) = Some y"
  then show "stream_ok v w y"
    using own others sess streams_ok_stream[OF inv, of v w] by (auto split: if_splits)
qed

lemma stream_okE:
  assumes "stream_ok v w x"
  obtains first live ending rest where
    "vw_got w = first @ map Live (live @ ending)" "starts_at first w x"
    "drop (vw_from w) (se_events x) = live @ rest"
    "ending = [] \<or> \<not> vw_open w \<and> (\<exists>e. ending = [Inl e])"
    "vw_open w \<Longrightarrow> se_phase x \<in> {Idle, Running} \<Longrightarrow> v \<in> set (se_outputs x) \<and> rest = owed v x"
  using assms unfolding stream_ok_def by blast

lemma stream_okI:
  assumes "vw_got w = first @ map Live (live @ ending)" "starts_at first w x"
    "drop (vw_from w) (se_events x) = live @ rest"
    "ending = [] \<or> \<not> vw_open w \<and> (\<exists>e. ending = [Inl e])"
    "vw_open w \<Longrightarrow> se_phase x \<in> {Idle, Running} \<Longrightarrow> v \<in> set (se_outputs x) \<and> rest = owed v x"
  shows "stream_ok v w x"
  using assms unfolding stream_ok_def by blast

lemma starts_at_cong:
  "starts_at first w x \<Longrightarrow> vw_from w' = vw_from w \<Longrightarrow> se_events x' = se_events x @ later \<Longrightarrow> starts_at first w' x'"
  unfolding starts_at_def by auto

text \<open>The viewer's stream while its session changes without printing.\<close>

lemma stream_ok_session_change:
  assumes "stream_ok v w x" and events: "se_events x' = se_events x"
    and going: "vw_open w \<Longrightarrow> se_phase x' \<in> {Idle, Running} \<Longrightarrow> se_phase x \<in> {Idle, Running}
         \<and> (v \<in> set (se_outputs x) \<longrightarrow> v \<in> set (se_outputs x')) \<and> owed v x' = owed v x"
  shows "stream_ok v w x'"
  using assms(1)
proof (cases rule: stream_okE)
  case (1 first live ending rest)
  show ?thesis
    by (rule stream_okI[of w first live ending x' rest])
      (use 1 events going in \<open>auto intro: starts_at_cong[where later = "[]"]\<close>)
qed

text \<open>The viewer's own changes: closing, detaching, and an error that ends its stream.\<close>

lemma stream_ok_closed:
  assumes "stream_ok v w x" "vw_from w' = vw_from w" "vw_got w' = vw_got w" "vw_open w' \<longrightarrow> vw_open w"
  shows "stream_ok v w' x"
  using assms(1)
proof (cases rule: stream_okE)
  case (1 first live ending rest)
  show ?thesis
    by (rule stream_okI[of w' first live ending x rest])
      (use 1 assms in \<open>auto intro: starts_at_cong[where later = "[]"]\<close>)
qed

lemma stream_ok_error:
  assumes "stream_ok v w x" "vw_open w"
  shows "stream_ok v (w\<lparr>vw_got := vw_got w @ [Live (Inl e)], vw_open := False\<rparr>) x"
  using assms(1)
proof (cases rule: stream_okE)
  case (1 first live ending rest)
  show ?thesis
    by (rule stream_okI[of _ first live "[Inl e]" x rest])
      (use 1 assms in \<open>auto intro: starts_at_cong[where later = "[]"]\<close>)
qed

text \<open>An item is received from the terminal, and then delivered to a viewer.\<close>

lemma stream_ok_published:
  assumes "stream_ok v w x" and "se_events x' = se_events x @ [event]" "se_phase x' = Running"
    and "se_phase x = Running" "owed v x = []"
    and "vw_open w \<Longrightarrow> v \<in> set (se_outputs x) \<Longrightarrow> v \<in> set (se_outputs x') \<and> owed v x' = [event]"
  shows "stream_ok v w x'"
  using assms(1)
proof (cases rule: stream_okE)
  case (1 first live ending rest)
  have "vw_from w \<le> length (se_events x)" using 1(2) by (simp add: starts_at_def)
  then have "drop (vw_from w) (se_events x') = live @ rest @ [event]" using 1(3) assms(2) by simp
  then show ?thesis
    by (intro stream_okI[of w first live ending x' "rest @ [event]"])
      (use 1 assms in \<open>auto intro: starts_at_cong\<close>)
qed

lemma stream_ok_delivered:
  assumes "stream_ok v w x" and "se_events x' = se_events x" "se_outputs x' = se_outputs x"
    and "se_phase x = Running" "vw_open w" "owed v x = [event]" "owed v x' = []"
  shows "stream_ok v (w\<lparr>vw_got := vw_got w @ [Live event], vw_open := is_ok event\<rparr>) x'"
  using assms(1)
proof (cases rule: stream_okE)
  case (1 first live ending rest)
  then show ?thesis
    by (intro stream_okI[of _ first "live @ [event]" "[]" x' "[]"])
      (use 1 assms in \<open>auto intro: starts_at_cong[where later = "[]"]\<close>)
qed

text \<open>A new viewer.\<close>

lemma stream_ok_new:
  assumes "vw_from w = length (se_events x)" "v \<in> set (se_outputs x)" "owed v x = []"
    and "vw_got w = [] \<and> se_events x = [] \<or> (\<exists>ops. vw_got w = [Redraw ops] \<and> fed ops = printed (se_events x))"
  shows "stream_ok v w x"
  by (rule stream_okI[of w "vw_got w" "[]" "[]" x "[]"]) (use assms in \<open>auto simp: starts_at_def\<close>)

section \<open>Every step keeps the streams\<close>

lemma streams_ok_set_session:
  assumes inv: "streams_ok s" and x: "sn_sessions s i = Some x"
    and x': "session_ok x'" "watched x' \<subseteq> watched x" "se_events x' = se_events x"
    and going: "\<And>v w. sn_viewers s v = Some w \<Longrightarrow> vw_open w \<Longrightarrow> se_phase x' \<in> {Idle, Running} \<Longrightarrow>
         se_phase x \<in> {Idle, Running} \<and> (v \<in> set (se_outputs x) \<longrightarrow> v \<in> set (se_outputs x')) \<and> owed v x' = owed v x"
  shows "streams_ok (set_session i x' s)"
proof (rule streams_ok_step[OF inv, where i = i and x' = x'])
  fix v assume "v \<in> watched x'"
  then show "\<exists>w. sn_viewers (set_session i x' s) v = Some w \<and> vw_session w = i"
    using x'(2) streams_ok_session(2)[OF inv x, of v] by (auto simp: set_session_def)
next
  fix v w assume v: "sn_viewers (set_session i x' s) v = Some w" "vw_session w = i"
  then have "stream_ok v w x" using streams_ok_stream[OF inv, of v w x] x by (simp add: set_session_def)
  then show "stream_ok v w x'"
    using v going[of v w] by (intro stream_ok_session_change[OF _ x'(3)]) (auto simp: set_session_def)
qed (use x' in \<open>simp_all add: set_session_def\<close>)

text \<open>The screen resized and requests queued.\<close>

lemma streams_ok_quiet_session:
  assumes "streams_ok s" "sn_sessions s i = Some x"
    and "fed (se_screen x') = fed (se_screen x)" "se_events x' = se_events x" "se_outputs x' = se_outputs x"
    and "se_pending x' = se_pending x" "se_phase x' = se_phase x"
  shows "streams_ok (set_session i x' s)"
  using streams_ok_session(1)[OF assms(1,2)] assms
  by (intro streams_ok_set_session[OF assms(1,2)]) (simp_all add: session_ok_def watched_def owed_def)

text \<open>The viewer's own changes.\<close>

lemma streams_ok_viewer:
  assumes inv: "streams_ok s" and v: "sn_viewers s v = Some w" and w': "vw_session w' = vw_session w"
    and ok: "\<And>x. stream_ok v w x \<Longrightarrow> stream_ok v w' x"
  shows "streams_ok (s\<lparr>sn_viewers := (sn_viewers s)(v \<mapsto> w')\<rparr>)"
  unfolding streams_ok_def
proof (intro conjI allI impI)
  fix i x assume "sn_sessions (s\<lparr>sn_viewers := (sn_viewers s)(v \<mapsto> w')\<rparr>) i = Some x"
  then have x: "sn_sessions s i = Some x" by simp
  then show "session_ok x" using inv streams_ok_session(1) by blast
  show "\<forall>u \<in> watched x. \<exists>w''. sn_viewers (s\<lparr>sn_viewers := (sn_viewers s)(v \<mapsto> w')\<rparr>) u = Some w'' \<and> vw_session w'' = i"
    using streams_ok_session(2)[OF inv x] v w' by fastforce
next
  fix u w'' x
  assume "sn_viewers (s\<lparr>sn_viewers := (sn_viewers s)(v \<mapsto> w')\<rparr>) u = Some w''"
    "sn_sessions (s\<lparr>sn_viewers := (sn_viewers s)(v \<mapsto> w')\<rparr>) (vw_session w'') = Some x"
  then show "stream_ok u w'' x"
    using streams_ok_stream[OF inv] v w' ok by (auto split: if_splits)
qed

lemma streams_ok_detach: "streams_ok s \<Longrightarrow> streams_ok (detach v s)"
  by (auto simp: detach_def split: option.splits intro!: streams_ok_viewer elim!: stream_ok_closed)

lemma streams_ok_give_error: "streams_ok s \<Longrightarrow> streams_ok (give v (Inl e) s)"
  by (auto simp: give_def split: option.splits intro!: streams_ok_viewer stream_ok_error)

lemma streams_ok_queue_request: "streams_ok s \<Longrightarrow> streams_ok (queue_request i resize r s)"
  by (auto simp: queue_request_def Let_def split: option.splits intro!: streams_ok_quiet_session)

lemma streams_ok_viewer_input: "streams_ok s \<Longrightarrow> streams_ok (viewer_input v reserved request s)"
  unfolding viewer_input_def
  by (auto split: option.splits sum.splits
      intro: streams_ok_detach streams_ok_queue_request streams_ok_give_error)

lemma streams_ok_send_input:
  "streams_ok s \<Longrightarrow> streams_ok (snd (send_input upper modes reserved name text keys s))"
  by (auto simp: send_input_def and_then_Inr_iff get_session_Inr
      split: sum.splits reserve.splits prod.splits intro!: streams_ok_quiet_session)

definition tell_all :: "(nat \<Rightarrow> bool) \<Rightarrow> nat list \<Rightarrow> sessions \<Rightarrow> sessions" where
  "tell_all room vs s = fold (\<lambda>v s. if room v then give v (Inl cancelled) s else s) vs s"

lemma tell_all_simps [simp]:
  "tell_all room [] s = s"
  "tell_all room (v # vs) s = tell_all room vs (if room v then give v (Inl cancelled) s else s)"
  by (simp_all add: tell_all_def)

lemma tell_all_sessions [simp]: "sn_sessions (tell_all room vs s) = sn_sessions s"
  by (induction vs arbitrary: s) simp_all

lemma quiet_tell_all: "quiet s (tell_all room vs s)"
  by (induction vs arbitrary: s) (auto intro: quiet_trans[OF quiet_give])

lemma streams_ok_tell_all: "streams_ok s \<Longrightarrow> streams_ok (tell_all room vs s)"
  by (induction vs arbitrary: s) (simp_all add: streams_ok_give_error)

lemma dismiss_viewers_alt:
  "dismiss_viewers room i x s =
     set_session i (x\<lparr>se_outputs := [], se_generation := Suc (se_generation x), se_phase := Dismissed\<rparr>)
       (tell_all room (se_outputs x) s)"
  by (simp add: dismiss_viewers_def tell_all_def)

lemma streams_ok_phase:
  assumes "streams_ok s" "sn_sessions s i = Some x" "fed (se_screen x') = fed (se_screen x)"
    and "se_events x' = se_events x" "set (se_outputs x') \<subseteq> set (se_outputs x)" "distinct (se_outputs x')"
    and "se_pending x' = se_pending x \<or> se_pending x' = None" "se_phase x' \<notin> {Idle, Running}"
  shows "streams_ok (set_session i x' s)"
  using streams_ok_session(1)[OF assms(1,2)] assms
  by (intro streams_ok_set_session[OF assms(1,2)]) (auto simp: session_ok_def watched_def)

lemma streams_ok_stop:
  "streams_ok s \<Longrightarrow> sn_sessions s i = Some x \<Longrightarrow>
     streams_ok (set_session i (x\<lparr>se_phase := Stopping, se_pending := None\<rparr>) s)"
  using streams_ok_session(1) by (intro streams_ok_phase) (auto simp: session_ok_def)

lemma streams_ok_dismiss:
  "streams_ok s \<Longrightarrow> sn_sessions s i = Some x \<Longrightarrow> streams_ok (dismiss_viewers room i x s)"
  unfolding dismiss_viewers_alt by (rule streams_ok_phase) (auto intro: streams_ok_tell_all)

lemma streams_ok_only:
  "sn_sessions t = sn_sessions s \<Longrightarrow> sn_viewers t = sn_viewers s \<Longrightarrow> streams_ok t = streams_ok s"
  by (simp add: streams_ok_def)

lemma streams_ok_forget:
  assumes "streams_ok s" "sn_sessions s i = Some x"
  shows "streams_ok (forget_session i x s)"
proof -
  have "streams_ok (set_session i (x\<lparr>se_phase := Gone\<rparr>) s)"
    using streams_ok_session(1)[OF assms] assms by (intro streams_ok_phase) (auto simp: session_ok_def)
  then show ?thesis
    using streams_ok_only[of "forget_session i x s" "set_session i (x\<lparr>se_phase := Gone\<rparr>) s"]
    by (simp add: forget_session_def)
qed

lemma streams_ok_spawn:
  assumes "streams_ok s" "sn_sessions s i = Some x" "se_phase x = Idle"
  shows "streams_ok (spawn_owner i s)"
  using streams_ok_session(1)[OF assms(1,2)] assms
  by (simp add: spawn_owner_def)
    (intro streams_ok_set_session, auto simp: session_ok_def watched_def owed_def)

lemma streams_ok_register:
  assumes inv: "streams_ok s" and reg: "registry_ok limit s" and users: "users_ok s"
  shows "streams_ok (register_session r s)"
proof (rule streams_ok_step[OF inv, where i = "sn_next s" and x' = "new_session r"])
  show "session_ok (new_session r)" by (simp add: session_ok_def new_session_def)
next
  fix v w assume "sn_viewers (register_session r s) v = Some w" "vw_session w = sn_next s"
  then show "stream_ok v w (new_session r)"
    using users_ok_viewer[OF users, of v w] fresh_session[OF reg order.refl] by (simp add: register_session_def)
qed (simp_all add: register_session_def watched_def new_session_def)

lemma streams_ok_subscribe:
  assumes inv: "streams_ok s" and users: "users_ok s"
    and att: "sn_attaching s v = Some (r, i, created)" and x: "sn_sessions s i = Some x"
  shows "streams_ok (attach_subscribe v queue_ok r i created x s)"
proof -
  define t where "t = attach_subscribe v queue_ok r i created x s"
  define x' where "x' = the (sn_sessions t i)"
  define w where "w = the (sn_viewers t v)"
  have t: "sn_sessions t = (sn_sessions s)(i \<mapsto> x')" "sn_viewers t = (sn_viewers s)(v \<mapsto> w)"
    by (simp_all add: t_def x'_def w_def attach_subscribe_def session_defs)
  have x': "fed (se_screen x') = fed (se_screen x)" "se_events x' = se_events x" "se_outputs x' = se_outputs x @ [v]"
    "se_pending x' = se_pending x" "se_phase x' = (if created then Running else se_phase x)"
    by (simp_all add: t_def x'_def attach_subscribe_def session_defs)
  have w: "vw_session w = i" "vw_from w = length (se_events x)" "vw_open w"
    "vw_got w = (if created then [] else [Redraw (se_screen x @ [Resize (xr_rows r) (xr_cols r)])])"
    by (simp_all add: t_def w_def attach_subscribe_def session_defs)
  have new: "sn_viewers s v = None" and idle: "created \<Longrightarrow> se_phase x = Idle"
    using users_ok_attaching[OF users att] x by auto
  note ok = streams_ok_session[OF inv x]
  have v: "v \<notin> watched x" using ok(2)[of v] new by auto
  show ?thesis
    unfolding t_def[symmetric]
  proof (rule streams_ok_step[OF inv t(1)])
    show "session_ok x'"
      using ok(1) v idle x' by (auto simp: session_ok_def watched_def)
    show "\<exists>w. sn_viewers t u = Some w \<and> vw_session w = i" if "u \<in> watched x'" for u
      using that ok(2)[of u] x' t(2) w by (auto simp: watched_def)
    show "stream_ok u w' x'" if u: "sn_viewers t u = Some w'" "vw_session w' = i" for u w'
    proof (cases "u = v")
      case True
      then have "w' = w" using u t(2) by simp
      moreover have "owed v x' = []" using v x'(4) by (auto simp: owed_def watched_def split: option.splits)
      moreover have "created \<Longrightarrow> se_events x = []" "fed (se_screen x) = printed (se_events x)"
        using ok(1) idle by (auto simp: session_ok_def)
      ultimately show ?thesis
        using True w x' by (intro stream_ok_new) auto
    next
      case False
      then have "stream_ok u w' x" using u t(2) streams_ok_stream[OF inv, of u w' x] x by simp
      then show ?thesis
        by (rule stream_ok_session_change) (use x' idle in \<open>auto simp: owed_def split: if_splits\<close>)
    qed
  qed (use t w new in \<open>auto split: if_splits\<close>)
qed

lemma streams_ok_publish:
  assumes inv: "streams_ok s" and x: "sn_sessions s i = Some x" and run: "se_phase x = Running" "se_pending x = None"
  shows "streams_ok (publish_output replies queue_ok i event x s)"
proof -
  define t where "t = publish_output replies queue_ok i event x s"
  define x' where "x' = the (sn_sessions t i)"
  have t: "sn_sessions t = (sn_sessions s)(i \<mapsto> x')" "sn_viewers t = sn_viewers s"
    by (simp_all add: t_def x'_def publish_output_def session_defs)
  have x': "fed (se_screen x') = fed (se_screen x) @ stdout_bytes event" "se_events x' = se_events x @ [event]"
    "se_outputs x' = filter (is_open s) (se_outputs x)"
    "se_pending x' = Some (event, filter (is_open s) (se_outputs x))" "se_phase x' = Running"
    using run by (simp_all add: t_def x'_def publish_output_def session_defs stdout_bytes_def
        split: sum.splits exec_event.splits)
  note ok = streams_ok_session[OF inv x]
  show ?thesis
    unfolding t_def[symmetric]
  proof (rule streams_ok_step[OF inv t(1)])
    show "session_ok x'" using ok(1) x' by (auto simp: session_ok_def)
    show "\<exists>w. sn_viewers t u = Some w \<and> vw_session w = i" if "u \<in> watched x'" for u
      using that ok(2)[of u] x' t(2) by (auto simp: watched_def)
    show "stream_ok u w' x'" if u: "sn_viewers t u = Some w'" "vw_session w' = i" for u w'
    proof (rule stream_ok_published[OF _ x'(2)])
      show "stream_ok u w' x" using u t(2) streams_ok_stream[OF inv, of u w' x] x by simp
    qed (use u t(2) x' run in \<open>auto simp: owed_def is_open_def\<close>)
  qed (use t in auto)
qed

lemma streams_ok_deliver:
  assumes inv: "streams_ok s" and x: "sn_sessions s i = Some x" and run: "se_phase x = Running"
  shows "streams_ok (deliver_next i x s)"
proof (cases "\<exists>event v vs. se_pending x = Some (event, v # vs) \<and> is_open s v")
  case False
  note ok = streams_ok_session[OF inv x]
  have closed: "is_open s v" if "sn_viewers s v = Some w" "vw_open w" for v w
    using that by (simp add: is_open_def)
  show ?thesis
    using False ok(1) run
    by (auto simp: deliver_next_def session_ok_def watched_def owed_def is_open_def
        split: option.splits list.splits intro!: streams_ok_set_session[OF inv x] inv)
next
  case True
  then obtain event v vs where pend: "se_pending x = Some (event, v # vs)" and op: "is_open s v" by blast
  note ok = streams_ok_session[OF inv x]
  obtain w where w: "sn_viewers s v = Some w" "vw_session w = i" "vw_open w"
    using ok(2)[of v] pend op by (auto simp: watched_def is_open_def)
  define x' where "x' = x\<lparr>se_pending := Some (event, vs)\<rparr>"
  define w' where "w' = w\<lparr>vw_got := vw_got w @ [Live event], vw_open := is_ok event\<rparr>"
  define t where "t = deliver_next i x s"
  have t: "sn_sessions t = (sn_sessions s)(i \<mapsto> x')" "sn_viewers t = (sn_viewers s)(v \<mapsto> w')"
    using pend op w by (simp_all add: t_def x'_def w'_def deliver_next_def give_def set_session_def)
  have distinct: "v \<notin> set vs" "distinct vs" using ok(1) pend by (auto simp: session_ok_def)
  show ?thesis
    unfolding t_def[symmetric]
  proof (rule streams_ok_step[OF inv t(1)])
    show "session_ok x'" using ok(1) distinct by (auto simp: session_ok_def x'_def run)
    show "\<exists>w. sn_viewers t u = Some w \<and> vw_session w = i" if "u \<in> watched x'" for u
    proof -
      have "u \<in> watched x" using that pend by (auto simp: watched_def x'_def)
      then show ?thesis using ok(2)[of u] t(2) w by (auto simp: w'_def)
    qed
    show "stream_ok u w'' x'" if u: "sn_viewers t u = Some w''" "vw_session w'' = i" for u w''
    proof (cases "u = v")
      case True
      have "stream_ok v w x" using streams_ok_stream[OF inv w(1)] x w by simp
      moreover have "owed v x = [event]" "owed v x' = []" using pend distinct by (simp_all add: owed_def x'_def)
      ultimately have "stream_ok v w' x'"
        unfolding w'_def using run w by (intro stream_ok_delivered) (simp_all add: x'_def)
      then show ?thesis using True u t(2) by simp
    next
      case False
      then have "stream_ok u w'' x" using u t(2) streams_ok_stream[OF inv, of u w'' x] x by simp
      then show ?thesis
        by (rule stream_ok_session_change) (use False pend run in \<open>auto simp: x'_def owed_def\<close>)
    qed
  qed (use t w in \<open>auto simp: w'_def split: if_splits\<close>)
qed

text \<open>Whom the owner tells.\<close>

lemma give_other: "u \<noteq> v \<Longrightarrow> sn_viewers (give u item s) v = sn_viewers s v"
  by (simp add: give_def split: option.splits)

lemma give_same:
  "sn_viewers s v = Some w \<Longrightarrow> vw_open w \<Longrightarrow>
     sn_viewers (give v item s) v = Some (w\<lparr>vw_got := vw_got w @ [Live item], vw_open := is_ok item\<rparr>)"
  by (simp add: give_def)

lemma tell_all_other: "v \<notin> set vs \<Longrightarrow> sn_viewers (tell_all room vs s) v = sn_viewers s v"
  by (induction vs arbitrary: s) (auto simp: give_other)

lemma tell_all_viewer:
  "distinct vs \<Longrightarrow> v \<in> set vs \<Longrightarrow> sn_viewers s v = Some w \<Longrightarrow> vw_open w \<Longrightarrow> room v \<Longrightarrow>
     sn_viewers (tell_all room vs s) v
       = Some (w\<lparr>vw_got := vw_got w @ [Live (Inl cancelled)], vw_open := False\<rparr>)"
proof (induction vs arbitrary: s)
  case (Cons u vs)
  then show ?case by (cases "u = v") (auto simp: tell_all_other give_other give_same)
qed simp

section \<open>The system\<close>

definition sessions_ok :: "nat \<Rightarrow> sessions \<Rightarrow> bool" where
  "sessions_ok limit s \<longleftrightarrow> registry_ok limit s \<and> users_ok s \<and> streams_ok s"

lemma sessions_ok_quiet: "sessions_ok limit s \<Longrightarrow> quiet s t \<Longrightarrow> streams_ok t \<Longrightarrow> sessions_ok limit t"
  unfolding sessions_ok_def using registry_ok_quiet users_ok_quiet by blast

lemma sessions_ok_new: "sessions_ok limit (new_sessions limit)"
  by (simp add: sessions_ok_def new_sessions_def registry_ok_def users_ok_def streams_ok_def)

lemma owner_acts_Some:
  "owner_acts i ready f s = Some t \<longleftrightarrow> (\<exists>x. sn_sessions s i = Some x \<and> ready x \<and> t = f x s)"
  by (auto simp: owner_acts_def split: option.splits)

lemma sessions_ok_register:
  "sessions_ok limit s \<Longrightarrow> sn_registry s (xr_session r) = None \<Longrightarrow> 0 < sn_slots s
     \<Longrightarrow> sessions_ok limit (register_session r s)"
  unfolding sessions_ok_def using registry_ok_register users_ok_register streams_ok_register by blast

lemma sessions_ok_set_phase:
  assumes "sessions_ok limit s" "sn_sessions s i = Some x" "se_name x' = se_name x" "se_user x' = se_user x"
    and "se_phase x \<notin> {Gone, Idle}" "se_phase x' \<noteq> Gone" "streams_ok (set_session i x' s)"
  shows "sessions_ok limit (set_session i x' s)"
proof -
  have "\<And>v r. sn_attaching s v \<noteq> Some (r, i, True)"
    using assms users_ok_attaching(2) unfolding sessions_ok_def by fastforce
  then have "users_ok (set_session i x' s)"
    using assms by (intro users_ok_phase[of s i x x']) (auto simp: sessions_ok_def)
  moreover have "registry_ok limit (set_session i x' s)"
    using assms by (intro registry_ok_phase[of limit s i x x']) (auto simp: sessions_ok_def)
  ultimately show ?thesis using assms(7) by (simp add: sessions_ok_def)
qed

lemma sessions_ok_start:
  assumes inv: "sessions_ok limit s"
  shows "sessions_ok limit (snd (start_session ready first s))"
proof (cases "prepare first True s")
  case (Pair res t)
  have reg: "registry_ok limit s" using inv by (simp add: sessions_ok_def)
  from reg Pair show ?thesis
  proof (cases rule: prepare_cases)
    case (created r)
    let ?t = "register_session r s" and ?i = "sn_next s"
    have t: "sessions_ok limit ?t" using inv created by (intro sessions_ok_register)
    have x: "sn_sessions ?t ?i = Some (new_session r)" by (simp add: register_session_def)
    have spawn: "spawn_owner ?i ?t = set_session ?i (new_session r\<lparr>se_phase := Running\<rparr>) ?t"
      using x by (simp add: spawn_owner_def)
    have "sn_attaching ?t v \<noteq> Some (q, ?i, True)" for v q
      using users_ok_attaching(2)[of s v q ?i True] fresh_session[OF reg order.refl] inv
      by (auto simp: sessions_ok_def register_session_def)
    then have "users_ok (spawn_owner ?i ?t)"
      unfolding spawn using t by (intro users_ok_phase[OF _ x]) (auto simp: sessions_ok_def)
    moreover have "registry_ok limit (spawn_owner ?i ?t)"
      unfolding spawn using t
      by (intro registry_ok_phase[OF _ x]) (auto simp: sessions_ok_def new_session_def)
    moreover have "streams_ok (spawn_owner ?i ?t)"
      using t by (intro streams_ok_spawn[OF _ x]) (auto simp: sessions_ok_def new_session_def)
    ultimately show ?thesis using created Pair by (simp add: start_session_def sessions_ok_def)
  qed (use Pair inv in \<open>auto simp: start_session_def\<close>)
qed

lemma sessions_ok_attach_prepare:
  assumes inv: "sessions_ok limit s" and fresh: "sn_viewers s v = None"
  shows "sessions_ok limit (snd (attach_prepare v first s))"
proof (cases "prepare first False s")
  case (Pair res t)
  have reg: "registry_ok limit s" and users: "users_ok s" using inv by (simp_all add: sessions_ok_def)
  have same: "registry_ok limit (t\<lparr>sn_attaching := f\<rparr>) = registry_ok limit t"
    "streams_ok (t\<lparr>sn_attaching := f\<rparr>) = streams_ok t" for f
    by (simp_all add: registry_ok_def streams_ok_def)
  from reg Pair show ?thesis
  proof (cases rule: prepare_cases)
    case (found r i x)
    then have "users_ok (s\<lparr>sn_attaching := (sn_attaching s)(v \<mapsto> (r, i, False))\<rparr>)"
      using users fresh by (intro users_ok_prepared) auto
    then show ?thesis using found Pair inv same by (simp add: attach_prepare_def sessions_ok_def)
  next
    case (created r)
    have t: "sessions_ok limit t" using inv created by (simp add: sessions_ok_register)
    have "sn_attaching s u \<noteq> Some (q, sn_next s, True)" for u q
      using users_ok_attaching(2)[OF users, of u q "sn_next s" True] fresh_session[OF reg order.refl] by auto
    then have "users_ok (t\<lparr>sn_attaching := (sn_attaching t)(v \<mapsto> (r, sn_next s, True))\<rparr>)"
      using t fresh created(2)
      by (intro users_ok_prepared[where x = "new_session r"])
        (auto simp: sessions_ok_def register_session_def new_session_def)
    then show ?thesis using created Pair t same by (simp add: attach_prepare_def sessions_ok_def)
  qed (use Pair inv in \<open>auto simp: attach_prepare_def\<close>)
qed

lemma sessions_ok_subscribe:
  assumes inv: "sessions_ok limit s" and att: "sn_attaching s v = Some (r, i, created)"
    and x: "sn_sessions s i = Some x"
  shows "sessions_ok limit (attach_subscribe v queue_ok r i created x s)"
proof -
  let ?t = "attach_subscribe v queue_ok r i created x s"
  have parts: "registry_ok limit s" "users_ok s" "streams_ok s" using inv by (simp_all add: sessions_ok_def)
  have idle: "created \<Longrightarrow> se_phase x = Idle" using users_ok_attaching(2)[OF parts(2) att] x by auto
  have "users_ok ?t"
    unfolding attach_subscribe_def Let_def
    by (rule users_ok_subscribed[OF parts(2) att x]) simp_all
  moreover have "registry_ok limit ?t"
  proof -
    let ?x = "the (sn_sessions ?t i)"
    have "registry_ok limit (set_session i ?x s)"
      by (rule registry_ok_phase[OF parts(1) x]) (use idle in \<open>auto simp: attach_subscribe_def session_defs\<close>)
    then show ?thesis by (simp add: registry_ok_def attach_subscribe_def session_defs)
  qed
  ultimately show ?thesis
    using streams_ok_subscribe[OF parts(3,2) att x] by (simp add: sessions_ok_def)
qed

lemma sessions_ok_forget:
  assumes inv: "sessions_ok limit s" and x: "sn_sessions s i = Some x" and gone: "se_phase x = Dismissed"
  shows "sessions_ok limit (forget_session i x s)"
proof -
  have parts: "registry_ok limit s" "users_ok s" "streams_ok s" using inv by (simp_all add: sessions_ok_def)
  have "sn_attaching s v \<noteq> Some (r, i, True)" for v r
    using users_ok_attaching(2)[OF parts(2), of v r i True] x gone by auto
  then have "users_ok (set_session i (x\<lparr>se_phase := Gone\<rparr>) s)"
    by (intro users_ok_phase[OF parts(2) x]) auto
  then have "users_ok (forget_session i x s)" by (simp add: users_ok_def forget_session_def)
  then show ?thesis
    using registry_ok_forget[OF parts(1) x] streams_ok_forget[OF parts(3) x] gone by (simp add: sessions_ok_def)
qed

lemma sessions_ok_dismiss:
  assumes inv: "sessions_ok limit s" and x: "sn_sessions s i = Some x" and stop: "se_phase x = Stopping"
  shows "sessions_ok limit (dismiss_viewers room i x s)"
proof -
  have "sessions_ok limit (tell_all room (se_outputs x) s)"
    using inv quiet_tell_all streams_ok_tell_all by (intro sessions_ok_quiet[OF inv]) (auto simp: sessions_ok_def)
  moreover have "streams_ok (dismiss_viewers room i x s)"
    using inv x streams_ok_dismiss by (simp add: sessions_ok_def)
  ultimately show ?thesis
    unfolding dismiss_viewers_alt using x stop by (intro sessions_ok_set_phase) auto
qed

lemma sessions_ok_close:
  assumes inv: "sessions_ok limit s" and v: "sn_viewers s v = Some w"
  shows "sessions_ok limit (s\<lparr>sn_viewers := (sn_viewers s)(v \<mapsto> w\<lparr>vw_open := False\<rparr>)\<rparr>)"
proof (rule sessions_ok_quiet[OF inv])
  show "streams_ok (s\<lparr>sn_viewers := (sn_viewers s)(v \<mapsto> w\<lparr>vw_open := False\<rparr>)\<rparr>)"
  proof (rule streams_ok_viewer[OF _ v])
    show "stream_ok v (w\<lparr>vw_open := False\<rparr>) x" if "stream_ok v w x" for x
      by (rule stream_ok_closed[OF that]) simp_all
  qed (use inv in \<open>simp_all add: sessions_ok_def\<close>)
qed (use v in \<open>simp add: quiet_def viewer_frame_def\<close>)

lemma sessions_ok_step:
  assumes inv: "sessions_ok limit s" and step: "session_step upper modes replies e s = Some t"
  shows "sessions_ok limit t"
proof -
  have parts: "users_ok s" "streams_ok s" using inv by (simp_all add: sessions_ok_def)
  note quiet = sessions_ok_quiet[OF inv]
  show ?thesis
  proof (cases e)
    case (StartSession ready r)
    then show ?thesis using step sessions_ok_start[OF inv] by auto
  next
    case (AttachPrepare v r)
    then show ?thesis using step sessions_ok_attach_prepare[OF inv] by (auto split: if_splits)
  next
    case (AttachSubscribe v queue_ok)
    then show ?thesis
      using step sessions_ok_subscribe[OF inv] by (auto split: option.splits prod.splits)
  next
    case (SendInput reserved name keys_text keys)
    then show ?thesis using step quiet[OF quiet_send_input streams_ok_send_input[OF parts(2)]] by auto
  next
    case (ViewerInput v reserved r)
    then show ?thesis
      using step quiet[OF quiet_viewer_input streams_ok_viewer_input[OF parts(2)]]
      by (auto split: option.splits if_splits)
  next
    case (ViewerCloses v)
    then show ?thesis using step sessions_ok_close[OF inv] by (auto split: option.splits)
  next
    case (Heartbeat i)
    then obtain x where x: "sn_sessions s i = Some x" and t: "t = set_session i (x\<lparr>se_input := se_input x
        @ [default_exec_request\<lparr>xr_version := PROTOCOL_VERSION\<rparr>]\<rparr>) s"
      using step by (auto simp: owner_acts_Some)
    show ?thesis unfolding t
      by (rule quiet) (use x parts in \<open>auto intro!: quiet_set_session streams_ok_quiet_session simp: session_frame_def\<close>)
  next
    case (Publish i queue_ok event)
    then show ?thesis
      using step quiet[OF quiet_publish streams_ok_publish[OF parts(2)]] by (auto simp: owner_acts_Some)
  next
    case (DeliverNext i)
    then show ?thesis
      using step quiet[OF quiet_deliver streams_ok_deliver[OF parts(2)]] by (auto simp: owner_acts_Some)
  next
    case (OwnerStops i)
    then show ?thesis
      using step inv parts by (auto simp: owner_acts_Some intro!: sessions_ok_set_phase streams_ok_stop)
  next
    case (OwnerDismisses i room)
    then show ?thesis using step sessions_ok_dismiss[OF inv] by (auto simp: owner_acts_Some)
  next
    case (OwnerForgets i)
    then show ?thesis using step sessions_ok_forget[OF inv] by (auto simp: owner_acts_Some)
  qed
qed

interpretation session_system:
  event_system "\<lambda>e s t. session_step upper modes replies e s = Some t" "sessions_ok limit"
  for upper modes replies limit
  by unfold_locales (rule sessions_ok_step)

text \<open>The states of a registry that starts empty with \<open>limit\<close> permits.\<close>

definition reachable_sessions ::
  "(string \<Rightarrow> string) \<Rightarrow> (screen_op list \<Rightarrow> bool \<times> bool \<times> 16 word)
     \<Rightarrow> (bool \<Rightarrow> screen_op list \<Rightarrow> string \<Rightarrow> string) \<Rightarrow> nat \<Rightarrow> sessions \<Rightarrow> bool" where
  "reachable_sessions upper modes replies limit s \<longleftrightarrow>
     reaches (\<lambda>e s t. session_step upper modes replies e s = Some t) (new_sessions limit) s"

lemma reachable_sessions_ok: "reachable_sessions upper modes replies limit s \<Longrightarrow> sessions_ok limit s"
  unfolding reachable_sessions_def using session_system.reaches_inv sessions_ok_new by blast

text \<open>
  C17: In every reachable state a viewer has received the redraw of a screen that was fed
  exactly what the terminal had printed before the viewer subscribed (or nothing, if nothing
  was), then in order and without gaps or repetitions the items received from the terminal
  since, then possibly one error that ended its stream. While the viewer's stream is open and
  the session's owner runs with nothing left to deliver, it has received all of them.
\<close>

theorem viewer_stream_exact:
  assumes "reachable_sessions upper modes replies limit s"
    and "sn_viewers s v = Some w" and "sn_sessions s (vw_session w) = Some x"
  shows "\<exists>first live ending rest.
      vw_got w = first @ map Live (live @ ending)
    \<and> (first = [] \<and> vw_from w = 0
       \<or> (\<exists>ops. first = [Redraw ops] \<and> fed ops = printed (take (vw_from w) (se_events x))))
    \<and> drop (vw_from w) (se_events x) = live @ rest
    \<and> (ending = [] \<or> \<not> vw_open w \<and> (\<exists>e. ending = [Inl e]))
    \<and> (vw_open w \<and> se_phase x = Running \<and> se_pending x = None \<longrightarrow> rest = [])"
proof -
  have "stream_ok v w x"
    using reachable_sessions_ok[OF assms(1)] assms(2,3) streams_ok_stream by (auto simp: sessions_ok_def)
  then show ?thesis
  proof (cases rule: stream_okE)
    case (1 first live ending rest)
    then show ?thesis
      by (intro exI[of _ first] exI[of _ live] exI[of _ ending] exI[of _ rest])
        (auto simp: starts_at_def owed_def)
  qed
qed

text \<open>A viewer makes a session, which prints; another joins it; then it prints again.\<close>

definition terminal_request :: exec_request where
  "terminal_request = default_exec_request\<lparr>xr_version := 3, xr_pty := True\<rparr>"

definition two_viewers :: "session_event list" where
  "two_viewers = [AttachPrepare 0 terminal_request, AttachSubscribe 0 True, Publish 0 True (Inr (Stdout ''a'')),
     DeliverNext 0, AttachPrepare 1 terminal_request, DeliverNext 0, AttachSubscribe 1 True,
     Publish 0 True (Inr (Stdout ''b'')), DeliverNext 0, DeliverNext 0, DeliverNext 0]"

abbreviation run_sessions where
  "run_sessions \<equiv> run_events (session_step id (\<lambda>_. (False, False, 0)) (\<lambda>_ _ _. []))"

lemma run_sessions_reachable:
  "run_sessions es (new_sessions limit) = Some s
     \<Longrightarrow> reachable_sessions id (\<lambda>_. (False, False, 0)) (\<lambda>_ _ _. []) limit s"
  unfolding reachable_sessions_def by (rule run_events_reaches)

lemma two_viewers_run:
  "case run_sessions two_viewers (new_sessions 1) of None \<Rightarrow> False
   | Some s \<Rightarrow> (case sn_viewers s 1 of None \<Rightarrow> False
      | Some w \<Rightarrow> (case sn_sessions s (vw_session w) of None \<Rightarrow> False
         | Some x \<Rightarrow> vw_got w = [Redraw [Resize 24 80, Process ''a'', Resize 24 80], Live (Inr (Stdout ''b''))]))"
  by code_simp

lemma two_viewers_state:
  obtains s w x where "reachable_sessions id (\<lambda>_. (False, False, 0)) (\<lambda>_ _ _. []) 1 s"
    "sn_viewers s 1 = Some w" "sn_sessions s (vw_session w) = Some x"
    "vw_got w = [Redraw [Resize 24 80, Process ''a'', Resize 24 80], Live (Inr (Stdout ''b''))]"
  using two_viewers_run run_sessions_reachable by (fastforce split: option.splits)

theorem viewer_stream_exact_witness:
  "\<exists>s w x first live ending rest.
      reachable_sessions id (\<lambda>_. (False, False, 0)) (\<lambda>_ _ _. []) 1 s \<and> sn_viewers s 1 = Some w
    \<and> vw_got w = [Redraw [Resize 24 80, Process ''a'', Resize 24 80], Live (Inr (Stdout ''b''))]
    \<and> vw_got w = first @ map Live (live @ ending) \<and> drop (vw_from w) (se_events x) = live @ rest"
proof -
  obtain s w x where s: "reachable_sessions id (\<lambda>_. (False, False, 0)) (\<lambda>_ _ _. []) 1 s"
    "sn_viewers s 1 = Some w" "sn_sessions s (vw_session w) = Some x"
    "vw_got w = [Redraw [Resize 24 80, Process ''a'', Resize 24 80], Live (Inr (Stdout ''b''))]"
    by (rule two_viewers_state)
  from viewer_stream_exact[OF s(1,2,3)] s show ?thesis by blast
qed



text \<open>
  In every reachable state a viewer watches a session of the guest user it asked for, so
  what it is given was printed by a process of that user.
\<close>

theorem viewers_watch_own_user:
  assumes "reachable_sessions upper modes replies limit s" and "sn_viewers s v = Some w"
  shows "\<exists>x. sn_sessions s (vw_session w) = Some x \<and> se_user x = vw_user w"
  using reachable_sessions_ok[OF assms(1)] users_ok_viewer[OF _ assms(2)] by (simp add: sessions_ok_def)

theorem viewers_watch_own_user_witness:
  "\<exists>s w x. reachable_sessions id (\<lambda>_. (False, False, 0)) (\<lambda>_ _ _. []) 1 s \<and> sn_viewers s 1 = Some w
     \<and> sn_sessions s (vw_session w) = Some x \<and> se_user x = vw_user w"
proof -
  obtain s w x where s: "reachable_sessions id (\<lambda>_. (False, False, 0)) (\<lambda>_ _ _. []) 1 s"
    "sn_viewers s 1 = Some w"
    by (rule two_viewers_state)
  from viewers_watch_own_user[OF s] s show ?thesis by blast
qed




lemma two_viewers_running:
  "case run_sessions two_viewers (new_sessions 1) of None \<Rightarrow> False
   | Some s \<Rightarrow> sn_registry s ''main'' = Some 0
      \<and> (case sn_sessions s 0 of None \<Rightarrow> False | Some x \<Rightarrow> se_phase x = Running)"
  by code_simp


end
