(* ===== verification/ImageRefs.thy ===== *)
theory ImageRefs
  imports Interfaces
begin

text \<open>
  Image references (\<open>ImageReference\<close> and its neighbours in
  \<open>crates/pbox-cli/src/images.rs\<close>): reading what a user wrote, the canonical text that
  is pulled and hashed into a file name, and what counts as a reference at all. Errors are
  their messages.
\<close>

record image_reference =
  ir_registry :: string
  ir_repository :: string
  ir_tag :: "string option"
  ir_digest :: "string option"

section \<open>Checks\<close>

definition is_registry_host :: "string \<Rightarrow> bool" where
  "is_registry_host value \<longleftrightarrow> value = ''localhost'' \<or> CHR ''.'' \<in> set value \<or> CHR '':'' \<in> set value"

definition valid_host_label :: "string \<Rightarrow> bool" where
  "valid_host_label bytes \<longleftrightarrow>
     bytes \<noteq> [] \<and> is_alnum (hd bytes) \<and> is_alnum (last bytes)
     \<and> list_all (\<lambda>b. is_alnum b \<or> b = CHR ''-'') bytes"

definition host_and_port :: "string \<Rightarrow> string \<times> string option" where
  "host_and_port value =
     (case rsplit_once CHR '':'' value of
        None \<Rightarrow> (value, None)
      | Some (host, port) \<Rightarrow> (host, Some port))"

definition validate_name_component :: "string \<Rightarrow> string \<Rightarrow> (string, string) result" where
  "validate_name_component value label =
     (let (host, port) = host_and_port value
      in if host = [] \<or> list_ex (\<lambda>l. \<not> valid_host_label l) (split_char CHR ''.'' host)
         then Inl (''OCI '' @ label @ '' is invalid: '' @ value)
         else if (case port of
                    None \<Rightarrow> False
                  | Some p \<Rightarrow> (case parse_u16 p of Some n \<Rightarrow> n = 0 | None \<Rightarrow> True))
         then Inl (''OCI registry is invalid: '' @ value)
         else Inr (lowercase value))"

text \<open>
  The rest of a component after a letter or a digit: more of them, each perhaps after one
  separator (a dot, one or two underscores, or hyphens).
\<close>

definition after_separator :: "char \<Rightarrow> string \<Rightarrow> string" where
  "after_separator c s =
     (if c = CHR ''_'' then (case s of d # t \<Rightarrow> if d = CHR ''_'' then t else s | [] \<Rightarrow> s)
      else if c = CHR ''-'' then dropWhile (\<lambda>d. d = CHR ''-'') s
      else s)"

lemma after_separator_length: "length (after_separator c s) \<le> length s"
  using length_dropWhile_le[of "\<lambda>d. d = CHR ''-''" s]
  by (auto simp: after_separator_def split: list.splits)

function component_rest :: "string \<Rightarrow> bool" where
  "component_rest [] = True"
| "component_rest (c # s) =
     (if is_alnum c then component_rest s
      else if c \<notin> set ''._-'' then False
      else case after_separator c s of
          [] \<Rightarrow> False
        | d # t \<Rightarrow> is_alnum d \<and> component_rest t)"
  by pat_completeness auto
termination
proof (relation "measure length")
  fix c s d t
  assume "after_separator c s = d # t"
  then show "(t, c # s) \<in> measure length" using after_separator_length[of c s] by simp
qed auto

definition valid_repository_component :: "string \<Rightarrow> bool" where
  "valid_repository_component value \<longleftrightarrow>
     (case value of [] \<Rightarrow> False | c # s \<Rightarrow> is_alnum c \<and> component_rest s)"

definition validate_repository :: "string \<Rightarrow> (string, string) result" where
  "validate_repository value =
     (if value = [] \<or> list_ex (\<lambda>c. \<not> valid_repository_component c) (split_char CHR ''/'' value)
      then Inl (''OCI repository is invalid: '' @ value) else Inr value)"

definition validate_tag :: "string \<Rightarrow> (string, string) result" where
  "validate_tag value =
     (if value = [] \<or> length value > 128
         \<or> list_ex (\<lambda>c. \<not> is_alnum c \<and> c \<notin> set ''.-_'') value
         \<or> \<not> is_alnum (hd value) \<and> hd value \<noteq> CHR ''_''
      then Inl (''OCI image tag is invalid: '' @ value) else Inr value)"

definition is_hexdigit :: "char \<Rightarrow> bool" where
  "is_hexdigit c \<longleftrightarrow> is_digit c \<or> 97 \<le> byte c \<and> byte c \<le> 102 \<or> 65 \<le> byte c \<and> byte c \<le> 70"

definition validate_digest :: "string \<Rightarrow> (string, string) result" where
  "validate_digest value =
     (case strip_prefix value ''sha256:'' of
        None \<Rightarrow> Inl ''OCI image digest must use sha256''
      | Some hex \<Rightarrow>
          if length hex \<noteq> 64 \<or> \<not> list_all is_hexdigit hex
          then Inl (''OCI image digest is invalid: '' @ value)
          else Inr (''sha256:'' @ hex))"

section \<open>Parsing\<close>

text \<open>Where a tag begins: a colon after the last slash.\<close>

definition tag_position :: "string \<Rightarrow> nat option" where
  "tag_position value =
     (let slash = (case rfind CHR ''/'' value of Some p \<Rightarrow> p | None \<Rightarrow> 0)
      in case rfind CHR '':'' value of
           Some p \<Rightarrow> if p > slash then Some p else None
         | None \<Rightarrow> None)"

definition split_reference ::
  "string \<Rightarrow> string \<Rightarrow> (string, string \<times> string option \<times> string option) result" where
  "split_reference input value =
     (case split_once value ''@'' of
        Some (name, digest) \<Rightarrow>
          if digest = [] \<or> CHR ''@'' \<in> set digest
          then Inl (''OCI image digest reference is invalid: '' @ input)
          else if tag_position name \<noteq> None
          then Inl ''OCI image reference cannot contain both a tag and a digest''
          else and_then (validate_digest digest) (\<lambda>d. Inr (name, None, Some d))
      | None \<Rightarrow>
          (case tag_position value of
             Some p \<Rightarrow> and_then (validate_tag (drop (Suc p) value)) (\<lambda>t. Inr (take p value, Some t, None))
           | None \<Rightarrow> Inr (value, Some ''latest'', None)))"

definition registry_and_repository :: "string \<Rightarrow> string \<times> string" where
  "registry_and_repository name =
     (let parts = split_char CHR ''/'' name; has_path = length parts > 1; first = hd parts
      in if has_path \<and> is_registry_host first
         then let repository = join CHR ''/'' (tl parts)
              in (first, if lowercase first = ''docker.io'' \<and> CHR ''/'' \<notin> set repository
                         then ''library/'' @ repository else repository)
         else (''docker.io'', if has_path then name else ''library/'' @ name))"

definition parse_reference :: "string \<Rightarrow> (string, image_reference) result" where
  "parse_reference input =
     (let trimmed = trim input;
          value = (case strip_prefix trimmed ''docker://'' of Some v \<Rightarrow> v | None \<Rightarrow> trimmed)
      in if value = [] \<or> list_ex is_ascii_control value
         then Inl ''OCI image reference cannot be empty or contain control characters''
         else and_then (split_reference input value) (\<lambda>(name, tag, digest).
              and_then (validate_name_component (fst (registry_and_repository name)) ''registry'') (\<lambda>registry.
              and_then (validate_repository (lowercase (snd (registry_and_repository name)))) (\<lambda>repository.
              Inr \<lparr>ir_registry = registry, ir_repository = repository, ir_tag = tag, ir_digest = digest\<rparr>))))"

section \<open>The canonical text\<close>

definition repository :: "image_reference \<Rightarrow> string" where
  "repository r = ir_registry r @ ''/'' @ ir_repository r"

definition canonical :: "image_reference \<Rightarrow> string" where
  "canonical r =
     (case (ir_tag r, ir_digest r) of
        (_, Some digest) \<Rightarrow> repository r @ ''@'' @ digest
      | (Some tag, None) \<Rightarrow> repository r @ '':'' @ tag
      | (None, None) \<Rightarrow> repository r @ '':latest'')"

definition is_digest :: "image_reference \<Rightarrow> bool" where
  "is_digest r \<longleftrightarrow> ir_digest r \<noteq> None"

text \<open>\<open>sha256\<close> is the hash of the library, printed in lower-case hexadecimal.\<close>

definition filename :: "(string \<Rightarrow> string) \<Rightarrow> image_reference \<Rightarrow> string" where
  "filename sha256 r = ''pbox-oci-'' @ sha256 (canonical r)"

section \<open>What counts as a reference\<close>

definition is_oci_reference :: "string \<Rightarrow> bool" where
  "is_oci_reference input \<longleftrightarrow>
     (let value = trim input
      in starts_with value ''docker://'' \<or> CHR ''/'' \<in> set value \<or> CHR ''@'' \<in> set value
         \<or> (case tag_position value of Some p \<Rightarrow> p + 1 < length value | None \<Rightarrow> False))"

definition oci_reference_for_image :: "string \<Rightarrow> string" where
  "oci_reference_for_image input =
     (let value = trim input
      in if is_oci_reference value then value
         else case rsplit_once CHR ''-'' value of
             Some (repo, tag) \<Rightarrow>
               if repo \<noteq> [] \<and> tag \<noteq> [] \<and> list_all (\<lambda>b. is_digit b \<or> b = CHR ''.'') tag
               then repo @ '':'' @ tag else value
           | None \<Rightarrow> value)"

definition has_blank :: "string \<Rightarrow> bool" where
  "has_blank value \<longleftrightarrow> list_ex (\<lambda>t. t \<in> set ws_encodings) (char_texts value)"

definition has_control :: "string \<Rightarrow> bool" where
  "has_control value \<longleftrightarrow> list_ex is_control_char (utf8_chars value)"

definition trim_slashes :: "string \<Rightarrow> string" where
  "trim_slashes value = rev (dropWhile (\<lambda>c. c = CHR ''/'') (rev value))"

definition is_registry_search :: "string \<Rightarrow> bool" where
  "is_registry_search value \<longleftrightarrow>
     (let value = trim_slashes value in CHR ''/'' \<notin> set value \<and> is_registry_host value)"

definition image_search_term :: "string \<Rightarrow> string \<Rightarrow> (string, string) result" where
  "image_search_term query registry =
     (let query = trim query
      in if query = [] \<or> starts_with query ''-'' \<or> contains query ''://'' \<or> has_blank query \<or> has_control query
         then Inl ''use an image name or keyword, for example `pbox image search debian`''
         else if CHR ''/'' \<in> set query \<and> is_registry_host (hd (split_char CHR ''/'' query)) then Inr query
         else let registry = trim_slashes registry
              in if registry = [] \<or> starts_with registry ''-'' \<or> CHR ''/'' \<in> set registry
                    \<or> has_blank registry \<or> has_control registry
                 then Inl ''--registry must be a registry hostname, for example docker.io''
                 else Inr (registry @ ''/'' @ query))"

section \<open>Reading the canonical text back\<close>

text \<open>The characters the checks let through.\<close>

definition ref_char :: "char \<Rightarrow> bool" where
  "ref_char c \<longleftrightarrow> is_alnum c \<or> c \<in> set ''.-_''"

lemma to_lower_other: "\<not> is_alpha c \<Longrightarrow> to_lower x = c \<longleftrightarrow> x = c"
  by (cases "is_upper x") (auto simp: char_class_defs of_char_eq_iff split: if_splits)

lemma is_alnum_to_lower [simp]: "is_alnum (to_lower c) = is_alnum c"
  by (auto simp: char_class_defs)

lemma lower_punctuation [simp]:
  "to_lower x = CHR ''.'' \<longleftrightarrow> x = CHR ''.''" "to_lower x = CHR ''-'' \<longleftrightarrow> x = CHR ''-''"
  "to_lower x = CHR '':'' \<longleftrightarrow> x = CHR '':''" "to_lower x = CHR ''+'' \<longleftrightarrow> x = CHR ''+''"
  by (intro to_lower_other; simp add: char_class_defs)+

lemma lowercase_idem [simp]: "lowercase (lowercase s) = lowercase s"
  by (auto simp: lowercase_def char_class_defs)

lemma lowercase_other: "\<forall>c \<in> set s. \<not> is_alpha c \<Longrightarrow> lowercase s = s"
  by (induction s) (auto simp: lowercase_def to_lower_def is_alpha_def)

lemma lowercase_Nil [simp]: "lowercase s = [] \<longleftrightarrow> s = []"
  by (simp add: lowercase_def)

lemma valid_host_label_lower [simp]: "valid_host_label (lowercase s) = valid_host_label s"
  by (cases s) (auto simp: valid_host_label_def lowercase_def last_map list_all_iff)

lemma host_and_port_lower:
  "host_and_port (lowercase s) = (lowercase (fst (host_and_port s)), map_option lowercase (snd (host_and_port s)))"
  unfolding host_and_port_def rsplit_once_def lowercase_def
  by (subst rfind_map) (auto simp: take_map drop_map split: option.splits)

lemma host_labels_lower:
  "list_ex (\<lambda>l. \<not> valid_host_label l) (split_char CHR ''.'' (lowercase s))
     = list_ex (\<lambda>l. \<not> valid_host_label l) (split_char CHR ''.'' s)"
  unfolding lowercase_def
  by (subst split_char_map) (auto simp: list_ex_iff lowercase_def[symmetric])

lemma parse_u16_chars: "parse_u16 p = Some n \<Longrightarrow> \<forall>c \<in> set p. is_digit c \<or> c = CHR ''+''"
  by (auto simp: parse_uint_def parse_digits_def strip_prefix_def starts_with_def Let_def list_all_iff
      split: option.splits if_splits)
    (metis append_take_drop_id set_append Un_iff set_ConsD empty_iff list.set(1))+

lemma validate_name_again:
  assumes "validate_name_component v l = Inr r"
  shows "validate_name_component r k = Inr r"
proof -
  obtain host port where hp: "host_and_port v = (host, port)" by fastforce
  have "port = Some p \<Longrightarrow> lowercase p = p" for p
    using assms hp parse_u16_chars[of p]
    by (intro lowercase_other)
      (fastforce simp: validate_name_component_def char_class_defs split: option.splits if_splits)
  then show ?thesis
    using assms hp
    by (cases port) (auto simp: validate_name_component_def host_and_port_lower host_labels_lower
        split: if_splits option.splits)
qed

lemma set_join: "set (join c parts) \<subseteq> insert c (\<Union> (set ` set parts))"
  by (induction c parts rule: join.induct) auto

lemma set_split: "x \<in> set s \<Longrightarrow> x = c \<or> (\<exists>part \<in> set (split_char c s). x \<in> set part)"
  using set_join[of c "split_char c s"] by (auto simp: join_split)

lemma host_and_port_text:
  "host_and_port v = (host, port) \<Longrightarrow> v = (case port of None \<Rightarrow> host | Some p \<Rightarrow> host @ CHR '':'' # p)"
  by (cases "CHR '':''" v rule: rfind_cases) (auto simp: host_and_port_def rsplit_once_def)

lemma registry_chars:
  assumes "validate_name_component v l = Inr r" "c \<in> set v"
  shows "is_alnum c \<or> c \<in> set ''-.:+''"
proof -
  obtain host port where hp: "host_and_port v = (host, port)" by fastforce
  have host: "is_alnum d \<or> d \<in> set ''-.:+''" if "d \<in> set host" for d
    using assms(1) hp set_split[OF that, of "CHR ''.''"]
    by (auto simp: validate_name_component_def list_ex_iff valid_host_label_def list_all_iff split: if_splits)
  have "is_alnum d \<or> d \<in> set ''-.:+''" if "port = Some p" "d \<in> set p" for p d
    using assms(1) hp that parse_u16_chars[of p]
    by (fastforce simp: validate_name_component_def is_alnum_def split: if_splits option.splits)
  then show ?thesis using host assms(2) host_and_port_text[OF hp] by (cases port) auto
qed

lemma after_separator_suffix: "\<exists>u. s = u @ after_separator c s \<and> set u \<subseteq> {CHR ''-'', CHR ''_''}"
proof -
  consider "c = CHR ''_''" | "c = CHR ''-''" | "c \<noteq> CHR ''_''" "c \<noteq> CHR ''-''" by blast
  then show ?thesis
  proof cases
    case 1
    then show ?thesis by (cases s) (auto simp: after_separator_def)
  next
    case 2
    let ?p = "\<lambda>d. d = CHR ''-''"
    have "s = takeWhile ?p s @ dropWhile ?p s" "set (takeWhile ?p s) \<subseteq> {CHR ''-''}"
      by (auto dest: set_takeWhileD)
    then show ?thesis using 2 by (intro exI[of _ "takeWhile ?p s"]) (auto simp: after_separator_def)
  next
    case 3
    then show ?thesis by (simp add: after_separator_def)
  qed
qed

lemma component_rest_chars: "component_rest s \<Longrightarrow> c \<in> set s \<Longrightarrow> ref_char c"
proof (induction s rule: component_rest.induct)
  case (2 d s)
  show ?case
  proof (cases "is_alnum d")
    case True
    then show ?thesis using 2 by (auto simp: ref_char_def)
  next
    case False
    then obtain e t where t: "after_separator d s = e # t" "is_alnum e" "component_rest t" "d \<in> set ''._-''"
      using 2(3) by (auto split: if_splits list.splits)
    obtain u where u: "s = u @ e # t" "set u \<subseteq> {CHR ''-'', CHR ''_''}"
      using after_separator_suffix[of s d] t(1) by auto
    have "c \<in> set t \<Longrightarrow> ref_char c" using 2(2)[OF False] t by simp
    moreover have "c = d \<or> c \<in> set u \<or> c = e \<or> c \<in> set t" using 2(4) u(1) by auto
    moreover have "ref_char d" "ref_char e" using t by (auto simp: ref_char_def)
    moreover have "c \<in> set u \<Longrightarrow> ref_char c" using u(2) by (auto simp: ref_char_def)
    ultimately show ?thesis by blast
  qed
qed simp

lemma valid_component_chars: "valid_repository_component p \<Longrightarrow> c \<in> set p \<Longrightarrow> ref_char c"
  using component_rest_chars
  by (cases p) (auto simp: valid_repository_component_def ref_char_def)

lemma repository_chars:
  assumes "validate_repository v = Inr r" "c \<in> set v"
  shows "ref_char c \<or> c = CHR ''/''"
proof -
  have "valid_repository_component p" if "p \<in> set (split_char CHR ''/'' v)" for p
    using assms(1) that by (auto simp: validate_repository_def list_ex_iff split: if_splits)
  then show ?thesis using set_split[OF assms(2), of "CHR ''/''"] valid_component_chars by blast
qed

lemma validate_repository_Inr: "validate_repository v = Inr r \<Longrightarrow> r = v \<and> v \<noteq> []"
  by (auto simp: validate_repository_def split: if_splits)

lemma validate_tag_Inr:
  "validate_tag v = Inr t \<Longrightarrow> t = v \<and> v \<noteq> [] \<and> (\<forall>c \<in> set v. ref_char c)"
  by (auto simp: validate_tag_def ref_char_def list_ex_iff split: if_splits)

lemma validate_digest_Inr:
  assumes "validate_digest v = Inr d"
  shows "d = v \<and> (\<exists>h. v = ''sha256:'' @ h \<and> list_all is_hexdigit h \<and> h \<noteq> [])"
  using assms by (auto simp: validate_digest_def strip_prefix_Some_iff split: option.splits if_splits)

text \<open>What a parsed reference satisfies.\<close>

definition wf_reference :: "image_reference \<Rightarrow> bool" where
  "wf_reference r \<longleftrightarrow>
     validate_name_component (ir_registry r) ''registry'' = Inr (ir_registry r)
     \<and> is_registry_host (ir_registry r)
     \<and> validate_repository (ir_repository r) = Inr (ir_repository r)
     \<and> lowercase (ir_repository r) = ir_repository r
     \<and> (ir_registry r = ''docker.io'' \<longrightarrow> CHR ''/'' \<in> set (ir_repository r))
     \<and> (case ir_tag r of
          Some t \<Rightarrow> ir_digest r = None \<and> validate_tag t = Inr t
        | None \<Rightarrow> (case ir_digest r of Some d \<Rightarrow> validate_digest d = Inr d | None \<Rightarrow> False))"

lemma in_lowercase: "\<not> is_alpha c \<Longrightarrow> c \<in> set (lowercase s) \<longleftrightarrow> c \<in> set s"
  using to_lower_other[of c] by (induction s) (simp_all add: lowercase_def eq_commute[of c])

lemma slash_lowercase [simp]: "CHR ''/'' \<in> set (lowercase s) \<longleftrightarrow> CHR ''/'' \<in> set s"
  by (rule in_lowercase) (simp add: char_class_defs)

lemma registry_host_lower: "is_registry_host s \<Longrightarrow> is_registry_host (lowercase s)"
proof -
  have "CHR ''.'' \<in> set (lowercase s) \<longleftrightarrow> CHR ''.'' \<in> set s" "CHR '':'' \<in> set (lowercase s) \<longleftrightarrow> CHR '':'' \<in> set s"
    by (rule in_lowercase; simp add: char_class_defs)+
  moreover have "lowercase ''localhost'' = ''localhost''" by code_simp
  ultimately show "is_registry_host s \<Longrightarrow> is_registry_host (lowercase s)" by (auto simp: is_registry_host_def)
qed

lemma docker_io: "is_registry_host ''docker.io''" "lowercase ''docker.io'' = ''docker.io''"
  by code_simp+

lemma validate_name_lower: "validate_name_component v l = Inr r \<Longrightarrow> r = lowercase v"
  by (auto simp: validate_name_component_def split: prod.splits if_splits)

lemma registry_and_repository_facts:
  assumes "registry_and_repository name = (registry, repo)"
  shows "is_registry_host registry" "lowercase registry = ''docker.io'' \<Longrightarrow> CHR ''/'' \<in> set repo"
  using assms docker_io split_char_sep_iff[of "CHR ''/''" name]
  by (auto simp: registry_and_repository_def Let_def split: if_splits)

lemma split_reference_wf:
  assumes "split_reference input val = Inr (name, tag, digest)"
  shows "case tag of
          Some t \<Rightarrow> digest = None \<and> validate_tag t = Inr t
        | None \<Rightarrow> (case digest of Some d \<Rightarrow> validate_digest d = Inr d | None \<Rightarrow> False)"
proof (cases "split_once val ''@''")
  case (Some nd)
  then have "tag = None" "\<exists>d. validate_digest (snd nd) = Inr d \<and> digest = Some d"
    using assms by (auto simp: split_reference_def res_simps split: prod.splits if_splits)
  then show ?thesis using validate_digest_Inr by fastforce
next
  case None
  have "validate_tag ''latest'' = Inr ''latest''" by code_simp
  moreover have "validate_tag t = Inr u \<Longrightarrow> validate_tag u = Inr u" for t u
    using validate_tag_Inr by metis
  ultimately show ?thesis
    using assms None by (auto simp: split_reference_def res_simps split: option.splits)
qed

lemma parse_reference_wf:
  assumes "parse_reference input = Inr r"
  shows "wf_reference r"
proof -
  obtain val name tag digest registry repo where p:
      "split_reference input val = Inr (name, tag, digest)"
      "validate_name_component (fst (registry_and_repository name)) ''registry'' = Inr registry"
      "validate_repository (lowercase (snd (registry_and_repository name))) = Inr repo"
      "r = \<lparr>ir_registry = registry, ir_repository = repo, ir_tag = tag, ir_digest = digest\<rparr>"
    using assms by (auto simp: parse_reference_def Let_def res_simps split: if_splits)
  obtain registry0 repo0 where parts: "registry_and_repository name = (registry0, repo0)" by fastforce
  have lower: "registry = lowercase registry0" using validate_name_lower[OF p(2)] parts by simp
  have repo: "repo = lowercase repo0" using validate_repository_Inr[OF p(3)] parts by simp
  note facts = registry_and_repository_facts[OF parts]
  show ?thesis
    using validate_name_again[OF p(2)] registry_host_lower[OF facts(1)] facts(2) split_reference_wf[OF p(1)] p(3) parts
    by (cases tag) (simp_all add: wf_reference_def p(4) lower repo)
qed

text \<open>The parts of a canonical text are where the parser looks for them.\<close>

lemma char_facts:
  assumes "wf_reference r"
  shows "\<forall>c \<in> set (ir_registry r). is_alnum c \<or> c \<in> set ''-.:+''"
    and "\<forall>c \<in> set (ir_repository r). ref_char c \<or> c = CHR ''/''"
    and "ir_registry r \<noteq> []" "ir_repository r \<noteq> []"
proof -
  show "\<forall>c \<in> set (ir_registry r). is_alnum c \<or> c \<in> set ''-.:+''"
    using assms registry_chars by (auto simp: wf_reference_def)
  show "\<forall>c \<in> set (ir_repository r). ref_char c \<or> c = CHR ''/''"
    using assms repository_chars by (auto simp: wf_reference_def)
  show "ir_registry r \<noteq> []" using assms by (auto simp: wf_reference_def is_registry_host_def)
  show "ir_repository r \<noteq> []" using assms validate_repository_Inr by (auto simp: wf_reference_def)
qed

lemma not_ref_chars [simp]:
  "\<not> ref_char CHR ''/''" "\<not> ref_char CHR '':''" "\<not> ref_char CHR ''@''"
  "\<not> is_alnum CHR ''/''" "\<not> is_alnum CHR ''@''" "\<not> is_alnum CHR '':''"
  by (simp_all add: ref_char_def char_class_defs)

lemma registry_and_repository_again:
  assumes "wf_reference r"
  shows "registry_and_repository (repository r) = (ir_registry r, ir_repository r)"
proof -
  have "CHR ''/'' \<notin> set (ir_registry r)" using char_facts(1)[OF assms] by auto
  then have parts: "split_char CHR ''/'' (repository r) = ir_registry r # split_char CHR ''/'' (ir_repository r)"
    by (simp add: repository_def split_char_append)
  have "lowercase (ir_registry r) = ir_registry r"
    using assms validate_name_lower by (fastforce simp: wf_reference_def)
  moreover have "length (split_char CHR ''/'' (ir_repository r)) > 0" by simp
  ultimately show ?thesis
    using assms parts by (auto simp: registry_and_repository_def wf_reference_def Let_def join_split)
qed

lemma repository_no_tag:
  assumes "wf_reference r"
  shows "tag_position (repository r) = None"
proof (cases "CHR '':''" "repository r" rule: rfind_cases)
  case absent
  then show ?thesis by (simp add: tag_position_def)
next
  case (found a b)
  have repo: "CHR '':'' \<notin> set (ir_repository r)" using char_facts(2)[OF assms] by auto
  have "CHR '':'' \<in> set (repository r)" using found(1) by simp
  then have "CHR '':'' \<in> set (ir_registry r)" using repo by (simp add: repository_def)
  then obtain x y where xy: "ir_registry r = x @ CHR '':'' # y" "CHR '':'' \<notin> set y" by (meson split_list_last)
  have whole: "repository r = x @ CHR '':'' # (y @ CHR ''/'' # ir_repository r)" by (simp add: repository_def xy)
  moreover have "CHR '':'' \<notin> set (y @ CHR ''/'' # ir_repository r)" using xy repo by simp
  ultimately have colon: "rfind CHR '':'' (repository r) = Some (length x)" by (metis rfind_append)
  obtain p where p: "rfind CHR ''/'' (repository r) = Some p" by (cases "CHR ''/''" "repository r" rule: rfind_cases) (auto simp: repository_def)
  have "length x < p"
  proof (cases "CHR ''/''" "ir_repository r" rule: rfind_cases)
    case absent
    then show ?thesis using p rfind_append[OF absent(1), of "ir_registry r"] xy by (simp add: repository_def)
  next
    case (found u v)
    then show ?thesis using p rfind_append[OF found(2), of "ir_registry r @ ''/'' @ u"] xy by (simp add: repository_def)
  qed
  then show ?thesis by (simp add: tag_position_def colon p)
qed

lemma ref_char_printable: "ref_char c \<Longrightarrow> printable c"
  by (auto simp: ref_char_def printable_def char_class_defs)

text \<open>A text that begins with a repository and goes on with printable characters is kept as it is.\<close>

lemma repository_text:
  assumes "wf_reference r" "\<forall>c \<in> set rest. printable c"
  shows "trim (repository r @ rest) = repository r @ rest"
    and "strip_prefix (repository r @ rest) ''docker://'' = None"
    and "\<not> list_ex is_ascii_control (repository r @ rest)" "repository r \<noteq> []"
proof -
  have all: "\<forall>c \<in> set (repository r @ rest). printable c"
    using char_facts(1,2)[OF assms(1)] ref_char_printable assms(2)
    by (auto simp: repository_def printable_def char_class_defs)
  show ne: "repository r \<noteq> []" by (simp add: repository_def)
  then show "trim (repository r @ rest) = repository r @ rest"
    using all last_in_set[of "repository r @ rest"] hd_in_set[of "repository r @ rest"]
    by (intro trim_printable) (simp_all only: append_is_Nil_conv simp_thms)
  show "\<not> list_ex is_ascii_control (repository r @ rest)"
  proof -
    have "printable c \<Longrightarrow> \<not> is_ascii_control c" for c by (auto simp: printable_def is_ascii_control_def)
    then show ?thesis using all unfolding list_ex_iff by blast
  qed
  show "strip_prefix (repository r @ rest) ''docker://'' = None"
  proof (rule ccontr)
    assume "strip_prefix (repository r @ rest) ''docker://'' \<noteq> None"
    then obtain v where v: "repository r @ rest = ''docker:'' @ CHR ''/'' # CHR ''/'' # v"
      using strip_prefix_Some_iff[of "repository r @ rest" "''docker://''"] by fastforce
    have "CHR ''/'' \<notin> set (ir_registry r)" using char_facts(1)[OF assms(1)] by auto
    then have "hd (split_char CHR ''/'' (repository r @ rest)) = ir_registry r"
      by (simp add: repository_def split_char_append)
    moreover have "hd (split_char CHR ''/'' (''docker:'' @ CHR ''/'' # CHR ''/'' # v)) = ''docker:''"
      by (subst split_char_append) simp_all
    ultimately have "ir_registry r = ''docker:''" using v by simp
    moreover have "\<not> is_ok (validate_name_component ''docker:'' ''registry'')" by code_simp
    ultimately show False using assms(1) by (auto simp: wf_reference_def)
  qed
qed

lemma split_canonical:
  assumes "wf_reference r"
  shows "\<exists>rest. canonical r = repository r @ rest \<and> (\<forall>c \<in> set rest. printable c)
     \<and> split_reference (canonical r) (canonical r) = Inr (repository r, ir_tag r, ir_digest r)"
proof -
  have at: "CHR ''@'' \<notin> set (repository r)" using char_facts(1,2)[OF assms] by (auto simp: repository_def)
  show ?thesis
  proof (cases "ir_tag r")
    case (Some t)
    then have t: "ir_digest r = None" "validate_tag t = Inr t" using assms by (auto simp: wf_reference_def)
    have chars: "\<forall>c \<in> set t. ref_char c" using validate_tag_Inr[OF t(2)] by blast
    then have no: "CHR '':'' \<notin> set t" "CHR ''/'' \<notin> set t" "CHR ''@'' \<notin> set t" by auto
    have whole: "canonical r = repository r @ CHR '':'' # t" using Some t by (simp add: canonical_def)
    have once: "split_once (canonical r) ''@'' = None"
      using at no by (simp add: split_once_None_iff contains_char_iff whole)
    have "CHR ''/'' \<in> set (repository r)" by (simp add: repository_def)
    then obtain x y where xy: "repository r = x @ CHR ''/'' # y" "CHR ''/'' \<notin> set y" by (meson split_list_last)
    have "rfind CHR ''/'' (canonical r) = Some (length x)"
      using rfind_append[of "CHR ''/''" "y @ CHR '':'' # t" x] xy no by (simp add: whole)
    moreover have "rfind CHR '':'' (canonical r) = Some (length (repository r))"
      using rfind_append[OF no(1)] by (simp add: whole)
    ultimately have "tag_position (canonical r) = Some (length (repository r))" by (simp add: tag_position_def xy)
    then show ?thesis
      using once t chars ref_char_printable Some
      by (intro exI[of _ "CHR '':'' # t"]) (auto simp: split_reference_def whole printable_def char_class_defs)
  next
    case None
    then obtain d where d: "ir_digest r = Some d" "validate_digest d = Inr d"
      using assms by (auto simp: wf_reference_def split: option.splits)
    then obtain hex where hex: "d = ''sha256:'' @ hex" "list_all is_hexdigit hex" using validate_digest_Inr[OF d(2)] by auto
    have chars: "\<forall>c \<in> set d. printable c \<and> c \<noteq> CHR ''@''"
      using hex by (auto simp: list_all_iff is_hexdigit_def printable_def char_class_defs)
    have whole: "canonical r = repository r @ CHR ''@'' # d" using None d by (simp add: canonical_def)
    have "split_once (canonical r) ''@'' = Some (repository r, d)"
      using split_once_charI[OF at] by (simp add: whole)
    then show ?thesis
      using d chars repository_no_tag[OF assms] None hex
      by (intro exI[of _ "CHR ''@'' # d"]) (auto simp: split_reference_def whole printable_def char_class_defs)
  qed
qed

lemma parse_canonical:
  assumes "wf_reference r"
  shows "parse_reference (canonical r) = Inr r"
proof -
  obtain rest where rest: "canonical r = repository r @ rest" "\<forall>c \<in> set rest. printable c"
      "split_reference (canonical r) (canonical r) = Inr (repository r, ir_tag r, ir_digest r)"
    using split_canonical[OF assms] by blast
  have "canonical r \<noteq> []" using repository_text(4)[OF assms rest(2)] rest(1) by simp
  then show ?thesis
    using repository_text(1-3)[OF assms rest(2)] rest(3) registry_and_repository_again[OF assms] assms
    unfolding parse_reference_def rest(1)[symmetric]
    by (simp add: Let_def wf_reference_def)
qed

interpretation image_text: text_codec canonical parse_reference wf_reference
  by unfold_locales (auto simp: parse_canonical dest: parse_reference_wf)

text \<open>
  An image reference that a user's text was read as prints a canonical text that is read
  back as that same reference and is pulled as it is; and two texts get the same template
  file name exactly when they were read as the same image, unless SHA-256 collides on their
  canonical texts.
\<close>

theorem image_reference_canonical:
  assumes "parse_reference a = Inr r" and "parse_reference b = Inr s"
    and "sha256 (canonical r) = sha256 (canonical s) \<Longrightarrow> canonical r = canonical s"
  shows "parse_reference (canonical r) = Inr r \<and> oci_reference_for_image (canonical r) = canonical r
    \<and> (filename sha256 r = filename sha256 s \<longleftrightarrow> r = s)"
proof -
  have wf: "wf_reference r" "wf_reference s" using assms(1,2) by (auto dest: parse_reference_wf)
  obtain rest where rest: "canonical r = repository r @ rest" "\<forall>c \<in> set rest. printable c"
    using split_canonical[OF wf(1)] by blast
  have "trim (canonical r) = canonical r" using repository_text(1)[OF wf(1) rest(2)] rest(1) by simp
  moreover have "CHR ''/'' \<in> set (canonical r)" by (simp add: rest(1) repository_def)
  ultimately have "oci_reference_for_image (canonical r) = canonical r"
    by (simp add: oci_reference_for_image_def is_oci_reference_def)
  then show ?thesis
    using image_text.reparse[OF assms(1)] image_text.codec_inject[OF wf] assms(3) by (auto simp: filename_def)
qed

theorem image_reference_canonical_witness:
  "\<exists>r s. parse_reference '' Debian:13'' = Inr r \<and> parse_reference ''docker://docker.io/debian'' = Inr s
     \<and> canonical r = ''docker.io/library/debian:13''
     \<and> (filename rev r = filename rev s \<longleftrightarrow> r = s)"
proof -
  have "case (parse_reference '' Debian:13'', parse_reference ''docker://docker.io/debian'') of
      (Inr r, Inr s) \<Rightarrow> canonical r = ''docker.io/library/debian:13'' | _ \<Rightarrow> False" by code_simp
  then obtain r s where runs: "parse_reference '' Debian:13'' = Inr r" "parse_reference ''docker://docker.io/debian'' = Inr s"
      "canonical r = ''docker.io/library/debian:13''" by (auto split: sum.splits)
  have "rev (canonical r) = rev (canonical s) \<Longrightarrow> canonical r = canonical s" by simp
  from image_reference_canonical[OF runs(1,2) this] runs show ?thesis by blast
qed

end
