(* ===== verification/Ipv6.thy ===== *)
theory Ipv6
  imports Pve "HOL-Library.List_Lexorder"
begin

text \<open>
  The address a container is shown with besides its IPv4 one
  (\<open>select_lxc_ipv6\<close> of \<open>crates/pbox-core/src/pve.rs\<close>), with the parser and the
  printer of \<open>std::net::Ipv6Addr\<close> it goes through. An address is its eight groups.
\<close>

type_synonym ipv6 = "nat list"

section \<open>Parsing\<close>

definition is_hex :: "char \<Rightarrow> bool" where
  "is_hex c \<longleftrightarrow> is_digit c \<or> 97 \<le> byte c \<and> byte c \<le> 102 \<or> 65 \<le> byte c \<and> byte c \<le> 70"

definition hex_digit :: "char \<Rightarrow> nat" where
  "hex_digit c = (if is_digit c then byte c - 48 else if byte c < 97 then byte c - 55 else byte c - 87)"

text \<open>A reader takes what it recognises off the front of the text.\<close>

definition read_group :: "string \<Rightarrow> (nat \<times> string) option" where
  "read_group s =
     (let digits = takeWhile is_hex s
      in if digits = [] \<or> length digits > 4 then None
         else Some (foldl (\<lambda>n c. n * 16 + hex_digit c) 0 digits, drop (length digits) s))"

definition read_ipv4 :: "string \<Rightarrow> (ipv4 \<times> string) option" where
  "read_ipv4 s =
     (let n = length (takeWhile (\<lambda>c. is_digit c \<or> c = CHR ''.'') s)
      in map_option (\<lambda>a. (a, drop n s)) (parse_ipv4 (take n s)))"

definition read_separator :: "bool \<Rightarrow> string \<Rightarrow> string option" where
  "read_separator first s =
     (if first then Some s else case s of c # r \<Rightarrow> if c = CHR '':'' then Some r else None | [] \<Rightarrow> None)"

text \<open>
  Up to \<open>limit\<close> groups, the last two of them perhaps as an IPv4 address; whether it
  ended with one, and the rest of the text.
\<close>

fun read_groups :: "bool \<Rightarrow> nat \<Rightarrow> string \<Rightarrow> nat list \<times> bool \<times> string" where
  "read_groups first 0 s = ([], False, s)"
| "read_groups first (Suc limit) s =
     (case read_separator first s of
        None \<Rightarrow> ([], False, s)
      | Some r \<Rightarrow>
          (case (if limit > 0 then read_ipv4 r else None) of
             Some ((a, b, c, d), rest) \<Rightarrow> ([a * 256 + b, c * 256 + d], True, rest)
           | None \<Rightarrow>
               (case read_group r of
                  None \<Rightarrow> ([], False, s)
                | Some (g, rest) \<Rightarrow>
                    let (gs, v4, end) = read_groups False limit rest in (g # gs, v4, end))))"

definition parse_ipv6 :: "string \<Rightarrow> ipv6 option" where
  "parse_ipv6 s =
     (let (head, head_v4, rest) = read_groups True 8 s
      in if length head = 8 then (if rest = [] then Some head else None)
         else if head_v4 then None
         else case strip_prefix rest ''::'' of
             None \<Rightarrow> None
           | Some r \<Rightarrow>
               let (tail, _, end) = read_groups True (7 - length head) r
               in if end = [] then Some (head @ replicate (8 - length head - length tail) 0 @ tail) else None)"

section \<open>Selection\<close>

definition usable_ipv6 :: "ipv6 \<Rightarrow> bool" where
  "usable_ipv6 a \<longleftrightarrow>
     a \<noteq> replicate 8 0 \<and> a \<noteq> replicate 7 0 @ [1]
     \<and> \<not> (0xFE80 \<le> hd a \<and> hd a < 0xFEC0) \<and> \<not> 0xFF00 \<le> hd a"

definition interface_ipv6s :: "lxc_interface \<Rightarrow> (bool \<times> ipv6) list" where
  "interface_ipv6s i =
     (if if_active i = Some 0 \<or> if_exists i = Some 0 then []
      else map (Pair (if_name i \<noteq> Some ''eth0''))
        (filter usable_ipv6
          (List.map_filter (\<lambda>value. parse_ipv6 (hd (split_char CHR ''/'' value)))
            (if_addresses i @ (case if_inet6 i of Some value \<Rightarrow> [value] | None \<Rightarrow> [])))))"

definition select_lxc_ipv6 :: "lxc_interface list \<Rightarrow> ipv6 option" where
  "select_lxc_ipv6 interfaces =
     map_option snd (min_by_key (\<lambda>x. x) (concat (map interface_ipv6s interfaces)))"

section \<open>Printing\<close>

definition hex_lower :: "nat \<Rightarrow> char" where
  "hex_lower d = (if d < 10 then char_of (48 + d) else char_of (87 + d))"

fun show_hex :: "nat \<Rightarrow> string" where
  "show_hex n = (if n < 16 then [hex_lower n] else show_hex (n div 16) @ [hex_lower (n mod 16)])"

declare show_hex.simps [simp del]

definition show_groups :: "nat list \<Rightarrow> string" where
  "show_groups gs =
     (case map show_hex gs of [] \<Rightarrow> [] | t # ts \<Rightarrow> t @ concat (map (\<lambda>u. CHR '':'' # u) ts))"

text \<open>The first longest run of zero groups: where it starts and how long it is.\<close>

fun zero_run :: "nat \<Rightarrow> nat \<times> nat \<Rightarrow> nat \<times> nat \<Rightarrow> nat list \<Rightarrow> nat \<times> nat" where
  "zero_run i longest current [] = longest"
| "zero_run i longest current (g # gs) =
     (if g = 0
      then let current = (if snd current = 0 then (i, 1) else (fst current, Suc (snd current)))
           in zero_run (Suc i) (if snd current > snd longest then current else longest) current gs
      else zero_run (Suc i) longest (0, 0) gs)"

definition show_ipv4 :: "ipv4 \<Rightarrow> string" where
  "show_ipv4 = (\<lambda>(a, b, c, d).
     show_nat a @ ''.'' @ show_nat b @ ''.'' @ show_nat c @ ''.'' @ show_nat d)"

definition show_ipv6 :: "ipv6 \<Rightarrow> string" where
  "show_ipv6 a =
     (if take 6 a = [0, 0, 0, 0, 0, 0xFFFF]
      then ''::ffff:'' @ show_ipv4 (a ! 6 div 256, a ! 6 mod 256, a ! 7 div 256, a ! 7 mod 256)
      else let (start, len) = zero_run 0 (0, 0) (0, 0) a
           in if len > 1 then show_groups (take start a) @ ''::'' @ show_groups (drop (start + len) a)
              else show_groups a)"

section \<open>Properties\<close>

lemma read_groups_length: "read_groups first limit s = (gs, v4, rest) \<Longrightarrow> length gs \<le> limit"
  by (induction first limit s arbitrary: gs v4 rest rule: read_groups.induct)
    (auto split: option.splits if_splits prod.splits)

lemma parse_ipv6_length:
  assumes "parse_ipv6 s = Some a"
  shows "length a = 8"
proof -
  obtain head v4 rest where head: "read_groups True 8 s = (head, v4, rest)" by (metis prod_cases3)
  note len = read_groups_length[OF head]
  show ?thesis
  proof (cases "length head = 8 \<or> v4")
    case True
    then show ?thesis using assms head by (auto simp: parse_ipv6_def split: if_splits)
  next
    case False
    then obtain r where r: "strip_prefix rest ''::'' = Some r"
      using assms head by (auto simp: parse_ipv6_def split: option.splits)
    obtain tail v4' left where tail: "read_groups True (7 - length head) r = (tail, v4', left)" by (metis prod_cases3)
    from read_groups_length[OF tail] len False assms head r tail show ?thesis
      by (auto simp: parse_ipv6_def split: if_splits)
  qed
qed

definition address_texts :: "lxc_interface \<Rightarrow> string list" where
  "address_texts i = if_addresses i @ (case if_inet6 i of Some value \<Rightarrow> [value] | None \<Rightarrow> [])"

lemma interface_ipv6s_set:
  "(b, a) \<in> set (interface_ipv6s i) \<longleftrightarrow>
     if_active i \<noteq> Some 0 \<and> if_exists i \<noteq> Some 0 \<and> (b \<longleftrightarrow> if_name i \<noteq> Some ''eth0'') \<and> usable_ipv6 a
     \<and> (\<exists>value \<in> set (address_texts i). parse_ipv6 (hd (split_char CHR ''/'' value)) = Some a)"
  unfolding interface_ipv6s_def address_texts_def[symmetric]
  using set_map_filter_iff[of a "\<lambda>value. parse_ipv6 (hd (split_char CHR ''/'' value))" "address_texts i"]
  by (cases "if_active i = Some 0 \<or> if_exists i = Some 0") auto

lemma usable_interface_ipv6:
  "(b, a) \<in> set (interface_ipv6s i) \<Longrightarrow> usable_ipv6 a \<and> length a = 8 \<and> (b \<longleftrightarrow> if_name i \<noteq> Some ''eth0'')"
  unfolding interface_ipv6s_set using parse_ipv6_length by blast

lemma select_ipv6_least:
  assumes "select_lxc_ipv6 interfaces = Some a"
  shows "usable_ipv6 a \<and> length a = 8
       \<and> (\<exists>b. (\<forall>i \<in> set interfaces. \<forall>c \<in> set (interface_ipv6s i). (b, a) \<le> c)
            \<and> (\<exists>i \<in> set interfaces. (b, a) \<in> set (interface_ipv6s i)))"
proof -
  obtain m where m: "min_by_key (\<lambda>x. x) (concat (map interface_ipv6s interfaces)) = Some m" "a = snd m"
    using assms by (auto simp: select_lxc_ipv6_def)
  from min_by_key_Some[OF m(1)] have least: "m \<in> set (concat (map interface_ipv6s interfaces))"
    "\<forall>c \<in> set (concat (map interface_ipv6s interfaces)). m \<le> c" by auto
  then obtain i where i: "i \<in> set interfaces" "(fst m, a) \<in> set (interface_ipv6s i)" using m by auto
  from least(2) have "\<forall>i \<in> set interfaces. \<forall>c \<in> set (interface_ipv6s i). (fst m, a) \<le> c"
    using m(2) by (cases m) auto
  with usable_interface_ipv6[OF i(2)] i show ?thesis by blast
qed

end
