(* ===== verification/PveCalls.thy ===== *)
theory PveCalls
  imports Ipv6 Metadata Vmid
begin

text \<open>
  The command line client's conversations with Proxmox VE: programs over the calls of
  \<open>PveApi\<close>. A server answers each call depending on everything it was asked before,
  so it stands for PVE together with whatever else changes the cluster. A program takes the
  conversation so far and returns a result and the conversation it leaves.
\<close>

section \<open>Answers\<close>

record pve_node =
  pn_node :: string
  pn_status :: "string option"

record pve_storage =
  ps_storage :: string
  ps_content :: "string option"
  ps_active :: "nat option"
  ps_enabled :: "nat option"
  ps_type :: "string option"

record storage_content =
  sc_volid :: string
  sc_content :: "string option"

record cluster_resource =
  rs_type :: string
  rs_vmid :: "nat option"
  rs_node :: "string option"
  rs_status :: "string option"
  rs_name :: "string option"

text \<open>What a configuration holds beyond its named fields, by key, in the order of the keys.\<close>

datatype extra_value = Flag bool | Count nat | Words string | Otherwise

record lxc_config =
  lc_digest :: "string option"
  lc_description :: "string option"
  lc_hostname :: "string option"
  lc_lock :: "string option"
  lc_extra :: "(string \<times> extra_value) list"

datatype answer =
    Resources "cluster_resource list"
  | Nodes "pve_node list"
  | Storages "pve_storage list"
  | Contents "storage_content list"
  | ConfigIs lxc_config
  | Interfaces "lxc_interface list"
  | StateIs string
  | TaskIs string
  | TaskList "string list"
  | StatusIs pve_task_status
  | LogIs "(nat \<times> string) list"
  | Tags "string list"
  | Nothing

type_synonym history = "(api_call \<times> (pve_error, answer) result) list"
type_synonym server = "history \<Rightarrow> api_call \<Rightarrow> (pve_error, answer) result"

text \<open>
  The errors programs end with: a chain of contexts around what went wrong. A failed task
  keeps its exit status; an unreadable task status keeps the error it was read with.
  \<open>Because\<close> is a message that ends with the text of an error, and \<open>Attached\<close> an
  error with a context of a label and the text of another error, which \<open>Recovering\<close>
  follows with advice.
\<close>

datatype failure =
    Api pve_error | Unreadable pve_error | TaskFailed string string | Message string
  | Meta metadata_error | Vmids vmid_error | Context string failure
  | Because string failure | Attached failure string failure | Recovering failure string failure string

section \<open>Programs\<close>

definition ret :: "'a \<Rightarrow> history \<Rightarrow> ('e, 'a) result \<times> history" where
  "ret a h = (Inr a, h)"

definition fail :: "'e \<Rightarrow> history \<Rightarrow> ('e, 'a) result \<times> history" where
  "fail e h = (Inl e, h)"

definition chain ::
  "(history \<Rightarrow> ('e, 'a) result \<times> history) \<Rightarrow> ('a \<Rightarrow> history \<Rightarrow> ('e, 'b) result \<times> history)
     \<Rightarrow> history \<Rightarrow> ('e, 'b) result \<times> history" where
  "chain m f h = (case m h of (Inl e, h') \<Rightarrow> (Inl e, h') | (Inr a, h') \<Rightarrow> f a h')"

text \<open>A result that takes no call, and one whose error is turned into another.\<close>

definition pure :: "('e, 'a) result \<Rightarrow> history \<Rightarrow> ('e, 'a) result \<times> history" where
  "pure r h = (r, h)"

definition on_error ::
  "('e \<Rightarrow> 'f) \<Rightarrow> (history \<Rightarrow> ('e, 'a) result \<times> history) \<Rightarrow> history \<Rightarrow> ('f, 'a) result \<times> history" where
  "on_error f m h = (map_err f (fst (m h)), snd (m h))"

abbreviation with_context ::
  "string \<Rightarrow> (history \<Rightarrow> (failure, 'a) result \<times> history) \<Rightarrow> history \<Rightarrow> (failure, 'a) result \<times> history" where
  "with_context msg \<equiv> on_error (Context msg)"

text \<open>One call; an answer that does not decode is an error.\<close>

definition call ::
  "(answer \<Rightarrow> 'a option) \<Rightarrow> server \<Rightarrow> api_call \<Rightarrow> history \<Rightarrow> (pve_error, 'a) result \<times> history" where
  "call decode srv c h =
     (and_then (srv h c) (\<lambda>a. ok_or (Decode []) (decode a)), h @ [(c, srv h c)])"

text \<open>Decoding an answer.\<close>

fun as_resources :: "answer \<Rightarrow> (cluster_resource list) option" where
  "as_resources (Resources x) = Some x" | "as_resources _ = None"

fun as_nodes :: "answer \<Rightarrow> (pve_node list) option" where
  "as_nodes (Nodes x) = Some x" | "as_nodes _ = None"

fun as_storages :: "answer \<Rightarrow> (pve_storage list) option" where
  "as_storages (Storages x) = Some x" | "as_storages _ = None"

fun as_contents :: "answer \<Rightarrow> (storage_content list) option" where
  "as_contents (Contents x) = Some x" | "as_contents _ = None"

fun as_config :: "answer \<Rightarrow> (lxc_config) option" where
  "as_config (ConfigIs x) = Some x" | "as_config _ = None"

fun as_interfaces :: "answer \<Rightarrow> (lxc_interface list) option" where
  "as_interfaces (Interfaces x) = Some x" | "as_interfaces _ = None"

fun as_state :: "answer \<Rightarrow> (string) option" where
  "as_state (StateIs x) = Some x" | "as_state _ = None"

fun as_status :: "answer \<Rightarrow> (pve_task_status) option" where
  "as_status (StatusIs x) = Some x" | "as_status _ = None"

fun as_log :: "answer \<Rightarrow> ((nat \<times> string) list) option" where
  "as_log (LogIs x) = Some x" | "as_log _ = None"

fun as_task_list :: "answer \<Rightarrow> (string list) option" where
  "as_task_list (TaskList x) = Some x" | "as_task_list _ = None"

fun as_task :: "answer \<Rightarrow> (string) option" where
  "as_task (TaskIs x) = Some x" | "as_task _ = None"

fun as_nothing :: "answer \<Rightarrow> unit option" where
  "as_nothing Nothing = Some ()" | "as_nothing _ = None"

lemma as_Some [simp]:
  "as_resources a = Some r \<longleftrightarrow> a = Resources r"
  "as_nodes a = Some n \<longleftrightarrow> a = Nodes n"
  "as_storages a = Some s \<longleftrightarrow> a = Storages s"
  "as_contents a = Some cs \<longleftrightarrow> a = Contents cs"
  "as_config a = Some c \<longleftrightarrow> a = ConfigIs c"
  "as_interfaces a = Some i \<longleftrightarrow> a = Interfaces i"
  "as_state a = Some state \<longleftrightarrow> a = StateIs state"
  "as_status a = Some status \<longleftrightarrow> a = StatusIs status"
  "as_log a = Some l \<longleftrightarrow> a = LogIs l"
  "as_task_list a = Some t \<longleftrightarrow> a = TaskList t"
  "as_task a = Some upid \<longleftrightarrow> a = TaskIs upid"
  "as_nothing a = Some u \<longleftrightarrow> a = Nothing"
  by (cases a; auto)+

definition list_cluster_resources where
  "list_cluster_resources srv =
     call as_resources srv ListClusterResources"

definition list_nodes where
  "list_nodes srv = call as_nodes srv ListNodes"

definition list_node_storages where
  "list_node_storages srv node =
     call as_storages srv (ListNodeStorages node)"

definition list_storage_content where
  "list_storage_content srv node storage content =
     call as_contents srv (ListStorageContent node storage content)"

definition get_lxc_config where
  "get_lxc_config srv node vmid =
     call as_config srv (GetLxcConfig node vmid)"

definition list_lxc_interfaces where
  "list_lxc_interfaces srv node vmid =
     call as_interfaces srv (ListLxcInterfaces node vmid)"

definition get_lxc_state where
  "get_lxc_state srv node vmid =
     call as_state srv (GetLxcState node vmid)"

definition get_task_status where
  "get_task_status srv node upid =
     call as_status srv (GetTaskStatus node upid)"

definition get_task_log where
  "get_task_log srv node upid start limit =
     call as_log srv (GetTaskLog node upid start limit)"

definition active_delete_tasks where
  "active_delete_tasks srv node =
     call as_task_list srv (ActiveDeleteTasks node)"

text \<open>The operations that start a task, and those that answer nothing.\<close>

definition task :: "server \<Rightarrow> api_call \<Rightarrow> history \<Rightarrow> (pve_error, string) result \<times> history" where
  "task srv = call as_task srv"

definition empty_call :: "server \<Rightarrow> api_call \<Rightarrow> history \<Rightarrow> (pve_error, unit) result \<times> history" where
  "empty_call srv = call as_nothing srv"

text \<open>\<open>start_lxc\<close>, \<open>shutdown_lxc\<close> and \<open>stop_lxc\<close> are status actions.\<close>

abbreviation start_lxc where "start_lxc srv node vmid \<equiv> task srv (StatusAction node vmid ''start'')"
abbreviation shutdown_lxc where "shutdown_lxc srv node vmid \<equiv> task srv (StatusAction node vmid ''shutdown'')"
abbreviation stop_lxc where "stop_lxc srv node vmid \<equiv> task srv (StatusAction node vmid ''stop'')"

section \<open>What a program asked for\<close>

text \<open>The calls that only read.\<close>

primrec is_read :: "api_call \<Rightarrow> bool" where
  "is_read ListClusterResources = True"
| "is_read (LxcUsage node vmid) = True"
| "is_read (GetLxcConfig node vmid) = True"
| "is_read (ListLxcInterfaces node vmid) = True"
| "is_read (ListLxcSnapshots node vmid) = True"
| "is_read (GetTaskStatus node upid) = True"
| "is_read (GetTaskLog node upid start limit) = True"
| "is_read ListNodes = True"
| "is_read (ListNodeStorages node) = True"
| "is_read (ListNodeNetworkInterfaces node) = True"
| "is_read (ListStorageContent node storage content) = True"
| "is_read (ListOciRepoTags node reference) = True"
| "is_read (PullOciRegistry node storage reference filename) = False"
| "is_read (UploadStorageTemplate node storage filename local_path) = False"
| "is_read (DeleteBootstrapTemplate node storage filename) = False"
| "is_read (GetLxcState node vmid) = True"
| "is_read (CreateLxc node vmid request) = False"
| "is_read (UpdateLxcConfig node vmid request) = False"
| "is_read (StatusAction node vmid action) = False"
| "is_read (DeleteLxc node vmid) = False"
| "is_read (ForceDeleteLxc node vmid) = False"
| "is_read (CloneLxc node vmid request) = False"
| "is_read (TemplateLxc node vmid) = False"
| "is_read (ActiveDeleteTasks node) = True"
| "is_read (TemplateTasks node vmid) = True"
| "is_read (CreateLxcSnapshot node vmid request) = False"
| "is_read (RollbackLxcSnapshot node vmid snapname start) = False"
| "is_read (DeleteLxcSnapshot node vmid snapname) = False"

text \<open>The calls after \<open>h\<close>, and those among them that change something.\<close>

definition asked :: "history \<Rightarrow> history \<Rightarrow> history" where
  "asked h h' = drop (length h) h'"

definition changes :: "history \<Rightarrow> api_call list" where
  "changes h = filter (\<lambda>c. \<not> is_read c) (map fst h)"

text \<open>A program only adds to the conversation; a reader adds reads.\<close>

definition extends :: "history \<Rightarrow> history \<Rightarrow> bool" where
  "extends h h' \<longleftrightarrow> (\<exists>t. h' = h @ t)"

definition reads :: "history \<Rightarrow> history \<Rightarrow> bool" where
  "reads h h' \<longleftrightarrow> (\<exists>t. h' = h @ t \<and> changes t = [])"

lemma changes_simps [simp]:
  "changes [] = []" "changes (h @ t) = changes h @ changes t"
  "changes ((c, a) # t) = (if is_read c then [] else [c]) @ changes t"
  by (simp_all add: changes_def)

lemma reads_refl [simp]: "reads h h"
  by (simp add: reads_def)

lemma reads_trans [trans]: "reads h h1 \<Longrightarrow> reads h1 h2 \<Longrightarrow> reads h h2"
  by (auto simp: reads_def)

lemma reads_changes: "reads h h' \<Longrightarrow> changes h' = changes h"
  by (auto simp: reads_def)

lemma reads_call: "is_read c \<Longrightarrow> reads h (snd (call decode srv c h))"
  by (simp add: reads_def call_def)

lemma reads_chain:
  assumes "reads h (snd (m h))" "\<And>a h'. m h = (Inr a, h') \<Longrightarrow> reads h' (snd (f a h'))"
  shows "reads h (snd (chain m f h))"
  using assms by (auto simp: chain_def split: prod.splits sum.splits intro: reads_trans)

lemma reads_on_error: "reads h (snd (m h)) \<Longrightarrow> reads h (snd (on_error f m h))"
  by (simp add: on_error_def)

lemma reads_ret: "reads h (snd (ret a h))" "reads h (snd (fail e h))" "reads h (snd (pure r h))"
  by (simp_all add: ret_def fail_def pure_def)

lemma call_snd: "snd (call decode srv c h) = h @ [(c, srv h c)]"
  by (simp add: call_def)

lemma call_Inr: "fst (call decode srv c h) = Inr x \<longleftrightarrow> (\<exists>a. srv h c = Inr a \<and> decode a = Some x)"
  by (auto simp: call_def res_simps)

lemma chain_Inr:
  "chain m f h = (Inr b, h2) \<longleftrightarrow> (\<exists>a h1. m h = (Inr a, h1) \<and> f a h1 = (Inr b, h2))"
  by (auto simp: chain_def split: prod.splits sum.splits)

lemma on_error_Inr: "on_error f m h = (Inr a, h1) \<longleftrightarrow> m h = (Inr a, h1)"
  by (cases "m h") (auto simp: on_error_def res_simps)

lemma call_eq_Inr:
  "call decode srv c h = (Inr x, h1) \<longleftrightarrow> h1 = h @ [(c, srv h c)] \<and> (\<exists>a. srv h c = Inr a \<and> decode a = Some x)"
  by (auto simp: call_def res_simps)

text \<open>Taking a program apart.\<close>

lemma chainE:
  assumes "chain m f h = (r, h2)"
  obtains (stops) e where "m h = (Inl e, h2)" "r = Inl e"
  | (goes) a h1 where "m h = (Inr a, h1)" "f a h1 = (r, h2)"
  using assms by (auto simp: chain_def split: prod.splits sum.splits)

lemma on_errorE:
  assumes "on_error f m h = (r, h1)"
  obtains r0 where "m h = (r0, h1)" "r = map_err f r0"
  using assms that[of "fst (m h)"] by (auto simp: on_error_def)

lemma callE:
  assumes "call decode srv c h = (r, h1)"
  obtains "h1 = h @ [(c, srv h c)]" "r = and_then (srv h c) (\<lambda>a. ok_or (Decode []) (decode a))"
  using assms by (auto simp: call_def)

lemma taskE:
  assumes "task srv c h = (r, h')"
  obtains (refused) e where "r = Inl e" "h' = h @ [(c, srv h c)]"
  | (started) upid where "r = Inr upid" "h' = h @ [(c, Inr (TaskIs upid))]"
proof (cases r)
  case (Inl e)
  then show ?thesis using assms refused by (auto simp: task_def call_def)
next
  case (Inr upid)
  then show ?thesis using assms started by (auto simp: task_def call_eq_Inr)
qed

lemmas program_defs = ret_def fail_def pure_def
lemmas read_call_defs = list_cluster_resources_def list_nodes_def list_node_storages_def
  list_storage_content_def get_lxc_config_def list_lxc_interfaces_def get_lxc_state_def
  get_task_status_def get_task_log_def active_delete_tasks_def

end
