(* ===== verification/Tasks.thy ===== *)
theory Tasks
  imports PveCalls
begin

text \<open>
  Waiting for PVE (\<open>wait_for_task_with_progress\<close> and \<open>wait_for_lxc_ip\<close> of
  \<open>crates/pbox-cli/src/main.rs\<close>). Time is the environment's: \<open>w_polls h\<close> is how many
  more polls a wait begun after the conversation \<open>h\<close> makes before its deadline has
  passed; each is followed by a sleep, so there are finitely many. Waiting is recursion on
  that number and on the read failures in a row.
\<close>

record world =
  w_server :: server
  w_polls :: "history \<Rightarrow> nat"
  w_verbose :: bool
  w_log_due :: "history \<Rightarrow> bool"

section \<open>The log of a failed task\<close>

definition TASK_LOG_LIMIT :: nat where "TASK_LOG_LIMIT = 40"
definition TASK_LOG_MAX_CHARS :: nat where "TASK_LOG_MAX_CHARS = 8 * 1024"

fun clip_log :: "nat \<Rightarrow> string list \<Rightarrow> string" where
  "clip_log used [] = []"
| "clip_log used (line # lines) =
     (if line = [] then clip_log used lines
      else let shown = take (TASK_LOG_MAX_CHARS - used) (char_texts line);
               used = used + length shown
           in concat shown
              @ (if used \<ge> TASK_LOG_MAX_CHARS then [] else ''\<newline>'' @ clip_log (Suc used) lines))"

definition task_error_with_log :: "world \<Rightarrow> string \<Rightarrow> string \<Rightarrow> string \<Rightarrow> history \<Rightarrow> string \<times> history" where
  "task_error_with_log w node upid message h =
     (case get_task_log (w_server w) node upid 0 TASK_LOG_LIMIT h of
        (Inl e, h') \<Rightarrow> (message, h')
      | (Inr entries, h') \<Rightarrow>
          let log = clip_log 0 (map (\<lambda>(_, t). safe_terminal_text t) entries)
          in (if log = [] then message else message @ ''\<newline>PVE task log:\<newline>'' @ trim_end log, h'))"

section \<open>Waiting for a task\<close>

text \<open>The log lines shown while waiting: what is read, and where to go on reading.\<close>

definition show_log :: "world \<Rightarrow> string \<Rightarrow> string \<Rightarrow> string \<Rightarrow> nat \<Rightarrow> history \<Rightarrow> nat \<times> history" where
  "show_log w node upid status cursor h =
     (if w_verbose w \<and> (w_log_due w h \<or> status = ''stopped'')
      then case get_task_log (w_server w) node upid cursor 100 h of
          (Inr entries, h') \<Rightarrow> (foldl max cursor (map fst entries), h')
        | (Inl e, h') \<Rightarrow> (cursor, h')
      else (cursor, h))"

definition transient :: "pve_error \<Rightarrow> bool" where
  "transient e = (case e of Http status _ \<Rightarrow> status \<in> {502, 503, 504, 596} | _ \<Rightarrow> False)"

definition task_ended :: "world \<Rightarrow> string \<Rightarrow> string \<Rightarrow> pve_task_status \<Rightarrow> history \<Rightarrow> (failure, unit) result \<times> history" where
  "task_ended w node upid status h =
     (if is_successful status then (Inr (), h)
      else let (detail, h') = task_error_with_log w node upid
                 (''PVE task failed on node '' @ node @ '' (UPID '' @ upid @ ''): ''
                  @ (case ts_exitstatus status of Some s \<Rightarrow> s | None \<Rightarrow> ''missing exit status'')) h
           in (Inl (TaskFailed (case ts_exitstatus status of Some s \<Rightarrow> s | None \<Rightarrow> []) detail), h'))"

definition task_timeout :: "world \<Rightarrow> string \<Rightarrow> string \<Rightarrow> history \<Rightarrow> (failure, unit) result \<times> history" where
  "task_timeout w node upid h =
     (let (detail, h') = task_error_with_log w node upid
            (''PVE task '' @ upid @ '' on node '' @ node @ '' did not finish within 300 seconds'') h
      in (Inl (Message detail), h'))"

function wait_loop ::
  "world \<Rightarrow> string \<Rightarrow> string \<Rightarrow> nat \<Rightarrow> nat \<Rightarrow> nat \<Rightarrow> history \<Rightarrow> (failure, unit) result \<times> history" where
  "wait_loop w node upid polls failures cursor h =
     (case get_task_status (w_server w) node upid h of
        (Inl e, h1) \<Rightarrow>
          if transient e \<and> failures < 3 then wait_loop w node upid polls (Suc failures) cursor h1
          else (Inl (Unreadable e), h1)
      | (Inr status, h1) \<Rightarrow>
          (case show_log w node upid (ts_status status) cursor h1 of
             (cursor', h2) \<Rightarrow>
               if ts_status status = ''stopped'' then task_ended w node upid status h2
               else case polls of
                   0 \<Rightarrow> task_timeout w node upid h2
                 | Suc left \<Rightarrow> wait_loop w node upid left 0 cursor' h2))"
  by pat_completeness auto
termination
  by (relation "measures [\<lambda>(_, _, _, polls, _, _, _). polls, \<lambda>(_, _, _, _, failures, _, _). 3 - failures]") auto

declare wait_loop.simps [simp del]

definition wait_for_task :: "world \<Rightarrow> string \<Rightarrow> string \<Rightarrow> history \<Rightarrow> (failure, unit) result \<times> history" where
  "wait_for_task w node upid h = wait_loop w node upid (w_polls w h) 0 0 h"

text \<open>A task that failed, however it was reported further up (\<open>error.chain()\<close>).\<close>

fun failed_task :: "failure \<Rightarrow> string option" where
  "failed_task (TaskFailed status detail) = Some status"
| "failed_task (Context msg e) = failed_task e"
| "failed_task (Attached primary label secondary) = failed_task primary"
| "failed_task (Recovering primary label secondary advice) = failed_task primary"
| "failed_task _ = None"

section \<open>Waiting for an address\<close>

definition discover_lxc_addresses ::
  "world \<Rightarrow> string \<Rightarrow> nat \<Rightarrow> history \<Rightarrow> (failure, string option \<times> string option) result \<times> history" where
  "discover_lxc_addresses w node vmid =
     chain (on_error (Context ''read runtime LXC interfaces'' \<circ> Api) (list_lxc_interfaces (w_server w) node vmid))
       (\<lambda>interfaces. ret (map_option show_ipv4 (select_lxc_ipv4 interfaces),
                         map_option show_ipv6 (select_lxc_ipv6 interfaces)))"

definition discover_lxc_ip :: "world \<Rightarrow> string \<Rightarrow> nat \<Rightarrow> history \<Rightarrow> (failure, string option) result \<times> history" where
  "discover_lxc_ip w node vmid =
     chain (on_error (Context ''read runtime LXC interfaces'' \<circ> Api) (list_lxc_interfaces (w_server w) node vmid))
       (\<lambda>interfaces. ret (map_option show_ipv4 (select_lxc_ipv4 interfaces)))"

fun ip_loop :: "world \<Rightarrow> string \<Rightarrow> nat \<Rightarrow> nat \<Rightarrow> failure option \<Rightarrow> history \<Rightarrow> (failure, ipv4) result \<times> history" where
  "ip_loop w node vmid polls last_error h =
     (case discover_lxc_ip w node vmid h of
        (Inr (Some address), h') \<Rightarrow>
          (ok_or (Message (''parse discovered IPv4 address '' @ address)) (parse_ipv4 address), h')
      | (r, h') \<Rightarrow>
          let last_error = (case r of Inl e \<Rightarrow> Some e | Inr _ \<Rightarrow> last_error)
          in case polls of
               0 \<Rightarrow> (Inl (case last_error of
                     Some e \<Rightarrow> Because ''could not discover an IPv4 address within 60 seconds: '' e
                   | None \<Rightarrow> Message (''could not discover an IPv4 address within 60 seconds: ''
                       @ ''PVE returned no usable IPv4 address; check DHCP or static network configuration'')), h')
             | Suc left \<Rightarrow> ip_loop w node vmid left last_error h')"

declare ip_loop.simps [simp del]

definition wait_for_lxc_ip :: "world \<Rightarrow> string \<Rightarrow> nat \<Rightarrow> history \<Rightarrow> (failure, ipv4) result \<times> history" where
  "wait_for_lxc_ip w node vmid h = ip_loop w node vmid (w_polls w h) None h"

section \<open>Waiting only reads\<close>

named_theorems reads_intros \<open>programs that only read\<close>

lemmas [reads_intros] = reads_refl reads_call reads_chain reads_on_error reads_ret

lemma reads_get_task_log: "reads h (snd (get_task_log srv node upid start limit h))"
  by (simp add: get_task_log_def reads_call)

lemma reads_get_task_status: "reads h (snd (get_task_status srv node upid h))"
  by (simp add: get_task_status_def reads_call)

lemma reads_task_error: "reads h (snd (task_error_with_log w node upid message h))"
  using reads_get_task_log[of h "w_server w" node upid 0 TASK_LOG_LIMIT]
  by (auto simp: task_error_with_log_def Let_def split: prod.splits sum.splits)

lemma reads_show_log: "reads h (snd (show_log w node upid status cursor h))"
  using reads_get_task_log[of h "w_server w" node upid cursor 100]
  by (auto simp: show_log_def split: prod.splits sum.splits)

lemma reads_task_ended: "reads h (snd (task_ended w node upid status h))"
  using reads_task_error by (simp add: task_ended_def split: prod.splits) (metis snd_conv)

lemma reads_task_timeout: "reads h (snd (task_timeout w node upid h))"
  using reads_task_error by (simp add: task_timeout_def split: prod.splits) (metis snd_conv)

lemma reads_wait_loop: "reads h (snd (wait_loop w node upid polls failures cursor h))"
proof (induction w node upid polls failures cursor h rule: wait_loop.induct)
  case (1 w node upid polls failures cursor h)
  obtain r h1 where status: "get_task_status (w_server w) node upid h = (r, h1)" by fastforce
  have h1: "reads h h1" using reads_get_task_status[of h "w_server w" node upid] status by simp
  show ?case
  proof (cases r)
    case (Inl e)
    then show ?thesis
      using 1(1)[OF status[symmetric] Inl] status h1
      by (subst wait_loop.simps) (auto intro: reads_trans)
  next
    case (Inr st)
    obtain cursor' h2 where log: "show_log w node upid (ts_status st) cursor h1 = (cursor', h2)" by fastforce
    then have h2: "reads h h2" using h1 reads_show_log by (metis reads_trans snd_conv)
    show ?thesis
      using 1(2)[OF status[symmetric] Inr log[symmetric]] status Inr log h2 reads_task_ended reads_task_timeout
      by (subst wait_loop.simps) (auto intro: reads_trans split: nat.splits)
  qed
qed

lemma reads_wait_for_task [reads_intros]: "reads h (snd (wait_for_task w node upid h))"
  by (simp add: wait_for_task_def reads_wait_loop)

text \<open>A wait that succeeds was told that the task stopped, successfully.\<close>

definition task_done :: "string \<Rightarrow> string \<Rightarrow> history \<Rightarrow> bool" where
  "task_done node upid t \<longleftrightarrow>
     (\<exists>st. (GetTaskStatus node upid, Inr (StatusIs st)) \<in> set t \<and> is_successful st)"

lemma task_done_append [simp]: "task_done node upid (s @ t) \<longleftrightarrow> task_done node upid s \<or> task_done node upid t"
  by (auto simp: task_done_def)

lemma get_task_status_Inr:
  "get_task_status srv node upid h = (Inr st, h1) \<Longrightarrow>
     h1 = h @ [(GetTaskStatus node upid, Inr (StatusIs st))]"
  by (auto simp: get_task_status_def call_eq_Inr)

lemma wait_loop_done:
  "wait_loop w node upid polls failures cursor h = (Inr (), h') \<Longrightarrow> \<exists>t. h' = h @ t \<and> task_done node upid t"
proof (induction w node upid polls failures cursor h rule: wait_loop.induct)
  case (1 w node upid polls failures cursor h)
  obtain r h1 where status: "get_task_status (w_server w) node upid h = (r, h1)" by fastforce
  have h1: "\<exists>t. h1 = h @ t" using reads_get_task_status[of h "w_server w" node upid] status
    by (auto simp: reads_def)
  show ?case
  proof (cases r)
    case (Inl e)
    then have "transient e \<and> failures < 3" "wait_loop w node upid polls (Suc failures) cursor h1 = (Inr (), h')"
      using 1(3) status by (auto simp: wait_loop.simps[of w node upid polls failures] split: if_splits)
    from 1(1)[OF status[symmetric] Inl this] h1 show ?thesis by auto
  next
    case (Inr st)
    obtain cursor' h2 where log: "show_log w node upid (ts_status st) cursor h1 = (cursor', h2)" by fastforce
    then have h2: "\<exists>t. h2 = h1 @ t" using reads_show_log[of h1 w node upid "ts_status st" cursor] by (auto simp: reads_def)
    show ?thesis
    proof (cases "ts_status st = ''stopped''")
      case True
      then have "is_successful st" "h' = h2"
        using 1(3) status log Inr
        by (auto simp: wait_loop.simps[of w node upid polls failures] task_ended_def split: if_splits prod.splits)
      then show ?thesis
        using get_task_status_Inr[OF status[unfolded Inr]] h2 by (auto simp: task_done_def)
    next
      case False
      then obtain left where left: "polls = Suc left" "wait_loop w node upid left 0 cursor' h2 = (Inr (), h')"
        using 1(3) status log Inr
        by (auto simp: wait_loop.simps[of w node upid polls failures] task_timeout_def split: nat.splits prod.splits)
      from 1(2)[OF status[symmetric] Inr log[symmetric] False left] h1 h2
      show ?thesis by auto
    qed
  qed
qed

lemma wait_for_task_done:
  "wait_for_task w node upid h = (Inr (), h') \<Longrightarrow> \<exists>t. h' = h @ t \<and> changes t = [] \<and> task_done node upid t"
  using wait_loop_done[of w node upid "w_polls w h" 0 0 h h'] reads_wait_for_task[of h w node upid]
  by (auto simp: wait_for_task_def reads_def)

end
