(* ===== verification/Lifecycle.thy ===== *)
theory Lifecycle
  imports Tasks
begin

text \<open>
  The life of a box after its creation (\<open>crates/pbox-cli/src/main.rs\<close>): finding boxes
  in the cluster, starting, stopping, restarting and deleting them, and snapshots. Each
  operation is a program over the PVE calls of \<open>PveCalls\<close>; what only prints is left out.
\<close>

section \<open>Boxes\<close>

record box_record =
  bx_image :: "string option"
  bx_id :: string
  bx_vmid :: nat
  bx_state :: string
  bx_node :: string
  bx_ip :: "string option"
  bx_ipv6 :: "string option"
  bx_name :: "string option"
  bx_recipes :: "recipe_provenance list"
  bx_capabilities :: "string list"

definition lifecycle_state :: "string \<Rightarrow> string option \<Rightarrow> bool \<Rightarrow> string" where
  "lifecycle_state state lock deleting =
     (if deleting \<or> lock = Some ''destroyed'' then ''deleting'' else state)"

text \<open>The VMID a task is about is the seventh field of its UPID.\<close>

definition task_is_for :: "nat \<Rightarrow> string \<Rightarrow> bool" where
  "task_is_for vmid upid \<longleftrightarrow>
     (let fields = split_char CHR '':'' upid in 6 < length fields \<and> fields ! 6 = show_nat vmid)"

text \<open>The delete tasks of a node are read once and remembered.\<close>

definition delete_tasks ::
  "world \<Rightarrow> string \<Rightarrow> (string \<times> string list) list \<Rightarrow> history \<Rightarrow> (string list \<times> (string \<times> string list) list) \<times> history"
where
  "delete_tasks w node known h =
     (case map_of known node of
        Some tasks \<Rightarrow> ((tasks, known), h)
      | None \<Rightarrow>
          (case active_delete_tasks (w_server w) node h of
             (r, h') \<Rightarrow> let tasks = (case r of Inr ts \<Rightarrow> ts | Inl _ \<Rightarrow> [])
                        in ((tasks, (node, tasks) # known), h')))"

text \<open>Whether a container is the box its notes name: not a copy of another one.\<close>

definition metadata_fits :: "pbox_metadata \<Rightarrow> string \<Rightarrow> nat \<Rightarrow> bool" where
  "metadata_fits m node vmid \<longleftrightarrow> pm_vmid m = vmid \<and> (case pm_node m of Some n \<Rightarrow> n = node | None \<Rightarrow> True)"

definition box_of ::
  "world \<Rightarrow> pbox_metadata \<Rightarrow> string \<Rightarrow> nat \<Rightarrow> string \<Rightarrow> string option
     \<Rightarrow> history \<Rightarrow> (failure, box_record) result \<times> history" where
  "box_of w m node vmid state name =
     chain (if state = ''running''
            then with_context (''discover addresses for box '' @ pm_id m) (discover_lxc_addresses w node vmid)
            else ret (None, None))
       (\<lambda>(ip, ipv6). ret \<lparr>bx_image = pm_image m, bx_id = pm_id m, bx_vmid = vmid, bx_state = state,
          bx_node = node, bx_ip = ip, bx_ipv6 = ipv6, bx_name = name, bx_recipes = pm_recipes m,
          bx_capabilities = pm_capabilities m\<rparr>)"

text \<open>The loop over the cluster's resources.\<close>

fun discover_loop ::
  "meta_codec \<Rightarrow> world \<Rightarrow> (string \<times> string list) list \<Rightarrow> cluster_resource list
     \<Rightarrow> history \<Rightarrow> (failure, box_record list) result \<times> history" where
  "discover_loop codec w known [] h = (Inr [], h)"
| "discover_loop codec w known (r # rs) h =
     (case (rs_type r = ''lxc'', rs_node r, rs_vmid r) of
        (True, Some node, Some vmid) \<Rightarrow>
          (case with_context (''read metadata for PVE container on '' @ node)
                  (on_error Api (get_lxc_config (w_server w) node vmid)) h of
             (Inl e, h1) \<Rightarrow> (Inl e, h1)
           | (Inr config, h1) \<Rightarrow>
               (case lc_description config of
                  None \<Rightarrow> discover_loop codec w known rs h1
                | Some description \<Rightarrow>
                    (case parse_metadata codec description of
                       Inl e \<Rightarrow> (Inl (Context ''parse pbox metadata'' (Meta e)), h1)
                     | Inr None \<Rightarrow> discover_loop codec w known rs h1
                     | Inr (Some m) \<Rightarrow>
                         if \<not> metadata_fits m node vmid then discover_loop codec w known rs h1
                         else case delete_tasks w node known h1 of
                             ((tasks, known), h2) \<Rightarrow>
                               let state = lifecycle_state (case rs_status r of Some s \<Rightarrow> s | None \<Rightarrow> ''unknown'')
                                     (lc_lock config) (list_ex (task_is_for vmid) tasks);
                                   name = (case lc_hostname config of Some n \<Rightarrow> Some n | None \<Rightarrow> rs_name r)
                               in chain (box_of w m node vmid state name)
                                    (\<lambda>box. chain (discover_loop codec w known rs) (\<lambda>boxes. ret (box # boxes))) h2)))
      | _ \<Rightarrow> discover_loop codec w known rs h)"

text \<open>Two boxes with one identifier are an error.\<close>

fun first_duplicate :: "box_record list \<Rightarrow> (box_record \<times> box_record) option" where
  "first_duplicate (a # b # boxes) =
     (if bx_id a = bx_id b then Some (a, b) else first_duplicate (b # boxes))"
| "first_duplicate _ = None"

definition duplicate_error :: "box_record \<Rightarrow> box_record \<Rightarrow> failure" where
  "duplicate_error a b =
     Message (''duplicate pbox id '' @ bx_id a @ '' in PVE metadata for node '' @ bx_node a @ '' VMID ''
       @ show_nat (bx_vmid a) @ '' and node '' @ bx_node b @ '' VMID '' @ show_nat (bx_vmid b))"

definition discover_boxes :: "meta_codec \<Rightarrow> world \<Rightarrow> history \<Rightarrow> (failure, box_record list) result \<times> history" where
  "discover_boxes codec w =
     chain (with_context ''list PVE resources'' (on_error Api (list_cluster_resources (w_server w))))
       (\<lambda>resources. chain (discover_loop codec w [] resources)
         (\<lambda>boxes. let boxes = sort_key bx_id boxes
                  in case first_duplicate boxes of
                       Some (a, b) \<Rightarrow> fail (duplicate_error a b)
                     | None \<Rightarrow> ret boxes))"

section \<open>Choosing a box\<close>

definition is_current_box_reference :: "string \<Rightarrow> bool" where
  "is_current_box_reference value \<longleftrightarrow> lowercase value = ''current''"

definition join_ids :: "box_record list \<Rightarrow> string" where
  "join_ids boxes = (case map bx_id boxes of [] \<Rightarrow> [] | i # is \<Rightarrow> i @ concat (map (\<lambda>j. '', '' @ j) is))"

definition select_box_reference :: "box_record list \<Rightarrow> string \<Rightarrow> (failure, box_record) result" where
  "select_box_reference boxes reference =
     (case filter (\<lambda>b. is_current_box_reference reference
                \<or> (case parse_id reference of
                     Inr box_id \<Rightarrow> bx_id b = box_id
                   | Inl _ \<Rightarrow> bx_name b = Some reference)) boxes of
        [] \<Rightarrow> Inl (Message (''box '' @ [CHR 0x27] @ reference @ [CHR 0x27] @ '' was not found; use `pbox list`''))
      | [b] \<Rightarrow> Inr b
      | matches \<Rightarrow> Inl (Message (''box reference '' @ [CHR 0x27] @ reference @ [CHR 0x27]
            @ '' is ambiguous; use an explicit ID: '' @ join_ids matches)))"

definition find_box :: "meta_codec \<Rightarrow> world \<Rightarrow> string \<Rightarrow> history \<Rightarrow> (failure, box_record) result \<times> history" where
  "find_box codec w reference =
     chain (discover_boxes codec w) (\<lambda>boxes. pure (select_box_reference boxes reference))"

text \<open>\<open>generate_unique_id\<close>: \<open>draws i\<close> is the identifier of the \<open>i\<close>th attempt.\<close>

fun first_fresh :: "string list \<Rightarrow> box_record list \<Rightarrow> (failure, string) result" where
  "first_fresh [] existing = Inl (Message ''could not allocate a unique pbox identifier'')"
| "first_fresh (box_id # ids) existing =
     (if list_all (\<lambda>b. bx_id b \<noteq> box_id) existing then Inr box_id else first_fresh ids existing)"

definition generate_unique_id :: "(nat \<Rightarrow> string) \<Rightarrow> box_record list \<Rightarrow> (failure, string) result" where
  "generate_unique_id draws existing = first_fresh (map draws [0..<16]) existing"

section \<open>What is found\<close>

text \<open>The conversation in which a box was found: its notes were read, and they name it.\<close>

definition attested :: "meta_codec \<Rightarrow> history \<Rightarrow> box_record \<Rightarrow> bool" where
  "attested codec t b \<longleftrightarrow>
     (\<exists>config description m.
        (GetLxcConfig (bx_node b) (bx_vmid b), Inr (ConfigIs config)) \<in> set t
        \<and> lc_description config = Some description \<and> parse_metadata codec description = Inr (Some m)
        \<and> pm_id m = bx_id b \<and> metadata_fits m (bx_node b) (bx_vmid b))"

lemma attested_mono: "attested codec t b \<Longrightarrow> set t \<subseteq> set u \<Longrightarrow> attested codec u b"
  unfolding attested_def by (meson subsetD)

lemma reads_delete_tasks: "delete_tasks w node known h = (x, h') \<Longrightarrow> reads h h'"
  using reads_call[of "ActiveDeleteTasks node" h as_task_list "w_server w"]
  by (auto simp: delete_tasks_def active_delete_tasks_def Let_def split: option.splits prod.splits)

lemma reads_discover_lxc_addresses: "reads h (snd (discover_lxc_addresses w node vmid h))"
  unfolding discover_lxc_addresses_def list_lxc_interfaces_def
  by (intro reads_chain reads_on_error reads_call) (simp_all add: ret_def)

lemma box_of_Inr:
  assumes "box_of w m node vmid state name h = (Inr b, h')"
  shows "reads h h'" "bx_id b = pm_id m" "bx_vmid b = vmid" "bx_node b = node" "bx_state b = state" "bx_name b = name"
proof -
  obtain ip ipv6 where b: "b = \<lparr>bx_image = pm_image m, bx_id = pm_id m, bx_vmid = vmid, bx_state = state,
      bx_node = node, bx_ip = ip, bx_ipv6 = ipv6, bx_name = name, bx_recipes = pm_recipes m,
      bx_capabilities = pm_capabilities m\<rparr>"
    using assms by (auto simp: box_of_def chain_Inr ret_def split: if_splits prod.splits)
  then show "bx_id b = pm_id m" "bx_vmid b = vmid" "bx_node b = node" "bx_state b = state" "bx_name b = name" by simp_all
  show "reads h h'"
    using assms reads_discover_lxc_addresses[of h w node vmid]
    by (auto simp: box_of_def chain_Inr ret_def on_error_Inr split: if_splits prod.splits)
qed

lemma discover_loop_attested:
  assumes "discover_loop codec w known rs h = (Inr boxes, h')"
  shows "\<exists>t. h' = h @ t \<and> changes t = [] \<and> (\<forall>b \<in> set boxes. attested codec t b)"
  using assms
proof (induction rs arbitrary: known h boxes h')
  case Nil
  then show ?case by simp
next
  case (Cons r rs)
  show ?case
  proof (cases "rs_type r = ''lxc'' \<and> rs_node r \<noteq> None \<and> rs_vmid r \<noteq> None")
    case False
    then have "discover_loop codec w known rs h = (Inr boxes, h')"
      using Cons.prems by (auto split: option.splits bool.splits)
    then show ?thesis by (rule Cons.IH)
  next
    case True
    then obtain node vmid where r: "rs_type r = ''lxc''" "rs_node r = Some node" "rs_vmid r = Some vmid" by blast
    obtain rc h1 where rc: "get_lxc_config (w_server w) node vmid h = (rc, h1)" by fastforce
    moreover obtain config where "rc = Inr config"
      using Cons.prems r rc by (cases rc) (simp_all add: on_error_def)
    ultimately have cfg: "get_lxc_config (w_server w) node vmid h = (Inr config, h1)" by simp
    then have h1: "h1 = h @ [(GetLxcConfig node vmid, Inr (ConfigIs config))]"
      by (auto simp: get_lxc_config_def call_eq_Inr)
    have found: "on_error (Context ctx) (on_error Api (get_lxc_config (w_server w) node vmid)) h = (Inr config, h1)" for ctx
      using cfg by (simp add: on_error_Inr)
    show ?thesis
    proof (cases "discover_loop codec w known rs h1 = (Inr boxes, h')")
      case True
      from Cons.IH[OF this] obtain t where "h' = h1 @ t" "changes t = []" "\<forall>b \<in> set boxes. attested codec t b" by blast
      then show ?thesis
        using h1 by (intro exI[of _ "(GetLxcConfig node vmid, Inr (ConfigIs config)) # t"])
          (auto elim!: attested_mono)
    next
      case False
      then obtain description m where m: "lc_description config = Some description"
          "parse_metadata codec description = Inr (Some m)" "metadata_fits m node vmid"
        using Cons.prems r found by (auto split: option.splits sum.splits if_splits)
      obtain tasks known' h2 where tasks: "delete_tasks w node known h1 = ((tasks, known'), h2)" by (metis surj_pair)
      obtain state name b h3 more where b: "box_of w m node vmid state name h2 = (Inr b, h3)"
          "discover_loop codec w known' rs h3 = (Inr more, h')" "boxes = b # more"
        using Cons.prems r found m tasks by (auto simp: chain_Inr ret_def)
      obtain t2 t3 where t: "h2 = h1 @ t2" "changes t2 = []" "h3 = h2 @ t3" "changes t3 = []"
        using reads_delete_tasks[OF tasks] box_of_Inr(1)[OF b(1)] by (auto simp: reads_def)
      obtain t4 where t4: "h' = h3 @ t4" "changes t4 = []" "\<forall>b \<in> set more. attested codec t4 b"
        using Cons.IH[OF b(2)] by blast
      have "attested codec [(GetLxcConfig node vmid, Inr (ConfigIs config))] b"
        using m box_of_Inr[OF b(1)] by (auto simp: attested_def)
      then show ?thesis
        using h1 t t4 b(3)
        by (intro exI[of _ "[(GetLxcConfig node vmid, Inr (ConfigIs config))] @ t2 @ t3 @ t4"])
          (auto elim!: attested_mono)
    qed
  qed
qed

lemma sorted_no_duplicate:
  "sorted (map bx_id boxes) \<Longrightarrow> first_duplicate boxes = None \<Longrightarrow> distinct (map bx_id boxes)"
proof (induction boxes rule: first_duplicate.induct)
  case (1 a b boxes)
  then have "bx_id a < bx_id b" by (auto simp: order_le_less split: if_splits)
  moreover have "\<forall>c \<in> set boxes. bx_id b \<le> bx_id c" using 1 by auto
  ultimately have "bx_id a \<notin> bx_id ` set (b # boxes)" by fastforce
  with 1 show ?case by (auto split: if_splits)
qed simp_all

lemma discover_boxes_Inr:
  assumes "discover_boxes codec w h = (Inr boxes, h')"
  shows "\<exists>t. h' = h @ t \<and> changes t = [] \<and> (\<forall>b \<in> set boxes. attested codec t b)"
    and "sorted (map bx_id boxes)" and "distinct (map bx_id boxes)"
proof -
  obtain rs h1 fs h2 where fs: "list_cluster_resources (w_server w) h = (Inr rs, h1)"
      "discover_loop codec w [] rs h1 = (Inr fs, h2)"
      "(case first_duplicate (sort_key bx_id fs) of Some (a, b) \<Rightarrow> fail (duplicate_error a b)
        | None \<Rightarrow> ret (sort_key bx_id fs)) h2 = (Inr boxes, h')"
    using assms by (auto simp: discover_boxes_def chain_Inr on_error_Inr Let_def)
  then have found: "list_cluster_resources (w_server w) h = (Inr rs, h1)"
      "discover_loop codec w [] rs h1 = (Inr fs, h')" "boxes = sort_key bx_id fs" "first_duplicate boxes = None"
    by (cases "first_duplicate (sort_key bx_id fs)"; auto simp: program_defs)+
  obtain t where "h' = h1 @ t" "changes t = []" "\<forall>b \<in> set fs. attested codec t b"
    using discover_loop_attested[OF found(2)] by blast
  moreover have "h1 = h @ [(ListClusterResources, Inr (Resources rs))]"
    using found(1) by (auto simp: list_cluster_resources_def call_eq_Inr)
  ultimately show "\<exists>t. h' = h @ t \<and> changes t = [] \<and> (\<forall>b \<in> set boxes. attested codec t b)"
    using found(3) by (intro exI[of _ "(ListClusterResources, Inr (Resources rs)) # t"]) (auto elim!: attested_mono)
  show "sorted (map bx_id boxes)" using found(3) by simp
  then show "distinct (map bx_id boxes)" using found(4) by (rule sorted_no_duplicate)
qed

text \<open>What a reference stands for among the boxes of a cluster.\<close>

definition refers :: "string \<Rightarrow> box_record \<Rightarrow> bool" where
  "refers reference b \<longleftrightarrow>
     is_current_box_reference reference
     \<or> (case parse_id reference of Inr box_id \<Rightarrow> bx_id b = box_id | Inl _ \<Rightarrow> bx_name b = Some reference)"

lemma select_box_reference_Inr:
  "select_box_reference boxes reference = Inr b \<longleftrightarrow> filter (refers reference) boxes = [b]"
  by (auto simp: select_box_reference_def refers_def[abs_def] split: list.splits)

text \<open>
  C26: A box that a reference resolves to was found in the cluster by reading only; its
  container's notes hold a pbox record with its identifier and with the VMID and node it was
  found at, so a copy of a box never stands for it; and among the boxes found, whose
  identifiers are all different, it is the only one the reference stands for.
\<close>

theorem find_box_attested:
  assumes "find_box codec w reference h = (Inr b, h')"
  shows "\<exists>t boxes. h' = h @ t \<and> changes t = [] \<and> attested codec t b
     \<and> discover_boxes codec w h = (Inr boxes, h') \<and> distinct (map bx_id boxes)
     \<and> b \<in> set boxes \<and> (\<forall>c \<in> set boxes. refers reference c \<longleftrightarrow> c = b)"
proof -
  obtain boxes where boxes: "discover_boxes codec w h = (Inr boxes, h')" "filter (refers reference) boxes = [b]"
    using assms by (auto simp: find_box_def chain_Inr pure_def select_box_reference_Inr)
  have "b \<in> set boxes" "\<And>c. c \<in> set boxes \<Longrightarrow> refers reference c \<longleftrightarrow> c = b"
    using arg_cong[OF boxes(2), of set] by auto
  with discover_boxes_Inr[OF boxes(1)] boxes(1) show ?thesis by blast
qed

text \<open>A cluster with a box, a copy of it and a container that is not pbox's.\<close>

definition example_cluster :: server where
  "example_cluster h c =
     (case c of
        ListClusterResources \<Rightarrow> Inr (Resources (map (\<lambda>vmid.
          \<lparr>rs_type = ''lxc'', rs_vmid = Some vmid, rs_node = Some ''n'', rs_status = Some ''stopped'', rs_name = None\<rparr>)
          [5, 6, 7]))
      | GetLxcConfig node vmid \<Rightarrow> Inr (ConfigIs \<lparr>lc_digest = None, lc_description =
            (if vmid = 7 then Some ''notes''
             else Some (marker_of ''x'')), lc_hostname = Some ''dev'', lc_lock = None, lc_extra = []\<rparr>)
      | ActiveDeleteTasks node \<Rightarrow> Inr (TaskList [])
      | _ \<Rightarrow> Inl (Unsupported []))"

definition example_notes :: meta_codec where
  "example_notes =
     \<lparr>to_json = (\<lambda>_. Some ''x''), from_json = (\<lambda>_. Some (metadata_new ''pbx_00000000'' 5)),
      b64_encode = (\<lambda>s. s), b64_decode = Some\<rparr>"

definition quiet_world :: "server \<Rightarrow> world" where
  "quiet_world srv = \<lparr>w_server = srv, w_polls = (\<lambda>_. 0), w_verbose = False, w_log_due = (\<lambda>_. False)\<rparr>"

lemma example_find_run:
  "case find_box example_notes (quiet_world example_cluster) ''dev'' [] of
     (Inr b, h') \<Rightarrow> bx_vmid b = 5 \<and> bx_id b = ''pbx_00000000'' | _ \<Rightarrow> False"
  by code_simp

theorem find_box_attested_witness:
  "\<exists>b h' t. find_box example_notes (quiet_world example_cluster) ''dev'' [] = (Inr b, h') \<and> bx_vmid b = 5
     \<and> h' = t \<and> changes t = [] \<and> attested example_notes t b"
proof -
  obtain b h' where run: "find_box example_notes (quiet_world example_cluster) ''dev'' [] = (Inr b, h')" "bx_vmid b = 5"
    using example_find_run by (auto split: prod.splits sum.splits)
  from find_box_attested[OF run(1)] run show ?thesis by auto
qed

end
