(* ===== verification/BoxOperations.thy ===== *)
theory BoxOperations
  imports Lifecycle
begin

text \<open>
  Starting, stopping, restarting, deleting and snapshotting a box
  (\<open>crates/pbox-cli/src/main.rs\<close>), and what the order of their calls guarantees.
\<close>

section \<open>Starting and stopping\<close>

text \<open>An operation of the server that starts a task, and waiting for that task.\<close>

definition run_task ::
  "world \<Rightarrow> string \<Rightarrow> api_call \<Rightarrow> string \<Rightarrow> string \<Rightarrow> history \<Rightarrow> (failure, unit) result \<times> history" where
  "run_task w node c request_msg wait_msg =
     chain (with_context request_msg (on_error Api (task (w_server w) c)))
       (\<lambda>upid. with_context wait_msg (wait_for_task w node upid))"

definition lxc_state :: "world \<Rightarrow> box_record \<Rightarrow> history \<Rightarrow> (failure, string) result \<times> history" where
  "lxc_state w b = on_error Api (get_lxc_state (w_server w) (bx_node b) (bx_vmid b))"

definition ensure_box_started :: "world \<Rightarrow> box_record \<Rightarrow> history \<Rightarrow> (failure, unit) result \<times> history" where
  "ensure_box_started w b =
     chain (lxc_state w b) (\<lambda>state.
       if state \<noteq> ''running''
       then run_task w (bx_node b) (StatusAction (bx_node b) (bx_vmid b) ''start'')
              (''start box '' @ bx_id b) (''PVE did not finish starting box '' @ bx_id b)
       else ret ())"

definition stop_action :: "bool \<Rightarrow> string" where
  "stop_action force = (if force then ''force stop'' else ''graceful shutdown'')"

definition stop_call :: "bool \<Rightarrow> box_record \<Rightarrow> api_call" where
  "stop_call force b = StatusAction (bx_node b) (bx_vmid b) (if force then ''stop'' else ''shutdown'')"

definition stop_box :: "world \<Rightarrow> box_record \<Rightarrow> bool \<Rightarrow> history \<Rightarrow> (failure, unit) result \<times> history" where
  "stop_box w b force =
     run_task w (bx_node b) (stop_call force b) (stop_action force @ '' box '' @ bx_id b)
       (''PVE did not finish '' @ stop_action force @ '' for box '' @ bx_id b)"

definition stop_for_restart :: "world \<Rightarrow> box_record \<Rightarrow> bool \<Rightarrow> history \<Rightarrow> (failure, unit) result \<times> history" where
  "stop_for_restart w b force h =
     (if force then stop_box w b True h
      else case stop_box w b False h of
          (Inr (), h1) \<Rightarrow> (Inr (), h1)
        | (Inl e, h1) \<Rightarrow>
            if failed_task e \<noteq> None
            then chain (with_context ''check box state after graceful shutdown failed'' (lxc_state w b))
                   (\<lambda>state. if state = ''stopped'' then ret ()
                      else with_context ''force stop after graceful shutdown failed'' (stop_box w b True)) h1
            else (Inl e, h1))"

definition restart_stop_hint :: "string \<Rightarrow> bool \<Rightarrow> string" where
  "restart_stop_hint reference force =
     (if force then ''force stop failed; inspect the PVE task for `'' @ reference @ ''` before retrying''
      else ''graceful shutdown failed; retry with `pbox stop '' @ reference @ '' --force` or `pbox restart ''
           @ reference @ '' --force`'')"

text \<open>\<open>run_restart\<close> up to the point where the box is started.\<close>

definition restart_box :: "world \<Rightarrow> box_record \<Rightarrow> bool \<Rightarrow> history \<Rightarrow> (failure, unit) result \<times> history" where
  "restart_box w b force =
     chain (with_context ''check box state before restarting'' (lxc_state w b)) (\<lambda>state.
     chain (if state \<noteq> ''stopped''
            then chain (with_context (restart_stop_hint (bx_id b) force) (stop_for_restart w b force)) (\<lambda>_.
                 chain (lxc_state w b) (\<lambda>state.
                   if state = ''stopped'' then ret ()
                   else fail (Message (''box '' @ bx_id b @ '' is still running after restart stop; retry with `pbox restart ''
                          @ bx_id b @ '' --force`''))))
            else ret ()) (\<lambda>_.
     ensure_box_started w b))"

text \<open>\<open>run_stop\<close>: the hint repeats how the box was referred to.\<close>

definition run_stop :: "meta_codec \<Rightarrow> world \<Rightarrow> string \<Rightarrow> bool \<Rightarrow> history \<Rightarrow> (failure, box_record) result \<times> history" where
  "run_stop codec w reference force =
     chain (find_box codec w reference) (\<lambda>b.
     chain (with_context (stop_action force @ '' box '' @ bx_id b) (on_error Api (task (w_server w) (stop_call force b)))) (\<lambda>upid.
     chain (with_context (restart_stop_hint reference force)
              (with_context (''PVE did not finish '' @ stop_action force @ '' for box '' @ bx_id b)
                (wait_for_task w (bx_node b) upid))) (\<lambda>_.
     ret (b\<lparr>bx_state := ''stopped'', bx_ip := None, bx_ipv6 := None\<rparr>))))"

section \<open>Deleting\<close>

definition delete_box :: "world \<Rightarrow> box_record \<Rightarrow> history \<Rightarrow> (failure, unit) result \<times> history" where
  "delete_box w b =
     chain (with_context ''check box state before deletion'' (lxc_state w b)) (\<lambda>state.
     chain (if state \<noteq> ''stopped''
            then chain (run_task w (bx_node b) (stop_call False b)
                   (''request shutdown of '' @ bx_id b @ ''; box was not deleted'')
                   (''shutdown failed; box was not deleted. Use `pbox stop '' @ bx_id b
                    @ '' --force` if needed, then retry deletion'')) (\<lambda>_.
                 chain (lxc_state w b) (\<lambda>state.
                   if state = ''stopped'' then ret ()
                   else fail (Message (''box '' @ bx_id b @ '' is still running; it was not deleted''))))
            else ret ()) (\<lambda>_.
     run_task w (bx_node b) (DeleteLxc (bx_node b) (bx_vmid b)) (''delete box '' @ bx_id b)
       (''PVE did not finish deleting box '' @ bx_id b)))"

definition queue_delete :: "world \<Rightarrow> box_record \<Rightarrow> history \<Rightarrow> (failure, string) result \<times> history" where
  "queue_delete w b =
     with_context (''queue deletion of box '' @ bx_id b)
       (on_error Api (task (w_server w) (ForceDeleteLxc (bx_node b) (bx_vmid b))))"

text \<open>
  \<open>run_delete\<close>: \<open>recovery\<close> says that a bootstrap of the box is unfinished;
  \<open>answer\<close> is the user's reply, \<open>None\<close> without a terminal to ask on. The result
  is the queued task, \<open>Deleted\<close> after waiting, or \<open>Kept\<close>.
\<close>

datatype deletion = Queued string | Deleted | Kept

definition confirmed_delete ::
  "meta_codec \<Rightarrow> world \<Rightarrow> box_record \<Rightarrow> bool option \<Rightarrow> history \<Rightarrow> (failure, bool) result \<times> history" where
  "confirmed_delete codec w b answer =
     (case answer of
        None \<Rightarrow> fail (Message (''to permanently delete '' @ bx_id b @ '', run `pbox rm '' @ bx_id b @ '' --yes`''))
      | Some yes \<Rightarrow>
          chain (on_error Api (get_lxc_config (w_server w) (bx_node b) (bx_vmid b))) (\<lambda>config.
          chain (pure (map_err Meta (parse_metadata codec (case lc_description config of Some d \<Rightarrow> d | None \<Rightarrow> [])))) (\<lambda>_.
          ret yes)))"

definition run_delete ::
  "meta_codec \<Rightarrow> world \<Rightarrow> string \<Rightarrow> bool \<Rightarrow> bool \<Rightarrow> bool \<Rightarrow> bool option \<Rightarrow> history
     \<Rightarrow> (failure, deletion) result \<times> history" where
  "run_delete codec w reference confirmed wait recovery answer =
     chain (find_box codec w reference) (\<lambda>b.
     chain (if confirmed then ret True else confirmed_delete codec w b answer) (\<lambda>go_on.
       if \<not> go_on then ret Kept
       else if \<not> (wait \<or> recovery) then chain (queue_delete w b) (\<lambda>upid. ret (Queued upid))
       else chain (delete_box w b) (\<lambda>_. ret Deleted)))"

section \<open>Snapshots\<close>

definition validate_snapshot_arguments :: "string \<Rightarrow> string option \<Rightarrow> (failure, unit) result" where
  "validate_snapshot_arguments name description =
     (if CHR 0x00 \<in> set name then Inl (Message ''snapshot name cannot contain NUL bytes'')
      else if (case description of Some d \<Rightarrow> CHR 0x00 \<in> set d | None \<Rightarrow> False)
      then Inl (Message ''snapshot description cannot contain NUL bytes'')
      else Inr ())"

definition create_box_snapshot ::
  "world \<Rightarrow> box_record \<Rightarrow> string \<Rightarrow> string option \<Rightarrow> history \<Rightarrow> (failure, unit) result \<times> history" where
  "create_box_snapshot w b name description =
     run_task w (bx_node b)
       (CreateLxcSnapshot (bx_node b) (bx_vmid b) \<lparr>sn_snapname = name, sn_description = description\<rparr>)
       (''create snapshot '' @ name @ '' for box '' @ bx_id b)
       (''PVE did not finish creating snapshot '' @ name)"

definition rollback_box_snapshot :: "world \<Rightarrow> box_record \<Rightarrow> string \<Rightarrow> bool \<Rightarrow> history \<Rightarrow> (failure, unit) result \<times> history" where
  "rollback_box_snapshot w b name start =
     run_task w (bx_node b) (RollbackLxcSnapshot (bx_node b) (bx_vmid b) name start)
       (''roll back box '' @ bx_id b @ '' to snapshot '' @ name)
       (''PVE did not finish rolling back snapshot '' @ name)"

definition delete_box_snapshot :: "world \<Rightarrow> box_record \<Rightarrow> string \<Rightarrow> history \<Rightarrow> (failure, unit) result \<times> history" where
  "delete_box_snapshot w b name =
     run_task w (bx_node b) (DeleteLxcSnapshot (bx_node b) (bx_vmid b) name)
       (''delete snapshot '' @ name @ '' from box '' @ bx_id b)
       (''PVE did not finish deleting snapshot '' @ name)"

definition run_snapshot_create ::
  "meta_codec \<Rightarrow> world \<Rightarrow> string \<Rightarrow> string \<Rightarrow> string option \<Rightarrow> history \<Rightarrow> (failure, unit) result \<times> history" where
  "run_snapshot_create codec w reference name description =
     chain (pure (validate_snapshot_arguments name description)) (\<lambda>_.
     chain (find_box codec w reference) (\<lambda>b. create_box_snapshot w b name description))"

definition run_snapshot_rollback ::
  "meta_codec \<Rightarrow> world \<Rightarrow> string \<Rightarrow> string \<Rightarrow> bool \<Rightarrow> bool \<Rightarrow> history \<Rightarrow> (failure, unit) result \<times> history" where
  "run_snapshot_rollback codec w reference name start confirmed =
     (if \<not> confirmed
      then fail (Message ''rolling back a snapshot changes guest state; repeat the command with --yes'')
      else chain (pure (validate_snapshot_arguments name None)) (\<lambda>_.
           chain (find_box codec w reference) (\<lambda>b. rollback_box_snapshot w b name start)))"

definition run_snapshot_delete ::
  "meta_codec \<Rightarrow> world \<Rightarrow> string \<Rightarrow> string \<Rightarrow> bool \<Rightarrow> history \<Rightarrow> (failure, unit) result \<times> history" where
  "run_snapshot_delete codec w reference name confirmed =
     (if \<not> confirmed
      then fail (Message ''deleting a snapshot is permanent; repeat the command with --yes'')
      else chain (pure (validate_snapshot_arguments name None)) (\<lambda>_.
           chain (find_box codec w reference) (\<lambda>b. delete_box_snapshot w b name)))"

section \<open>What one operation asks for\<close>

lemma is_read_status_action [simp]: "\<not> is_read (stop_call force b)"
  by (simp add: stop_call_def)

text \<open>A task is requested by one call; after it come reads, the last ones of them on the task.\<close>

lemma run_taskE:
  assumes "run_task w node c request_msg wait_msg h = (r, h')"
  obtains t where "h' = h @ (c, w_server w h c) # t" "changes t = []"
    and "r = Inr () \<Longrightarrow> \<exists>upid. w_server w h c = Inr (TaskIs upid) \<and> task_done node upid t"
  using assms unfolding run_task_def
proof (cases rule: chainE)
  case (stops e)
  then show ?thesis
    by (auto simp: task_def elim!: on_errorE callE intro: that[of "[]"])
next
  case (goes upid h1)
  then have h1: "h1 = h @ [(c, w_server w h c)]" "w_server w h c = Inr (TaskIs upid)"
    by (auto simp: task_def on_error_Inr call_eq_Inr)
  from goes(2) obtain r0 where r0: "wait_for_task w node upid h1 = (r0, h')" "r = map_err (Context wait_msg) r0"
    by (elim on_errorE)
  obtain t where t: "h' = h1 @ t" "changes t = []"
    using reads_wait_for_task[of h1 w node upid] r0(1) by (auto simp: reads_def)
  have "task_done node upid t" if "r = Inr ()"
    using that r0 t wait_for_task_done[of w node upid h1 h'] by (auto simp: res_simps)
  then show ?thesis using that[of t] h1 t by simp
qed

lemma lxc_stateE:
  assumes "lxc_state w b h = (r, h')"
  obtains (failed) e where "r = Inl e" "h' = h @ [(GetLxcState (bx_node b) (bx_vmid b), w_server w h (GetLxcState (bx_node b) (bx_vmid b)))]"
  | (told) state where "r = Inr state" "h' = h @ [(GetLxcState (bx_node b) (bx_vmid b), Inr (StateIs state))]"
proof -
  obtain r0 where r0: "get_lxc_state (w_server w) (bx_node b) (bx_vmid b) h = (r0, h')" "r = map_err Api r0"
    using assms unfolding lxc_state_def by (elim on_errorE)
  show ?thesis
  proof (cases r0)
    case (Inl e)
    then show ?thesis using r0 failed by (auto simp: get_lxc_state_def elim!: callE)
  next
    case (Inr state)
    then show ?thesis using r0 told by (auto simp: get_lxc_state_def call_eq_Inr)
  qed
qed

section \<open>Deleting only what has stopped\<close>

text \<open>
  The part of a conversation that begins by destroying the box, or nothing; before it the
  box may be asked to shut down.
\<close>

abbreviation (input) state_call :: "box_record \<Rightarrow> api_call" where
  "state_call b \<equiv> GetLxcState (bx_node b) (bx_vmid b)"

abbreviation (input) destroy_call :: "box_record \<Rightarrow> api_call" where
  "destroy_call b \<equiv> DeleteLxc (bx_node b) (bx_vmid b)"

definition stops_then :: "box_record \<Rightarrow> history \<Rightarrow> bool" where
  "stops_then b t \<longleftrightarrow>
     (\<exists>t0. t = t0 @ [(state_call b, Inr (StateIs ''stopped''))]
        \<and> (changes t0 = [] \<or> changes t0 = [stop_call False b]))"

text \<open>The first half of \<open>delete_box\<close>: whatever happens, the box was at most asked to shut down.\<close>

definition stop_before_delete :: "world \<Rightarrow> box_record \<Rightarrow> history \<Rightarrow> (failure, unit) result \<times> history" where
  "stop_before_delete w b =
     chain (with_context ''check box state before deletion'' (lxc_state w b)) (\<lambda>state.
       if state \<noteq> ''stopped''
       then chain (run_task w (bx_node b) (stop_call False b)
              (''request shutdown of '' @ bx_id b @ ''; box was not deleted'')
              (''shutdown failed; box was not deleted. Use `pbox stop '' @ bx_id b
               @ '' --force` if needed, then retry deletion'')) (\<lambda>_.
            chain (lxc_state w b) (\<lambda>state.
              if state = ''stopped'' then ret ()
              else fail (Message (''box '' @ bx_id b @ '' is still running; it was not deleted''))))
       else ret ())"

lemma chain_assoc: "chain (chain m f) g = chain m (\<lambda>a. chain (f a) g)"
  by (auto simp: chain_def fun_eq_iff split: prod.splits sum.splits)

lemma delete_box_split:
  "delete_box w b = chain (stop_before_delete w b) (\<lambda>_.
     run_task w (bx_node b) (destroy_call b) (''delete box '' @ bx_id b)
       (''PVE did not finish deleting box '' @ bx_id b))"
  by (simp add: delete_box_def stop_before_delete_def chain_assoc)

lemma stop_before_delete_spec:
  assumes "stop_before_delete w b h = (r, h')"
  obtains t where "h' = h @ t" "changes t \<in> {[], [stop_call False b]}" "r = Inr () \<Longrightarrow> stops_then b t"
  using assms unfolding stop_before_delete_def
proof (cases rule: chainE)
  case (stops e)
  then show ?thesis
    by (auto elim!: on_errorE lxc_stateE intro: that)
next
  case (goes state h1)
  then have h1: "h1 = h @ [(state_call b, Inr (StateIs state))]"
    by (auto simp: on_error_Inr elim!: lxc_stateE)
  show ?thesis
  proof (cases "state = ''stopped''")
    case True
    then have "r = Inr ()" "h' = h1" using goes(2) by (simp_all add: ret_def)
    then show ?thesis using h1 True by (auto simp: stops_then_def intro: that)
  next
    case False
    from goes(2) False have "chain (run_task w (bx_node b) (stop_call False b)
        (''request shutdown of '' @ bx_id b @ ''; box was not deleted'')
        (''shutdown failed; box was not deleted. Use `pbox stop '' @ bx_id b
         @ '' --force` if needed, then retry deletion'')) (\<lambda>_.
        chain (lxc_state w b) (\<lambda>state.
          if state = ''stopped'' then ret ()
          else fail (Message (''box '' @ bx_id b @ '' is still running; it was not deleted'')))) h1 = (r, h')"
      by simp
    then show ?thesis
    proof (cases rule: chainE)
      case (stops e)
      then show ?thesis using h1 by (elim run_taskE) (auto intro: that)
    next
      case (goes u h2)
      from goes(1) obtain t where t: "h2 = h1 @ (stop_call False b, w_server w h1 (stop_call False b)) # t" "changes t = []"
        by (elim run_taskE)
      from goes(2) show ?thesis
      proof (cases rule: chainE)
        case (stops e)
        then show ?thesis using h1 t by (auto elim!: lxc_stateE intro: that)
      next
        case (goes state' h3)
        then have "h3 = h2 @ [(state_call b, Inr (StateIs state'))]" by (auto elim!: lxc_stateE)
        moreover have "h' = h3" "r = Inr () \<Longrightarrow> state' = ''stopped''"
          using goes(2) by (auto simp: program_defs split: if_splits)
        ultimately show ?thesis using h1 t by (auto simp: stops_then_def intro!: that)
      qed
    qed
  qed
qed

text \<open>
  C27: Whatever the server answers, \<open>delete_box\<close> changes nothing but by asking this box to
  shut down and by destroying it, each at most once and in this order; it destroys the box
  only right after PVE reported it stopped, and it reports success only after PVE reported the
  end of the destroying task.
\<close>

theorem delete_only_stopped:
  assumes "delete_box w b h = (r, h')"
  shows "\<exists>t1 t2. h' = h @ t1 @ t2
     \<and> changes t1 \<in> {[], [stop_call False b]}
     \<and> (t2 = [] \<and> r \<noteq> Inr ()
        \<or> stops_then b t1
          \<and> (\<exists>a t3. t2 = (DeleteLxc (bx_node b) (bx_vmid b), a) # t3 \<and> changes t3 = []
               \<and> (r = Inr () \<longrightarrow> (\<exists>upid. a = Inr (TaskIs upid) \<and> task_done (bx_node b) upid t3))))"
  using assms unfolding delete_box_split
proof (cases rule: chainE)
  case (stops e)
  from stops(1) obtain t where "h' = h @ t" "changes t \<in> {[], [stop_call False b]}"
    by (elim stop_before_delete_spec)
  then show ?thesis using stops(2) by (intro exI[of _ t] exI[of _ "[]"]) simp
next
  case (goes u h1)
  from goes(1) obtain t1 where t1: "h1 = h @ t1" "changes t1 \<in> {[], [stop_call False b]}" "stops_then b t1"
    by (elim stop_before_delete_spec) auto
  from goes(2) obtain t3 where t3: "h' = h1 @ (destroy_call b, w_server w h1 (destroy_call b)) # t3" "changes t3 = []"
    "r = Inr () \<Longrightarrow> \<exists>upid. w_server w h1 (destroy_call b) = Inr (TaskIs upid) \<and> task_done (bx_node b) upid t3"
    by (rule run_taskE) blast
  show ?thesis
    by (intro exI[of _ t1] exI[of _ "(destroy_call b, w_server w h1 (destroy_call b)) # t3"]) (use t1 t3 in auto)
qed

text \<open>A box that runs, shuts down when asked, and is destroyed.\<close>

definition example_box :: box_record where
  "example_box = \<lparr>bx_image = None, bx_id = ''pbx_00000000'', bx_vmid = 101, bx_state = ''running'', bx_node = ''n'',
     bx_ip = None, bx_ipv6 = None, bx_name = None, bx_recipes = [], bx_capabilities = []\<rparr>"

text \<open>Every task succeeds; the box is stopped once something was changed.\<close>

definition obliging_server :: server where
  "obliging_server h c =
     (case c of
        GetLxcState node vmid \<Rightarrow> Inr (StateIs (if changes h = [] then ''running'' else ''stopped''))
      | GetTaskStatus node upid \<Rightarrow> Inr (StatusIs \<lparr>ts_status = ''stopped'', ts_exitstatus = Some ''OK''\<rparr>)
      | GetTaskLog node upid start limit \<Rightarrow> Inr (LogIs [])
      | _ \<Rightarrow> if is_read c then Inl (Unsupported []) else Inr (TaskIs ''u''))"

definition obliging_world :: world where
  "obliging_world = quiet_world obliging_server"

lemma example_delete_run:
  "case delete_box obliging_world example_box [] of (r, h') \<Rightarrow>
     r = Inr () \<and> changes h' = [stop_call False example_box, DeleteLxc ''n'' 101]"
  by code_simp

theorem delete_only_stopped_witness:
  "\<exists>h' t1 a t3. delete_box obliging_world example_box [] = (Inr (), h') \<and> stops_then example_box t1
     \<and> h' = t1 @ (DeleteLxc ''n'' 101, a) # t3 \<and> changes t3 = []"
proof -
  obtain h' where run: "delete_box obliging_world example_box [] = (Inr (), h')"
    using example_delete_run by (auto split: prod.splits)
  from delete_only_stopped[OF run] show ?thesis
    using run by (auto simp: example_box_def)
qed

end
