(* ===== verification/Images.thy ===== *)
theory Images
  imports ImageRefs BoxOperations
begin

text \<open>
  Getting an image into the template storage of a node (\<open>crates/pbox-cli/src/images.rs\<close>
  and \<open>wait_for_oci_template_task\<close> of \<open>main.rs\<close>): PVE pulls it, or it is built and
  uploaded from here when PVE cannot. What \<open>podman\<close> and \<open>skopeo\<close> do locally is an
  argument.
\<close>

section \<open>Searching a repository\<close>

definition is_missing_skopeo_error :: "pve_error \<Rightarrow> bool" where
  "is_missing_skopeo_error e =
     (case e of
        Http status message \<Rightarrow>
          let message = lowercase message
          in contains message ''skopeo'' \<and> (contains message ''install'' \<or> contains message ''not found'')
      | _ \<Rightarrow> False)"

definition is_existing_oci_template_message :: "string \<Rightarrow> bool" where
  "is_existing_oci_template_message message \<longleftrightarrow>
     (let message = lowercase message
      in contains message ''refusing to override existing file'' \<or> contains message ''file already exists''
         \<or> contains message ''file exists'')"

definition is_existing_oci_template_error :: "pve_error \<Rightarrow> bool" where
  "is_existing_oci_template_error e =
     (case e of Http status message \<Rightarrow> is_existing_oci_template_message message | _ \<Rightarrow> False)"

fun as_tags :: "answer \<Rightarrow> (string list) option" where
  "as_tags (Tags x) = Some x" | "as_tags _ = None"

definition list_oci_repo_tags where
  "list_oci_repo_tags srv node reference = call as_tags srv (ListOciRepoTags node reference)"

record oci_search_result =
  os_repository :: string
  os_tags :: "string list"

text \<open>\<open>sort\<close>, \<open>dedup\<close> and \<open>truncate\<close>.\<close>

definition limit_tags :: "nat \<Rightarrow> string list \<Rightarrow> string list" where
  "limit_tags limit tags = take limit (remdups_adj (sort tags))"

text \<open>\<open>local_tags\<close> stands for \<open>skopeo list-tags\<close> run here.\<close>

definition search_oci_repository ::
  "server \<Rightarrow> (string \<Rightarrow> (failure, string list) result) \<Rightarrow> string \<Rightarrow> string \<Rightarrow> nat
     \<Rightarrow> history \<Rightarrow> (failure, oci_search_result) result \<times> history" where
  "search_oci_repository srv local_tags node input limit =
     (if is_registry_search input
      then fail (Message (''a registry is not an image repository; use `pbox image search '' @ input
             @ ''` to find images, or `pbox image tags '' @ input @ ''/library/debian`''))
      else chain (pure (map_err Message (parse_reference input))) (\<lambda>reference h.
             case list_oci_repo_tags srv node (repository reference) h of
               (Inr tags, h) \<Rightarrow>
                 (Inr \<lparr>os_repository = repository reference, os_tags = limit_tags limit tags\<rparr>, h)
             | (Inl e, h) \<Rightarrow>
                 if is_missing_skopeo_error e
                 then (and_then (local_tags (repository reference)) (\<lambda>tags.
                         Inr \<lparr>os_repository = repository reference,
                              os_tags = limit_tags limit (limit_tags limit tags)\<rparr>), h)
                 else (Inl (Context (''search OCI repository '' @ repository reference) (Api e)), h)))"

section \<open>Preparing a template\<close>

record oci_template =
  ot_reference :: string
  ot_filename :: string
  ot_volume :: string
  ot_task :: "string option"

definition template_volume :: "string \<Rightarrow> string \<Rightarrow> string" where
  "template_volume storage file = storage @ '':vztmpl/'' @ file"

definition oci_template_present ::
  "server \<Rightarrow> string \<Rightarrow> string \<Rightarrow> string \<Rightarrow> history \<Rightarrow> (failure, bool) result \<times> history" where
  "oci_template_present srv node storage volume =
     chain (with_context (''inspect OCI templates in PVE storage '' @ storage)
              (on_error Api (list_storage_content srv node storage ''vztmpl'')))
       (\<lambda>contents. ret (list_ex (\<lambda>c. sc_volid c = volume) contents))"

definition upload_local_oci_template ::
  "server \<Rightarrow> string \<Rightarrow> string \<Rightarrow> string \<Rightarrow> string \<Rightarrow> string
     \<Rightarrow> history \<Rightarrow> (failure, oci_template) result \<times> history" where
  "upload_local_oci_template srv node storage reference name archive =
     (let volume = template_volume storage (name @ ''.tar.zst'');
          template = \<lparr>ot_reference = reference, ot_filename = name, ot_volume = volume, ot_task = None\<rparr>
      in chain (oci_template_present srv node storage volume) (\<lambda>present.
           if present then ret template
           else chain (with_context (''upload local OCI template '' @ reference @ '' to PVE storage '' @ storage)
                         (on_error Api (task srv (UploadStorageTemplate node storage (name @ ''.tar.zst'') archive))))
                  (\<lambda>upid. ret (template\<lparr>ot_task := Some upid\<rparr>))))"

text \<open>\<open>build\<close> stands for \<open>build_local_oci_archive\<close>: the archive it leaves, or why not.\<close>

definition prepare_local_oci_template ::
  "server \<Rightarrow> (string \<Rightarrow> string \<Rightarrow> (failure, string) result) \<Rightarrow> string \<Rightarrow> string \<Rightarrow> string \<Rightarrow> string
     \<Rightarrow> history \<Rightarrow> (failure, oci_template) result \<times> history" where
  "prepare_local_oci_template srv build node storage reference name =
     chain (pure (build reference name))
       (\<lambda>archive. upload_local_oci_template srv node storage reference name archive)"

text \<open>The pull of a template that is not there; PVE may find that it is, or that it cannot pull.\<close>

definition pull_template ::
  "server \<Rightarrow> (string \<Rightarrow> string \<Rightarrow> (failure, string) result) \<Rightarrow> string \<Rightarrow> string \<Rightarrow> oci_template
     \<Rightarrow> history \<Rightarrow> (failure, oci_template) result \<times> history" where
  "pull_template srv build node storage template h =
     (let failed = (\<lambda>e. Context (''pull OCI image '' @ ot_reference template @ '' into PVE storage '' @ storage) (Api e))
      in case task srv (PullOciRegistry node storage (ot_reference template) (ot_filename template)) h of
           (Inr upid, h1) \<Rightarrow> (Inr (template\<lparr>ot_task := Some upid\<rparr>), h1)
         | (Inl e, h1) \<Rightarrow>
             if is_existing_oci_template_error e
             then chain (oci_template_present srv node storage (ot_volume template))
                    (\<lambda>present. if present then ret template else fail (failed e)) h1
             else if is_missing_skopeo_error e
             then prepare_local_oci_template srv build node storage (ot_reference template) (ot_filename template) h1
             else (Inl (failed e), h1))"

definition prepare_oci_template ::
  "server \<Rightarrow> (string \<Rightarrow> string) \<Rightarrow> (string \<Rightarrow> string \<Rightarrow> (failure, string) result)
     \<Rightarrow> string \<Rightarrow> string \<Rightarrow> string \<Rightarrow> history \<Rightarrow> (failure, oci_template) result \<times> history" where
  "prepare_oci_template srv sha256 build node storage input =
     chain (pure (map_err Message (parse_reference input))) (\<lambda>reference.
       if is_digest reference
       then fail (Message (''PVE OCI registry pull requires a tagged image reference; use ''
              @ repository reference @ '':tag''))
       else let name = filename sha256 reference;
                volume = template_volume storage (name @ ''.tar'');
                template = \<lparr>ot_reference = canonical reference, ot_filename = name, ot_volume = volume, ot_task = None\<rparr>
            in chain (oci_template_present srv node storage volume) (\<lambda>present.
                 if present then ret template else pull_template srv build node storage template))"

text \<open>A failed task is forgiven when the template is there after all.\<close>

definition wait_for_oci_template_task ::
  "world \<Rightarrow> string \<Rightarrow> string \<Rightarrow> string \<Rightarrow> string \<Rightarrow> string \<Rightarrow> history \<Rightarrow> (failure, unit) result \<times> history" where
  "wait_for_oci_template_task w node storage reference volume upid h =
     (case wait_for_task w node upid h of
        (Inr u, h1) \<Rightarrow> (Inr u, h1)
      | (Inl e, h1) \<Rightarrow>
          chain (with_context (''recheck OCI template '' @ volume)
                   (oci_template_present (w_server w) node storage volume))
            (\<lambda>present. if present then ret () else fail (Context (''wait for OCI image '' @ reference) e)) h1)"

text \<open>Both, as a new box needs them: the volume of a template that is there.\<close>

definition provide_oci_template ::
  "world \<Rightarrow> (string \<Rightarrow> string) \<Rightarrow> (string \<Rightarrow> string \<Rightarrow> (failure, string) result)
     \<Rightarrow> string \<Rightarrow> string \<Rightarrow> string \<Rightarrow> history \<Rightarrow> (failure, string) result \<times> history" where
  "provide_oci_template w sha256 build node storage input =
     chain (prepare_oci_template (w_server w) sha256 build node storage input) (\<lambda>prepared.
     chain (case ot_task prepared of
              Some upid \<Rightarrow> wait_for_oci_template_task w node storage (ot_reference prepared) (ot_volume prepared) upid
            | None \<Rightarrow> ret ())
       (\<lambda>_. ret (ot_volume prepared)))"

section \<open>What is there afterwards\<close>

text \<open>The storage listed a volume; a call that makes one.\<close>

definition listed :: "string \<Rightarrow> string \<Rightarrow> string \<Rightarrow> history \<Rightarrow> bool" where
  "listed node storage volume t \<longleftrightarrow>
     (\<exists>contents. (ListStorageContent node storage ''vztmpl'', Inr (Contents contents)) \<in> set t
        \<and> (\<exists>c \<in> set contents. sc_volid c = volume))"

definition makes :: "string \<Rightarrow> string \<Rightarrow> api_call \<Rightarrow> string \<Rightarrow> bool" where
  "makes node storage c volume \<longleftrightarrow>
     (\<exists>reference name. c = PullOciRegistry node storage reference name
        \<and> volume = template_volume storage (name @ ''.tar''))
     \<or> (\<exists>name path. c = UploadStorageTemplate node storage name path \<and> volume = template_volume storage name)"

definition made :: "string \<Rightarrow> string \<Rightarrow> string \<Rightarrow> string \<Rightarrow> history \<Rightarrow> bool" where
  "made node storage volume upid t \<longleftrightarrow> (\<exists>c. makes node storage c volume \<and> (c, Inr (TaskIs upid)) \<in> set t)"

lemma makes_upload: "makes node storage (UploadStorageTemplate node storage name path) (template_volume storage name)"
  by (auto simp: makes_def)

lemma madeI: "makes node storage c v \<Longrightarrow> (c, Inr (TaskIs upid)) \<in> set t \<Longrightarrow> made node storage v upid t"
  by (auto simp: made_def)

lemma listed_append: "listed node storage v s \<or> listed node storage v t \<Longrightarrow> listed node storage v (s @ t)"
  unfolding listed_def by auto

lemma listed_Cons: "listed node storage v t \<Longrightarrow> listed node storage v (x # t)"
  unfolding listed_def by auto

lemma made_append: "made node storage v upid s \<or> made node storage v upid t \<Longrightarrow> made node storage v upid (s @ t)"
  unfolding made_def by auto

abbreviation (input) prepared :: "string \<Rightarrow> string \<Rightarrow> oci_template \<Rightarrow> history \<Rightarrow> bool" where
  "prepared node storage p t \<equiv>
     (case ot_task p of
        None \<Rightarrow> listed node storage (ot_volume p) t
      | Some upid \<Rightarrow> made node storage (ot_volume p) upid t)"

lemma prepared_append: "prepared node storage p t \<Longrightarrow> prepared node storage p (s @ t)"
  by (cases "ot_task p") (auto intro: listed_append made_append)

lemma presentE:
  assumes "oci_template_present srv node storage volume h = (r, h')"
  obtains a where "h' = h @ [(ListStorageContent node storage ''vztmpl'', a)]"
    and "\<And>v. r = Inr v \<Longrightarrow> v \<Longrightarrow> listed node storage volume [(ListStorageContent node storage ''vztmpl'', a)]"
  using assms unfolding oci_template_present_def
proof (cases rule: chainE)
  case (stops e)
  then show ?thesis using that by (auto simp: list_storage_content_def elim!: on_errorE callE)
next
  case (goes contents h1)
  then have "h1 = h @ [(ListStorageContent node storage ''vztmpl'', Inr (Contents contents))]" "h' = h1"
      "r = Inr (list_ex (\<lambda>c. sc_volid c = volume) contents)"
    by (auto simp: list_storage_content_def on_error_Inr call_eq_Inr ret_def)
  then show ?thesis using that[of "Inr (Contents contents)"] by (auto simp: listed_def list_ex_iff)
qed

lemma uploadE:
  assumes "upload_local_oci_template srv node storage reference name archive h = (r, h')"
  obtains t where "h' = h @ t"
    and "changes t \<in> {[], [UploadStorageTemplate node storage (name @ ''.tar.zst'') archive]}"
    and "\<And>p. r = Inr p \<Longrightarrow> prepared node storage p t"
  using assms unfolding upload_local_oci_template_def Let_def
proof (cases rule: chainE)
  case (stops e)
  then show ?thesis by (auto elim!: presentE intro: that)
next
  case (goes present h1)
  from goes(1) obtain a where a: "h1 = h @ [(ListStorageContent node storage ''vztmpl'', a)]"
      "present \<Longrightarrow> listed node storage (template_volume storage (name @ ''.tar.zst''))
         [(ListStorageContent node storage ''vztmpl'', a)]"
    by (rule presentE) blast
  show ?thesis
  proof (cases present)
    case True
    then show ?thesis using goes(2) a by (intro that) (auto simp: ret_def)
  next
    case False
    let ?c = "UploadStorageTemplate node storage (name @ ''.tar.zst'') archive"
    obtain r0 h2 where r0: "task srv ?c h1 = (r0, h2)" by fastforce
    show ?thesis
      using r0
    proof (cases rule: taskE)
      case (refused e)
      then show ?thesis using goes(2) False a r0
        by (intro that[of "[(ListStorageContent node storage ''vztmpl'', a), (?c, srv h1 ?c)]"])
          (auto simp: chain_def on_error_def)
    next
      case (started upid)
      then show ?thesis using goes(2) False a r0
        by (intro that[of "[(ListStorageContent node storage ''vztmpl'', a), (?c, Inr (TaskIs upid))]"])
          (auto simp: chain_def on_error_def ret_def intro!: madeI[OF makes_upload])
    qed
  qed
qed

lemma local_templateE:
  assumes "prepare_local_oci_template srv build node storage reference name h = (r, h')"
  obtains t archive where "h' = h @ t"
    and "changes t \<in> {[], [UploadStorageTemplate node storage (name @ ''.tar.zst'') archive]}"
    and "\<And>p. r = Inr p \<Longrightarrow> prepared node storage p t"
  using assms unfolding prepare_local_oci_template_def
proof (cases rule: chainE)
  case (stops e)
  then show ?thesis by (auto simp: pure_def intro: that[of "[]"])
next
  case (goes archive h1)
  from goes(2) obtain t where "h' = h1 @ t"
      "changes t \<in> {[], [UploadStorageTemplate node storage (name @ ''.tar.zst'') archive]}"
      "\<And>p. r = Inr p \<Longrightarrow> prepared node storage p t"
    by (rule uploadE) blast
  then show ?thesis using goes(1) that by (simp add: pure_def)
qed

text \<open>What a preparation may ask for: one pull, and an upload if that was refused.\<close>

definition template_changes :: "string \<Rightarrow> string \<Rightarrow> string \<Rightarrow> string \<Rightarrow> api_call list \<Rightarrow> bool" where
  "template_changes node storage reference name cs \<longleftrightarrow>
     cs = [] \<or> cs = [PullOciRegistry node storage reference name]
     \<or> (\<exists>archive. cs = [PullOciRegistry node storage reference name,
                       UploadStorageTemplate node storage (name @ ''.tar.zst'') archive])"

text \<open>A second look decides what a failure comes to.\<close>

lemma second_lookE:
  assumes "chain (on_error f (oci_template_present srv node storage volume))
             (\<lambda>present. if present then ret x else fail e) h = (r, h')"
  obtains a where "h' = h @ [(ListStorageContent node storage ''vztmpl'', a)]"
    "\<And>y. r = Inr y \<Longrightarrow> y = x \<and> listed node storage volume [(ListStorageContent node storage ''vztmpl'', a)]"
  using assms
proof (cases rule: chainE)
  case (stops e')
  then obtain r0 where "oci_template_present srv node storage volume h = (r0, h')" by (elim on_errorE)
  then show ?thesis using stops(2) that by (elim presentE) blast
next
  case (goes present h1)
  then have "oci_template_present srv node storage volume h = (Inr present, h1)" by (simp add: on_error_Inr)
  then obtain a where "h1 = h @ [(ListStorageContent node storage ''vztmpl'', a)]"
      "present \<Longrightarrow> listed node storage volume [(ListStorageContent node storage ''vztmpl'', a)]"
    by (rule presentE) blast
  then show ?thesis using goes(2) that[of a] by (cases present) (auto simp: program_defs)
qed

lemma on_error_id: "on_error (\<lambda>e. e) m = m"
  by (auto simp: on_error_def fun_eq_iff map_err_def prod_eq_iff split: sum.splits)

lemma pull_templateE:
  assumes "pull_template srv build node storage template h = (r, h')" and "ot_task template = None"
    and volume: "ot_volume template = template_volume storage (ot_filename template @ ''.tar'')"
  obtains t where "h' = h @ t"
    "template_changes node storage (ot_reference template) (ot_filename template) (changes t)"
    "\<And>p. r = Inr p \<Longrightarrow> prepared node storage p t"
proof -
  let ?pull = "PullOciRegistry node storage (ot_reference template) (ot_filename template)"
  obtain r1 h1 where pull: "task srv ?pull h = (r1, h1)" by fastforce
  then show ?thesis
  proof (cases rule: taskE)
    case (started upid)
    then have "h' = h1" "r = Inr (template\<lparr>ot_task := Some upid\<rparr>)"
      using assms(1) pull by (simp_all add: pull_template_def)
    then show ?thesis using started volume
      by (intro that[of "[(?pull, Inr (TaskIs upid))]"]) (auto simp: template_changes_def made_def makes_def)
  next
    case (refused e)
    consider (existing) "is_existing_oci_template_error e"
      | (skopeo) "\<not> is_existing_oci_template_error e" "is_missing_skopeo_error e"
      | (other) "\<not> is_existing_oci_template_error e" "\<not> is_missing_skopeo_error e" by blast
    then show ?thesis
    proof cases
      case existing
      let ?e = "Context (''pull OCI image '' @ ot_reference template @ '' into PVE storage '' @ storage) (Api e)"
      have "chain (on_error (\<lambda>e. e) (oci_template_present srv node storage (ot_volume template)))
           (\<lambda>present. if present then ret template else fail ?e) h1 = (r, h')"
        using existing assms(1) pull refused by (simp only: pull_template_def Let_def on_error_id) simp
      then obtain a where "h' = h1 @ [(ListStorageContent node storage ''vztmpl'', a)]"
          "\<And>p. r = Inr p \<Longrightarrow> p = template \<and>
             listed node storage (ot_volume template) [(ListStorageContent node storage ''vztmpl'', a)]"
        by (rule second_lookE) blast
      then show ?thesis using refused assms(2)
        by (intro that[of "[(?pull, srv h ?pull)] @ [(ListStorageContent node storage ''vztmpl'', a)]"])
          (auto simp: template_changes_def intro: listed_Cons)
    next
      case skopeo
      then have "prepare_local_oci_template srv build node storage (ot_reference template) (ot_filename template) h1 = (r, h')"
        using assms(1) pull refused by (simp add: pull_template_def)
      then obtain t archive where t: "h' = h1 @ t"
          "changes t \<in> {[], [UploadStorageTemplate node storage (ot_filename template @ ''.tar.zst'') archive]}"
          "\<And>p. r = Inr p \<Longrightarrow> prepared node storage p t"
        by (rule local_templateE) blast
      then show ?thesis using refused
        by (intro that[of "[(?pull, srv h ?pull)] @ t"]) (auto simp: template_changes_def intro: prepared_append)
    next
      case other
      then show ?thesis using assms(1) pull refused
        by (intro that[of "[(?pull, srv h ?pull)]"]) (auto simp: pull_template_def template_changes_def)
    qed
  qed
qed

lemma prepareE:
  assumes "prepare_oci_template srv sha256 build node storage input h = (r, h')"
  obtains (refused) e where "r = Inl e" "h' = h"
  | (asked) reference t where "parse_reference input = Inr reference" "\<not> is_digest reference" "h' = h @ t"
    "template_changes node storage (canonical reference) (filename sha256 reference) (changes t)"
    "\<And>p. r = Inr p \<Longrightarrow> prepared node storage p t"
proof (cases "\<exists>reference. parse_reference input = Inr reference \<and> \<not> is_digest reference")
  case False
  then have "\<exists>e. r = Inl e \<and> h' = h"
    using assms by (cases "parse_reference input") (auto simp: prepare_oci_template_def chain_def program_defs)
  then show ?thesis using refused by blast
next
  case True
  then obtain reference where ref: "parse_reference input = Inr reference" "\<not> is_digest reference" by blast
  let ?name = "filename sha256 reference"
  let ?volume = "template_volume storage (?name @ ''.tar'')"
  let ?template = "\<lparr>ot_reference = canonical reference, ot_filename = ?name, ot_volume = ?volume, ot_task = None\<rparr>"
  have "chain (oci_template_present srv node storage ?volume) (\<lambda>present.
          if present then ret ?template else pull_template srv build node storage ?template) h = (r, h')"
    using assms ref by (simp add: prepare_oci_template_def chain_def[of "pure _"] pure_def Let_def)
  then show ?thesis
  proof (cases rule: chainE)
    case (stops e)
    obtain a where a: "h' = h @ [(ListStorageContent node storage ''vztmpl'', a)]"
      using stops(1) by (rule presentE)
    show ?thesis by (rule asked[OF ref a]) (simp_all add: template_changes_def stops(2))
  next
    case (goes present h1)
    from goes(1) obtain a where a: "h1 = h @ [(ListStorageContent node storage ''vztmpl'', a)]"
        "present \<Longrightarrow> listed node storage ?volume [(ListStorageContent node storage ''vztmpl'', a)]"
      by (rule presentE) blast
    show ?thesis
    proof (cases present)
      case True
      then have "h' = h1" "r = Inr ?template" using goes(2) by (simp_all add: ret_def)
      then show ?thesis using True a
        by (intro asked[OF ref, of "[(ListStorageContent node storage ''vztmpl'', a)]"])
          (auto simp: template_changes_def)
    next
      case False
      then have "pull_template srv build node storage ?template h1 = (r, h')" using goes(2) by simp
      then obtain t where "h' = h1 @ t" "template_changes node storage (canonical reference) ?name (changes t)"
          "\<And>p. r = Inr p \<Longrightarrow> prepared node storage p t"
        by (rule pull_templateE) auto
      then show ?thesis using a
        by (intro asked[OF ref, of "[(ListStorageContent node storage ''vztmpl'', a)] @ t"]) (auto intro: prepared_append)
    qed
  qed
qed

lemma wait_templateE:
  assumes "wait_for_oci_template_task w node storage reference volume upid h = (r, h')"
  obtains t where "h' = h @ t" "changes t = []"
    "r = Inr () \<Longrightarrow> task_done node upid t \<or> listed node storage volume t"
proof -
  obtain r0 h1 where waited: "wait_for_task w node upid h = (r0, h1)" by fastforce
  obtain s where s: "h1 = h @ s" "changes s = []"
    using reads_wait_for_task[of h w node upid] waited by (auto simp: reads_def)
  show ?thesis
  proof (cases r0)
    case (Inr u)
    then have "task_done node upid s" using wait_for_task_done[of w node upid h h1] waited s by auto
    moreover have "h' = h1" using assms waited Inr by (simp add: wait_for_oci_template_task_def)
    ultimately show ?thesis using s by (intro that[of s]) simp_all
  next
    case (Inl e)
    let ?e = "Context (''wait for OCI image '' @ reference) e"
    have "chain (with_context (''recheck OCI template '' @ volume) (oci_template_present (w_server w) node storage volume))
        (\<lambda>present. if present then ret () else fail ?e) h1 = (r, h')"
      using assms waited Inl by (simp only: wait_for_oci_template_task_def) simp
    then obtain a where a: "h' = h1 @ [(ListStorageContent node storage ''vztmpl'', a)]"
        "\<And>y. r = Inr y \<Longrightarrow> y = () \<and> listed node storage volume [(ListStorageContent node storage ''vztmpl'', a)]"
      by (rule second_lookE) blast
    then show ?thesis using a s
      by (intro that[of "s @ [(ListStorageContent node storage ''vztmpl'', a)]"]) (auto intro: listed_append)
  qed
qed

text \<open>
  C31: Providing the template of an image asks PVE for at most one pull, of the canonical
  reference, and for one upload only after that pull; whatever is refused, nothing else is
  changed. When it succeeds, the volume it names was listed in the storage, or made by a
  pull or an upload of that very volume whose task ended successfully.
\<close>

theorem provided_template_is_there:
  assumes "provide_oci_template w sha256 build node storage input h = (r, h')"
  shows "\<exists>t. h' = h @ t
     \<and> (changes t = [] \<or> (\<exists>reference. parse_reference input = Inr reference
          \<and> template_changes node storage (canonical reference) (filename sha256 reference) (changes t)))
     \<and> (\<forall>volume. r = Inr volume \<longrightarrow>
          listed node storage volume t
          \<or> (\<exists>upid. made node storage volume upid t \<and> task_done node upid t))"
  using assms unfolding provide_oci_template_def
proof (cases rule: chainE)
  case (stops e)
  from stops(1) show ?thesis
    by (cases rule: prepareE) (auto simp: stops(2))
next
  case (goes p h1)
  from goes(1) obtain reference t where t: "parse_reference input = Inr reference" "h1 = h @ t"
      "template_changes node storage (canonical reference) (filename sha256 reference) (changes t)"
      "prepared node storage p t"
    by (cases rule: prepareE) auto
  show ?thesis
  proof (cases "ot_task p")
    case None
    then have "h' = h1" "r = Inr (ot_volume p)" using goes(2) by (simp_all add: chain_def ret_def)
    then show ?thesis using t None by (intro exI[of _ t]) auto
  next
    case (Some upid)
    obtain r0 h2 where waited: "wait_for_oci_template_task w node storage (ot_reference p) (ot_volume p) upid h1 = (r0, h2)"
      by fastforce
    then obtain s where s: "h2 = h1 @ s" "changes s = []"
        "r0 = Inr () \<Longrightarrow> task_done node upid s \<or> listed node storage (ot_volume p) s"
      by (rule wait_templateE) blast
    have "h' = h2" "r = Inr v \<Longrightarrow> r0 = Inr () \<and> v = ot_volume p" for v
      using goes(2) Some waited by (auto simp: chain_def ret_def split: sum.splits)
    then show ?thesis using t s Some
      by (intro exI[of _ "t @ s"]) (auto intro: listed_append made_append)
  qed
qed

text \<open>A server that pulls what it is asked for.\<close>

definition pulling_server :: server where
  "pulling_server h c =
     (case c of
        ListStorageContent node storage content \<Rightarrow> Inr (Contents [])
      | PullOciRegistry node storage reference name \<Rightarrow> Inr (TaskIs ''u'')
      | GetTaskStatus node upid \<Rightarrow> Inr (StatusIs \<lparr>ts_status = ''stopped'', ts_exitstatus = Some ''OK''\<rparr>)
      | _ \<Rightarrow> Inl (Unsupported []))"

lemma pulling_run:
  "case provide_oci_template (quiet_world pulling_server) (\<lambda>_. ''f'') (\<lambda>_ _. Inl (Message [])) ''n'' ''local'' ''debian:13'' [] of
     (Inr volume, h') \<Rightarrow> volume = ''local:vztmpl/pbox-oci-f.tar''
       \<and> changes h' = [PullOciRegistry ''n'' ''local'' ''docker.io/library/debian:13'' ''pbox-oci-f'']
   | _ \<Rightarrow> False"
  by code_simp

theorem provided_template_is_there_witness:
  "\<exists>h'. provide_oci_template (quiet_world pulling_server) (\<lambda>_. ''f'') (\<lambda>_ _. Inl (Message [])) ''n'' ''local'' ''debian:13'' []
       = (Inr ''local:vztmpl/pbox-oci-f.tar'', h')
     \<and> (listed ''n'' ''local'' ''local:vztmpl/pbox-oci-f.tar'' h'
        \<or> (\<exists>upid. made ''n'' ''local'' ''local:vztmpl/pbox-oci-f.tar'' upid h' \<and> task_done ''n'' upid h'))"
proof -
  obtain h' where run: "provide_oci_template (quiet_world pulling_server) (\<lambda>_. ''f'') (\<lambda>_ _. Inl (Message []))
      ''n'' ''local'' ''debian:13'' [] = (Inr ''local:vztmpl/pbox-oci-f.tar'', h')"
    using pulling_run by (auto split: prod.splits sum.splits)
  from provided_template_is_there[OF run] run show ?thesis by auto
qed

end
