(* ===== verification/Creation.thy ===== *)
theory Creation
  imports Images Config
begin

text \<open>
  Creating a box (\<open>run_new\<close> and what it calls in \<open>crates/pbox-cli/src/main.rs\<close>):
  choosing a node, storages, a template and resources, and asking PVE for a container until
  one VMID is not taken by somebody else.
\<close>

section \<open>Values of the command line\<close>

record new_command =
  nw_node :: "string option"
  nw_image :: "string option"
  nw_ostemplate :: "string option"
  nw_rootfs :: "string option"
  nw_net0 :: "string option"
  nw_name :: "string option"
  nw_memory :: "nat option"
  nw_swap :: "nat option"
  nw_cores :: "nat option"
  nw_stopped :: bool

record resolved_new =
  rn_ostype :: "string option"
  rn_image :: string
  rn_node :: string
  rn_ostemplate :: string
  rn_rootfs :: string
  rn_net0 :: string
  rn_name :: "string option"
  rn_memory :: nat
  rn_swap :: nat
  rn_cores :: nat
  rn_unprivileged :: bool
  rn_onboot :: bool
  rn_stopped :: bool

definition non_empty_new_value :: "string \<Rightarrow> string \<Rightarrow> (failure, string) result" where
  "non_empty_new_value label value =
     (let value = trim value
      in if value = [] then Inl (Message (label @ '' cannot be empty'')) else Inr value)"

definition positive_new_value :: "string \<Rightarrow> nat \<Rightarrow> (failure, nat) result" where
  "positive_new_value label value =
     (if value = 0 then Inl (Message (label @ '' must be greater than zero'')) else Inr value)"

definition new_volume_override :: "string \<Rightarrow> string \<Rightarrow> (failure, string) result" where
  "new_volume_override label value =
     and_then (non_empty_new_value label value) (\<lambda>value.
     and_then (ok_or (Message (label @ '' must use STORAGE:VALUE syntax'')) (split_once value '':'')) (\<lambda>(storage, volume).
     if storage = [] \<or> volume = [] then Inl (Message (label @ '' must use STORAGE:VALUE syntax''))
     else Inr value))"

text \<open>A text of digits and dots is a number for \<open>f64\<close> with a digit and at most one dot.\<close>

definition is_decimal :: "string \<Rightarrow> bool" where
  "is_decimal s \<longleftrightarrow> list_ex is_digit s \<and> length (filter (\<lambda>c. c = CHR ''.'') s) \<le> 1"

definition normalise_rootfs_size :: "string \<Rightarrow> string" where
  "normalise_rootfs_size value =
     (let value = trim value
      in case strip_suffix value ''G'' of
           None \<Rightarrow> value
         | Some number \<Rightarrow>
             if number \<noteq> [] \<and> list_all (\<lambda>c. is_digit c \<or> c = CHR ''.'') number \<and> is_decimal number
             then number else value)"

definition new_rootfs_override :: "string \<Rightarrow> (failure, string) result" where
  "new_rootfs_override value =
     and_then (new_volume_override ''--rootfs'' value) (\<lambda>value.
     and_then (ok_or (Message ''--rootfs must use STORAGE:VALUE syntax'') (split_once value '':'')) (\<lambda>(storage, number).
     Inr (storage @ '':'' @ normalise_rootfs_size number)))"

section \<open>Storages and templates\<close>

definition rootfs_size_for_storage :: "pve_storage list \<Rightarrow> string \<Rightarrow> string \<Rightarrow> string" where
  "rootfs_size_for_storage storages storage configured =
     (case List.find (\<lambda>s. ps_storage s = storage) storages of
        Some s \<Rightarrow> if ps_type s = Some ''dir'' then ''0'' else normalise_rootfs_size configured
      | None \<Rightarrow> normalise_rootfs_size configured)"

definition storage_supports :: "pve_storage \<Rightarrow> string \<Rightarrow> bool" where
  "storage_supports storage content \<longleftrightarrow>
     ps_active storage = Some 1 \<and> ps_enabled storage = Some 1
     \<and> (case ps_content storage of
          Some available \<Rightarrow> list_ex (\<lambda>candidate. trim candidate = content) (split_char CHR '','' available)
        | None \<Rightarrow> False)"

definition select_pve_storage :: "pve_storage list \<Rightarrow> string \<Rightarrow> string \<Rightarrow> string \<Rightarrow> (failure, string) result" where
  "select_pve_storage storages configured content role =
     (let quoted = [CHR 0x27] @ configured @ [CHR 0x27]
      in if configured \<noteq> ''auto''
         then and_then (ok_or (Message (''PVE storage '' @ quoted @ '' was not found on this node''))
                (List.find (\<lambda>s. ps_storage s = configured) storages)) (\<lambda>storage.
              if \<not> storage_supports storage content
              then Inl (Message (''PVE storage '' @ quoted @ '' cannot store '' @ role
                     @ ''; set the matching pve storage setting''))
              else Inr (ps_storage storage))
         else case sort_key ps_storage (filter (\<lambda>s. storage_supports s content) storages) of
             storage # _ \<Rightarrow> Inr (ps_storage storage)
           | [] \<Rightarrow> Inl (Message (''no active PVE storage on this node supports '' @ role)))"

definition storage_matches_requirement :: "pve_storage list \<Rightarrow> string \<Rightarrow> string \<Rightarrow> bool" where
  "storage_matches_requirement storages configured content \<longleftrightarrow>
     list_ex (\<lambda>s. (configured = ''auto'' \<or> ps_storage s = configured) \<and> storage_supports s content) storages"

text \<open>The first of some endings taken off, or the text itself.\<close>

fun strip_any :: "string \<Rightarrow> string list \<Rightarrow> string" where
  "strip_any s [] = s"
| "strip_any s (e # es) = (case strip_suffix s e of Some t \<Rightarrow> t | None \<Rightarrow> strip_any s es)"

definition template_matches :: "storage_content \<Rightarrow> string \<Rightarrow> bool" where
  "template_matches content wanted \<longleftrightarrow>
     sc_content content = Some ''vztmpl''
     \<and> (let name = lowercase (last (split_char CHR ''/'' (sc_volid content)));
            wanted = lowercase (trim wanted);
            stem = strip_any name [''.tar.zst'', ''.tar.gz'', ''.tar.xz'', ''.tar.bz2'', ''.tar''];
            versionless = hd (split_char CHR ''_'' stem);
            plain = strip_any versionless [''-standard'', ''-default'']
        in wanted \<noteq> [] \<and> plain \<noteq> versionless \<and> (plain = wanted \<or> versionless = wanted))"

definition find_pve_template ::
  "server \<Rightarrow> string \<Rightarrow> string \<Rightarrow> string \<Rightarrow> history \<Rightarrow> (failure, string option) result \<times> history" where
  "find_pve_template srv node storage wanted =
     chain (with_context (''list PVE templates in storage '' @ storage)
              (on_error Api (list_storage_content srv node storage ''vztmpl''))) (\<lambda>contents.
       case filter (\<lambda>c. template_matches c wanted) contents of
         [] \<Rightarrow> ret None
       | [content] \<Rightarrow> ret (Some (sc_volid content))
       | _ \<Rightarrow> fail (Message (''image '' @ [CHR 0x27] @ wanted @ [CHR 0x27]
                @ '' matches multiple PVE templates in storage '' @ [CHR 0x27] @ storage @ [CHR 0x27]
                @ ''; use --ostemplate to select one'')))"

section \<open>Choosing a node\<close>

definition online_nodes :: "pve_node list \<Rightarrow> pve_node list" where
  "online_nodes nodes = sort_key pn_node (filter (\<lambda>n. pn_status n = Some ''online'') nodes)"

definition discover_nodes :: "server \<Rightarrow> history \<Rightarrow> (failure, pve_node list) result \<times> history" where
  "discover_nodes srv =
     chain (with_context ''discover PVE nodes'' (on_error Api (list_nodes srv))) (\<lambda>nodes. ret (online_nodes nodes))"

definition node_storages :: "server \<Rightarrow> string \<Rightarrow> history \<Rightarrow> (failure, pve_storage list) result \<times> history" where
  "node_storages srv node =
     with_context (''discover PVE storage on node '' @ node) (on_error Api (list_node_storages srv node))"

definition first_node :: "pve_node list \<Rightarrow> (failure, string) result" where
  "first_node nodes =
     (case nodes of n # _ \<Rightarrow> Inr (pn_node n)
      | [] \<Rightarrow> Inl (Message ''no online PVE node found; pass --node or set pve.node''))"

definition resolve_pve_node ::
  "server \<Rightarrow> string \<Rightarrow> string option \<Rightarrow> history \<Rightarrow> (failure, string) result \<times> history" where
  "resolve_pve_node srv configured requested =
     (let requested = (case requested of Some r \<Rightarrow> r | None \<Rightarrow> configured)
      in if requested \<noteq> ''auto'' then pure (non_empty_new_value ''PVE node'' requested)
         else chain (discover_nodes srv) (\<lambda>nodes. pure (first_node nodes)))"

text \<open>The first node whose storages do.\<close>

fun node_with :: "server \<Rightarrow> (pve_storage list \<Rightarrow> bool) \<Rightarrow> string \<Rightarrow> pve_node list
    \<Rightarrow> history \<Rightarrow> (failure, string) result \<times> history" where
  "node_with srv suits none [] = fail (Message none)"
| "node_with srv suits none (n # nodes) =
     chain (node_storages srv (pn_node n)) (\<lambda>storages.
       if suits storages then ret (pn_node n) else node_with srv suits none nodes)"

definition resolve_pve_node_with_storage ::
  "server \<Rightarrow> string \<Rightarrow> string option \<Rightarrow> string \<Rightarrow> string \<Rightarrow> string \<Rightarrow> history \<Rightarrow> (failure, string) result \<times> history"
where
  "resolve_pve_node_with_storage srv configured requested storage content role =
     (let requested = (case requested of Some r \<Rightarrow> r | None \<Rightarrow> configured)
      in if requested \<noteq> ''auto'' then pure (non_empty_new_value ''PVE node'' requested)
         else chain (discover_nodes srv)
                (node_with srv (\<lambda>storages. storage_matches_requirement storages storage content)
                   (''no online PVE node has active storage for '' @ role
                    @ ''; pass --node or adjust the storage setting'')))"

definition resolve_new_node ::
  "server \<Rightarrow> config \<Rightarrow> new_command \<Rightarrow> string option \<Rightarrow> history \<Rightarrow> (failure, string) result \<times> history" where
  "resolve_new_node srv cfg command prepared_ostemplate =
     (let requested = (case nw_node command of Some r \<Rightarrow> r | None \<Rightarrow> pv_node (cf_pve cfg));
          needs_rootfs_storage = (nw_rootfs command = None);
          needs_template_storage = (nw_ostemplate command = None \<and> prepared_ostemplate = None)
      in if requested \<noteq> ''auto'' then pure (non_empty_new_value ''PVE node'' requested)
         else chain (discover_nodes srv) (\<lambda>nodes.
           if \<not> needs_rootfs_storage \<and> \<not> needs_template_storage then pure (first_node nodes)
           else node_with srv (\<lambda>storages.
                    (\<not> needs_rootfs_storage
                       \<or> storage_matches_requirement storages (pv_storage (cf_pve cfg)) ''rootdir'')
                    \<and> (\<not> needs_template_storage
                       \<or> storage_matches_requirement storages (pv_template_storage (cf_pve cfg)) ''vztmpl''))
                  (''no online PVE node has the configured storage for this box; ''
                   @ ''pass --node or adjust pve.storage and pve.template-storage'') nodes))"

section \<open>Resolving a command\<close>

definition wanted_image :: "config \<Rightarrow> new_command \<Rightarrow> (failure, string) result" where
  "wanted_image cfg command =
     non_empty_new_value ''--image''
       (case nw_image command of Some i \<Rightarrow> i | None \<Rightarrow> ic_default (cf_images cfg))"

definition resolve_rootfs ::
  "config \<Rightarrow> new_command \<Rightarrow> pve_storage list option \<Rightarrow> (failure, string) result" where
  "resolve_rootfs cfg command storages =
     (case nw_rootfs command of
        Some rootfs \<Rightarrow> new_rootfs_override rootfs
      | None \<Rightarrow>
          and_then (ok_or (Message ''internal error: rootfs storage discovery was skipped'') storages) (\<lambda>storages.
          and_then (select_pve_storage storages (pv_storage (cf_pve cfg)) ''rootdir'' ''rootfs'') (\<lambda>storage.
          Inr (storage @ '':'' @ rootfs_size_for_storage storages storage (pd_disk (pv_defaults (cf_pve cfg)))))))"

definition resolve_ostemplate ::
  "server \<Rightarrow> config \<Rightarrow> new_command \<Rightarrow> string option \<Rightarrow> string \<Rightarrow> pve_storage list option
     \<Rightarrow> history \<Rightarrow> (failure, string) result \<times> history" where
  "resolve_ostemplate srv cfg command prepared_ostemplate node storages =
     (case (nw_ostemplate command, prepared_ostemplate) of
        (Some ostemplate, _) \<Rightarrow> pure (new_volume_override ''--ostemplate'' ostemplate)
      | (None, Some ostemplate) \<Rightarrow> ret ostemplate
      | (None, None) \<Rightarrow>
          chain (pure (wanted_image cfg command)) (\<lambda>wanted.
          chain (pure (ok_or (Message ''internal error: template storage discovery was skipped'') storages)) (\<lambda>storages.
          chain (pure (select_pve_storage storages (pv_template_storage (cf_pve cfg)) ''vztmpl'' ''templates'')) (\<lambda>storage.
          chain (find_pve_template srv node storage wanted) (\<lambda>found.
          pure (ok_or (Message (''could not find image '' @ [CHR 0x27] @ wanted @ [CHR 0x27] @ '' in PVE storage ''
                   @ [CHR 0x27] @ storage @ [CHR 0x27] @ ''; use --ostemplate or set images.default'')) found))))))"

definition resolve_net0 :: "config \<Rightarrow> new_command \<Rightarrow> (failure, string) result" where
  "resolve_net0 cfg command =
     (case nw_net0 command of
        Some net0 \<Rightarrow> non_empty_new_value ''--net0'' net0
      | None \<Rightarrow> and_then (non_empty_new_value ''pve.bridge'' (pv_bridge (cf_pve cfg))) (\<lambda>bridge.
          Inr (''name=eth0,bridge='' @ bridge @ '',ip=dhcp'')))"

definition resolve_resources ::
  "config \<Rightarrow> new_command \<Rightarrow> string \<Rightarrow> string \<Rightarrow> string \<Rightarrow> (failure, resolved_new) result" where
  "resolve_resources cfg command node rootfs ostemplate =
     and_then (resolve_net0 cfg command) (\<lambda>net0.
     and_then (case nw_name command of
                 Some name \<Rightarrow> and_then (non_empty_new_value ''--name'' name) (\<lambda>n. Inr (Some n))
               | None \<Rightarrow> Inr None) (\<lambda>name.
     let defaults = pv_defaults (cf_pve cfg)
     in and_then (positive_new_value ''--memory'' (case nw_memory command of Some m \<Rightarrow> m | None \<Rightarrow> pd_memory defaults)) (\<lambda>memory.
        and_then (positive_new_value ''--cores'' (case nw_cores command of Some c \<Rightarrow> c | None \<Rightarrow> pd_cores defaults)) (\<lambda>cores.
        Inr \<lparr>rn_ostype = None, rn_image = ostemplate, rn_node = node, rn_ostemplate = ostemplate, rn_rootfs = rootfs,
             rn_net0 = net0, rn_name = name, rn_memory = memory,
             rn_swap = (case nw_swap command of Some n \<Rightarrow> n | None \<Rightarrow> pd_swap defaults),
             rn_cores = cores, rn_unprivileged = pd_unprivileged defaults, rn_onboot = pd_onboot defaults,
             rn_stopped = nw_stopped command\<rparr>))))"

definition resolve_new_command_with_template ::
  "server \<Rightarrow> config \<Rightarrow> new_command \<Rightarrow> string option \<Rightarrow> string option
     \<Rightarrow> history \<Rightarrow> (failure, resolved_new) result \<times> history" where
  "resolve_new_command_with_template srv cfg command prepared_ostemplate prepared_node =
     chain (case prepared_node of
              Some node \<Rightarrow> pure (non_empty_new_value ''PVE node'' node)
            | None \<Rightarrow> resolve_new_node srv cfg command prepared_ostemplate) (\<lambda>node.
     chain (if nw_rootfs command = None \<or> nw_ostemplate command = None \<and> prepared_ostemplate = None
            then chain (node_storages srv node) (\<lambda>storages. ret (Some storages))
            else ret None) (\<lambda>storages.
     chain (pure (resolve_rootfs cfg command storages)) (\<lambda>rootfs.
     chain (resolve_ostemplate srv cfg command prepared_ostemplate node storages) (\<lambda>ostemplate.
     pure (resolve_resources cfg command node rootfs ostemplate)))))"

text \<open>\<open>prepare_new_template\<close>: an OCI image is brought in when no template matches.\<close>

definition prepare_new_template ::
  "world \<Rightarrow> (string \<Rightarrow> string) \<Rightarrow> (string \<Rightarrow> string \<Rightarrow> (failure, string) result) \<Rightarrow> config \<Rightarrow> new_command
     \<Rightarrow> history \<Rightarrow> (failure, string option \<times> string option) result \<times> history" where
  "prepare_new_template w sha256 build cfg command =
     (if nw_ostemplate command \<noteq> None then ret (None, None)
      else chain (pure (wanted_image cfg command)) (\<lambda>wanted.
           chain (resolve_new_node (w_server w) cfg command None) (\<lambda>node.
           chain (node_storages (w_server w) node) (\<lambda>storages.
           chain (pure (select_pve_storage storages (pv_template_storage (cf_pve cfg)) ''vztmpl'' ''templates'')) (\<lambda>storage.
           chain (find_pve_template (w_server w) node storage wanted) (\<lambda>found.
           case found of
             Some template \<Rightarrow> ret (Some node, Some template)
           | None \<Rightarrow>
               chain (provide_oci_template w sha256 build node storage (oci_reference_for_image wanted))
                 (\<lambda>volume. ret (Some node, Some volume))))))))"

section \<open>Asking for the container\<close>

definition VMID_CREATE_ATTEMPTS :: nat where "VMID_CREATE_ATTEMPTS = 8"

definition is_vmid_conflict :: "pve_error \<Rightarrow> bool" where
  "is_vmid_conflict e =
     (case e of
        Http status message \<Rightarrow>
          let message = lowercase message
          in status = 409 \<or> contains message ''vmid'' \<and> contains message ''already''
      | _ \<Rightarrow> False)"

definition new_metadata :: "resolved_new \<Rightarrow> string \<Rightarrow> nat \<Rightarrow> pbox_metadata" where
  "new_metadata resolved box_id vmid =
     (with_node (metadata_new box_id vmid) (rn_node resolved))\<lparr>pm_image := Some (rn_image resolved)\<rparr>"

definition create_request ::
  "meta_codec \<Rightarrow> config \<Rightarrow> resolved_new \<Rightarrow> string \<Rightarrow> string \<Rightarrow> string \<Rightarrow> nat \<Rightarrow> (failure, lxc_create_request) result"
where
  "create_request codec cfg resolved box_id hostname public_key vmid =
     and_then (map_err (Context ''encode pbox metadata'' \<circ> Meta)
                 (encode_metadata codec (new_metadata resolved box_id vmid))) (\<lambda>marker.
     Inr \<lparr>cr_entrypoint = (if rn_ostype resolved = Some ''unmanaged''
                          then Some ''/usr/local/bin/pbox-agent --workspace-init'' else None),
          cr_ostype = rn_ostype resolved,
          cr_ostemplate = Some (rn_ostemplate resolved), cr_hostname = Some hostname,
          cr_memory = Some (rn_memory resolved), cr_swap = Some (rn_swap resolved),
          cr_cores = Some (rn_cores resolved), cr_rootfs = Some (rn_rootfs resolved),
          cr_net0 = Some (rn_net0 resolved), cr_unprivileged = Some (rn_unprivileged resolved),
          cr_onboot = Some (rn_onboot resolved),
          cr_description = Some (''Managed by `pbox`.\<newline>'' @ marker),
          cr_ssh_public_keys = (if rl_url (cf_relay cfg) = None then Some public_key else None),
          cr_start = Some True\<rparr>)"

definition resource_vmids :: "cluster_resource list \<Rightarrow> nat list" where
  "resource_vmids resources = List.map_filter rs_vmid resources"

fun create_loop ::
  "server \<Rightarrow> vmid_pattern \<Rightarrow> (nat \<Rightarrow> (failure, lxc_create_request) result) \<Rightarrow> string \<Rightarrow> string \<Rightarrow> nat list \<Rightarrow> nat
     \<Rightarrow> history \<Rightarrow> (failure, nat \<times> string) result \<times> history" where
  "create_loop srv pattern request node box_id occupied 0 =
     fail (Message (''could not create box '' @ box_id @ '': VMID allocation kept racing''))"
| "create_loop srv pattern request node box_id occupied (Suc left) =
     chain (pure (map_err (Context ''allocate a free PVE VMID'' \<circ> Vmids) (allocate_lowest pattern occupied))) (\<lambda>vmid.
     chain (pure (request vmid)) (\<lambda>r h.
       case task srv (CreateLxc node vmid r) h of
         (Inr upid, h1) \<Rightarrow> (Inr (vmid, upid), h1)
       | (Inl e, h1) \<Rightarrow>
           if is_vmid_conflict e \<and> left \<noteq> 0
           then chain (with_context ''refresh PVE resources after VMID allocation race''
                         (on_error Api (list_cluster_resources srv))) (\<lambda>resources.
                  create_loop srv pattern request node box_id (vmid # occupied @ resource_vmids resources) left) h1
           else (Inl (Context (''create box '' @ box_id @ '' with VMID '' @ show_nat vmid @ '' on '' @ node) (Api e)), h1)))"

definition create_lxc_with_retry ::
  "server \<Rightarrow> meta_codec \<Rightarrow> config \<Rightarrow> resolved_new \<Rightarrow> string \<Rightarrow> string \<Rightarrow> string
     \<Rightarrow> history \<Rightarrow> (failure, nat \<times> string) result \<times> history" where
  "create_lxc_with_retry srv codec cfg resolved box_id hostname public_key =
     chain (with_context ''list PVE resources for VMID allocation'' (on_error Api (list_cluster_resources srv))) (\<lambda>resources.
       create_loop srv (cf_vmid_pattern cfg) (create_request codec cfg resolved box_id hostname public_key)
         (rn_node resolved) box_id (resource_vmids resources) VMID_CREATE_ATTEMPTS)"

text \<open>
  What \<open>run_new\<close> has PVE do before the guest is bootstrapped. \<open>local_setup\<close> stands for
  the certificates, the key and the recovery file made in between: the public key, or why not.
\<close>

definition create_new_box ::
  "world \<Rightarrow> meta_codec \<Rightarrow> (string \<Rightarrow> string) \<Rightarrow> (string \<Rightarrow> string \<Rightarrow> (failure, string) result)
     \<Rightarrow> (nat \<Rightarrow> string) \<Rightarrow> (string \<Rightarrow> (failure, string) result) \<Rightarrow> config \<Rightarrow> new_command
     \<Rightarrow> history \<Rightarrow> (failure, string \<times> nat \<times> ipv4) result \<times> history" where
  "create_new_box w codec sha256 build draws local_setup cfg command =
     chain (prepare_new_template w sha256 build cfg command) (\<lambda>(prepared_node, prepared_ostemplate).
     chain (resolve_new_command_with_template (w_server w) cfg command prepared_ostemplate prepared_node) (\<lambda>resolved.
     chain (discover_boxes codec w) (\<lambda>existing.
     chain (pure (generate_unique_id draws existing)) (\<lambda>box_id.
     chain (pure (local_setup box_id)) (\<lambda>public_key.
     chain (create_lxc_with_retry (w_server w) codec cfg resolved box_id
              (case rn_name resolved of
                 Some n \<Rightarrow> n
               | None \<Rightarrow> ''pbox-'' @ trim_prefixes ''pbx_'' box_id)
              public_key) (\<lambda>(vmid, upid).
     chain (with_context (''PVE did not finish creating box '' @ box_id @ '' with VMID '' @ show_nat vmid
                          @ '' on '' @ rn_node resolved)
              (wait_for_task w (rn_node resolved) upid)) (\<lambda>_.
     chain (with_context ''wait for the new container IPv4 address''
              (wait_for_lxc_ip w (rn_node resolved) vmid)) (\<lambda>ip.
     ret (box_id, vmid, ip)))))))))"

section \<open>No VMID is asked for twice or taken from another guest\<close>

text \<open>The VMID a call asks for, and those an exchange shows to be in use.\<close>

definition asks_for :: "api_call \<Rightarrow> nat option" where
  "asks_for c = (case c of CreateLxc node vmid request \<Rightarrow> Some vmid | _ \<Rightarrow> None)"

definition shown :: "api_call \<times> (pve_error, answer) result \<Rightarrow> nat set" where
  "shown x =
     (case x of
        (ListClusterResources, Inr (Resources resources)) \<Rightarrow> set (resource_vmids resources)
      | (CreateLxc node vmid request, _) \<Rightarrow> {vmid}
      | _ \<Rightarrow> {})"

fun fresh_requests :: "nat set \<Rightarrow> history \<Rightarrow> bool" where
  "fresh_requests used [] = True"
| "fresh_requests used (x # t) =
     ((case asks_for (fst x) of Some vmid \<Rightarrow> vmid \<notin> used | None \<Rightarrow> True) \<and> fresh_requests (used \<union> shown x) t)"

definition requested :: "history \<Rightarrow> nat list" where
  "requested t = List.map_filter (\<lambda>x. asks_for (fst x)) t"

lemma requested_simps [simp]:
  "requested [] = []" "requested ((CreateLxc node vmid q, a) # t) = vmid # requested t"
  "requested ((ListClusterResources, a) # t) = requested t"
  by (simp_all add: requested_def map_filter_Cons asks_for_def List.map_filter_def)

lemma fresh_simps [simp]:
  "fresh_requests used ((CreateLxc node vmid q, a) # t) \<longleftrightarrow> vmid \<notin> used \<and> fresh_requests (insert vmid used) t"
  "fresh_requests used ((ListClusterResources, Inl e) # t) \<longleftrightarrow> fresh_requests used t"
  "fresh_requests used ((ListClusterResources, Inr (Resources rs)) # t)
     \<longleftrightarrow> fresh_requests (used \<union> set (resource_vmids rs)) t"
  by (simp_all add: fresh_requests.simps(2) asks_for_def shown_def)

declare fresh_requests.simps(2) [simp del]

lemma asks_for_create [simp]: "asks_for (CreateLxc node vmid q) = Some vmid"
  by (simp add: asks_for_def)

lemma fresh_one: "fresh_requests used [(ListClusterResources, a)]"
  by (simp add: fresh_requests.simps(2) asks_for_def)

text \<open>Asking the cluster for its guests.\<close>

lemma resourcesE:
  assumes "on_error f (on_error Api (list_cluster_resources srv)) h = (r, h')"
  obtains (refused) e where "r = Inl e" "h' = h @ [(ListClusterResources, srv h ListClusterResources)]"
  | (told) resources where "r = Inr resources" "h' = h @ [(ListClusterResources, Inr (Resources resources))]"
proof -
  obtain r0 where r0: "list_cluster_resources srv h = (r0, h')" "r = map_err f (map_err Api r0)"
    using assms by (elim on_errorE) blast
  then show ?thesis
    using refused told
    by (cases r0) (auto simp: list_cluster_resources_def call_eq_Inr elim: callE)
qed

lemma allocate_lowest_fresh:
  assumes "wf_pattern p" "allocate_lowest p used = Inr v"
  shows "vmid_contains p v \<and> v \<notin> set used"
  using allocate_from_spec[OF wf_pattern_le(1)[OF assms(1)], of used] assms(2)
  by (auto simp: allocate_lowest_def vmid_contains_def)

lemma create_loop_run:
  assumes "create_loop srv p request node box_id occupied n h = (r, h')" and "wf_pattern p"
  shows "\<exists>t. h' = h @ t \<and> fresh_requests (set occupied) t \<and> length (requested t) \<le> n
     \<and> map asks_for (changes t) = map Some (requested t) \<and> (\<forall>v \<in> set (requested t). vmid_contains p v)
     \<and> (\<forall>v upid. r = Inr (v, upid) \<longrightarrow>
          (\<exists>s q. request v = Inr q \<and> t = s @ [(CreateLxc node v q, Inr (TaskIs upid))]))"
  using assms(1)
proof (induction n arbitrary: occupied h)
  case 0
  then show ?case by (auto simp: fail_def)
next
  case (Suc n)
  show ?case
  proof (cases "\<exists>v q. allocate_lowest p occupied = Inr v \<and> request v = Inr q")
    case False
    then have "h' = h" "\<exists>e. r = Inl e"
    proof -
      consider e where "allocate_lowest p occupied = Inl e"
        | v e where "allocate_lowest p occupied = Inr v" "request v = Inl e"
        using False by (cases "allocate_lowest p occupied") (auto, metis sum.exhaust)
      then have "h' = h \<and> (\<exists>e. r = Inl e)"
        by cases (use Suc.prems in \<open>auto simp: chain_def pure_def\<close>)
      then show "h' = h" "\<exists>e. r = Inl e" by blast+
    qed
    then show ?thesis by auto
  next
    case True
    then obtain v q where v: "allocate_lowest p occupied = Inr v" "request v = Inr q" by blast
    note fresh = allocate_lowest_fresh[OF assms(2) v(1)]
    let ?c = "CreateLxc node v q"
    obtain r1 h1 where created: "task srv ?c h = (r1, h1)" by fastforce
    then show ?thesis
    proof (cases rule: taskE)
      case (started upid)
      then have "r = Inr (v, upid)" "h' = h @ [(?c, Inr (TaskIs upid))]"
        using Suc.prems v created by (simp_all add: chain_def pure_def)
      then show ?thesis using v(2) fresh by auto
    next
      case (refused e)
      show ?thesis
      proof (cases "is_vmid_conflict e \<and> n \<noteq> 0")
        case False
        then have "h' = h1" "\<exists>e. r = Inl e"
          using Suc.prems v created refused by (auto simp: chain_def pure_def)
        then show ?thesis using refused fresh by auto
      next
        case True
        then have "chain (with_context ''refresh PVE resources after VMID allocation race''
              (on_error Api (list_cluster_resources srv))) (\<lambda>resources.
            create_loop srv p request node box_id (v # occupied @ resource_vmids resources) n) h1 = (r, h')"
          using Suc.prems v created refused by (simp add: chain_def[of "pure _"] pure_def)
        then show ?thesis
        proof (cases rule: chainE)
          case (stops e')
          from stops(1) obtain a where "h' = h1 @ [(ListClusterResources, a)]" by (cases rule: resourcesE) auto
          then show ?thesis using stops(2) refused fresh fresh_one
            by (intro exI[of _ "(?c, srv h ?c) # [(ListClusterResources, a)]"]) auto
        next
          case (goes resources h2)
          from goes(1) have h2: "h2 = h1 @ [(ListClusterResources, Inr (Resources resources))]"
            by (cases rule: resourcesE) auto
          from Suc.IH[OF goes(2)] obtain t where t: "h' = h2 @ t"
              "fresh_requests (set (v # occupied @ resource_vmids resources)) t" "length (requested t) \<le> n"
              "map asks_for (changes t) = map Some (requested t)" "\<forall>v \<in> set (requested t). vmid_contains p v"
              "\<forall>v upid. r = Inr (v, upid) \<longrightarrow>
                 (\<exists>s q. request v = Inr q \<and> t = s @ [(CreateLxc node v q, Inr (TaskIs upid))])" by blast
          let ?t = "[(?c, srv h ?c), (ListClusterResources, Inr (Resources resources))] @ t"
          have "\<exists>s q. request v' = Inr q \<and> ?t = s @ [(CreateLxc node v' q, Inr (TaskIs upid))]"
            if r: "r = Inr (v', upid)" for v' upid
          proof -
            obtain s q' where "request v' = Inr q'" "t = s @ [(CreateLxc node v' q', Inr (TaskIs upid))]"
              using t(6) r by blast
            then show ?thesis
              by (intro exI[of _ "[(?c, srv h ?c), (ListClusterResources, Inr (Resources resources))] @ s"]) auto
          qed
          moreover have "fresh_requests (set occupied) ?t" using t(2) fresh by simp
          ultimately show ?thesis using t h2 refused fresh by (intro exI[of _ ?t]) auto
        qed
      qed
    qed
  qed
qed

lemma description_parses:
  assumes "codec_ok codec m" "encode_metadata codec m = Inr marker"
  shows "parse_metadata codec (''Managed by `pbox`.\<newline>'' @ marker) = Inr (Some m)"
proof -
  have "find_sub MARKER_PREFIX ''Managed by `pbox`.\<newline>'' = None" by code_simp
  moreover have "find_sub MARKER_PREFIX [] = None" by code_simp
  ultimately show ?thesis using parse_around[OF _ _ assms, of "''Managed by `pbox`.\<newline>''" "[]"] by simp
qed

text \<open>
  C28: Creating a container asks PVE at most eight times and for nothing else, for VMIDs of
  the configured pattern, never for one that the cluster has just shown to be in use or that
  was asked for before. When it succeeds, PVE accepted the last of them, and the notes it was
  given are read back as a record with the box's identifier, that VMID, the node and the image.
\<close>

theorem create_asks_for_fresh_vmids:
  assumes "create_lxc_with_retry srv codec cfg resolved box_id hostname public_key h = (r, h')"
    and "wf_pattern (cf_vmid_pattern cfg)"
  shows "\<exists>t. h' = h @ t \<and> map asks_for (changes t) = map Some (requested t) \<and> length (requested t) \<le> 8
     \<and> fresh_requests {} t \<and> (\<forall>v \<in> set (requested t). vmid_contains (cf_vmid_pattern cfg) v)
     \<and> (\<forall>v upid. r = Inr (v, upid) \<longrightarrow>
          (\<exists>s q. t = s @ [(CreateLxc (rn_node resolved) v q, Inr (TaskIs upid))]
             \<and> (\<forall>m. m = new_metadata resolved box_id v \<and> codec_ok codec m \<longrightarrow>
                  (\<exists>notes. cr_description q = Some notes \<and> parse_metadata codec notes = Inr (Some m)
                     \<and> pm_id m = box_id \<and> metadata_fits m (rn_node resolved) v \<and> pm_image m = Some (rn_image resolved)))))"
  using assms(1) unfolding create_lxc_with_retry_def
proof (cases rule: chainE)
  case (stops e)
  from stops(1) obtain a where "h' = h @ [(ListClusterResources, a)]" by (cases rule: resourcesE) auto
  then show ?thesis using stops(2) fresh_one by (intro exI[of _ "[(ListClusterResources, a)]"]) auto
next
  case (goes resources h1)
  from goes(1) have h1: "h1 = h @ [(ListClusterResources, Inr (Resources resources))]"
    by (cases rule: resourcesE) auto
  have q: "\<exists>notes. cr_description q = Some notes \<and> parse_metadata codec notes = Inr (Some m)
       \<and> pm_id m = box_id \<and> metadata_fits m (rn_node resolved) v \<and> pm_image m = Some (rn_image resolved)"
    if "create_request codec cfg resolved box_id hostname public_key v = Inr q"
       "m = new_metadata resolved box_id v" "codec_ok codec m" for v q m
    using that description_parses[OF that(3)]
    by (auto simp: create_request_def res_simps new_metadata_def with_node_def metadata_new_def metadata_fits_def)
  from create_loop_run[OF goes(2) assms(2)] obtain t where t: "h' = h1 @ t"
      "fresh_requests (set (resource_vmids resources)) t" "length (requested t) \<le> VMID_CREATE_ATTEMPTS"
      "map asks_for (changes t) = map Some (requested t)"
      "\<forall>v \<in> set (requested t). vmid_contains (cf_vmid_pattern cfg) v"
      "\<forall>v upid. r = Inr (v, upid) \<longrightarrow> (\<exists>s q. create_request codec cfg resolved box_id hostname public_key v = Inr q
         \<and> t = s @ [(CreateLxc (rn_node resolved) v q, Inr (TaskIs upid))])" by blast
  let ?t = "(ListClusterResources, Inr (Resources resources)) # t"
  have "\<exists>s q. ?t = s @ [(CreateLxc (rn_node resolved) v q, Inr (TaskIs upid))]
      \<and> create_request codec cfg resolved box_id hostname public_key v = Inr q" if r: "r = Inr (v, upid)" for v upid
  proof -
    obtain s q where "create_request codec cfg resolved box_id hostname public_key v = Inr q"
        "t = s @ [(CreateLxc (rn_node resolved) v q, Inr (TaskIs upid))]" using t(6) r by blast
    then show ?thesis by (intro exI[of _ "(ListClusterResources, Inr (Resources resources)) # s"]) auto
  qed
  then have "\<forall>v upid. r = Inr (v, upid) \<longrightarrow>
      (\<exists>s q. ?t = s @ [(CreateLxc (rn_node resolved) v q, Inr (TaskIs upid))]
         \<and> (\<forall>m. m = new_metadata resolved box_id v \<and> codec_ok codec m \<longrightarrow>
              (\<exists>notes. cr_description q = Some notes \<and> parse_metadata codec notes = Inr (Some m)
                 \<and> pm_id m = box_id \<and> metadata_fits m (rn_node resolved) v \<and> pm_image m = Some (rn_image resolved))))"
    using q by blast
  then show ?thesis using t(1-5) h1 by (intro exI[of _ ?t]) (simp add: VMID_CREATE_ATTEMPTS_def)
qed

text \<open>A cluster in which another client takes the first VMID in between.\<close>

definition racing_server :: server where
  "racing_server h c =
     (case c of
        ListClusterResources \<Rightarrow> Inr (Resources [])
      | CreateLxc node vmid q \<Rightarrow>
          if length h < 2 then Inl (Http 409 []) else Inr (TaskIs ''u'')
      | _ \<Rightarrow> Inl (Unsupported []))"

definition example_pattern :: vmid_pattern where
  "example_pattern = \<lparr>vp_prefix = 4, vp_wildcard_digits = 1, vp_first = 40, vp_last = 49\<rparr>"

definition small_config :: config where
  "small_config =
     \<lparr>cf_pve = default_pve_config\<lparr>pv_defaults := default_pve_defaults\<lparr>pd_memory := 1, pd_swap := 0\<rparr>\<rparr>,
      cf_agent = \<lparr>ag_binary = None, ag_port = 1\<rparr>, cf_relay = default_relay_config,
      cf_images = default_image_config, cf_recipes = default_recipe_config, cf_vmid_pattern = example_pattern\<rparr>"

definition example_resolved :: resolved_new where
  "example_resolved = \<lparr>rn_ostype = None, rn_image = ''t'', rn_node = ''n'', rn_ostemplate = ''t'', rn_rootfs = ''l:8'',
     rn_net0 = ''b'', rn_name = None, rn_memory = 1, rn_swap = 0, rn_cores = 1, rn_unprivileged = True,
     rn_onboot = False, rn_stopped = False\<rparr>"

definition any_notes :: meta_codec where
  "any_notes = \<lparr>to_json = (\<lambda>_. Some ''x''), from_json = (\<lambda>_. Some (new_metadata example_resolved ''pbx_00000000'' 41)),
     b64_encode = (\<lambda>s. s), b64_decode = Some\<rparr>"

lemma example_pattern_wf: "wf_pattern example_pattern"
  by (simp add: wf_pattern_def example_pattern_def U64_MAX_def U32_MAX_def)

lemma racing_run:
  "case create_lxc_with_retry racing_server any_notes small_config
      example_resolved ''pbx_00000000'' ''h'' ''k'' [] of
     (Inr (v, upid), h') \<Rightarrow> v = 41 \<and> requested h' = [40, 41] | _ \<Rightarrow> False"
  by code_simp

lemma run_result:
  "(case p of (Inr (v, u), h) \<Rightarrow> P v u h | _ \<Rightarrow> False) \<Longrightarrow> \<exists>v u h. p = (Inr (v, u), h) \<and> P v u h"
  by (auto split: prod.splits sum.splits)

theorem create_asks_for_fresh_vmids_witness:
  "\<exists>upid h' s q. create_lxc_with_retry racing_server any_notes small_config
      example_resolved ''pbx_00000000'' ''h'' ''k'' [] = (Inr (41, upid), h')
     \<and> fresh_requests {} h' \<and> h' = s @ [(CreateLxc ''n'' 41 q, Inr (TaskIs upid))]
     \<and> (\<exists>notes. cr_description q = Some notes
          \<and> parse_metadata any_notes notes = Inr (Some (new_metadata example_resolved ''pbx_00000000'' 41)))"
proof -
  obtain upid h' where run: "create_lxc_with_retry racing_server any_notes small_config
      example_resolved ''pbx_00000000'' ''h'' ''k'' [] = (Inr (41, upid), h')"
    using run_result[OF racing_run] by (elim exE conjE) (simp only: simp_thms)
  have ok: "codec_ok any_notes (new_metadata example_resolved ''pbx_00000000'' 41)"
    by (simp add: codec_ok_def any_notes_def b64_char_def char_class_defs)
  let ?m = "new_metadata example_resolved ''pbx_00000000'' 41"
  let ?cfg = small_config
  have wf: "wf_pattern (cf_vmid_pattern ?cfg)" by (simp add: small_config_def example_pattern_wf)
  from create_asks_for_fresh_vmids[OF run wf] obtain t where t: "h' = [] @ t" "fresh_requests {} t"
      "\<exists>s q. t = s @ [(CreateLxc (rn_node example_resolved) 41 q, Inr (TaskIs upid))]
         \<and> (\<forall>m. m = ?m \<and> codec_ok any_notes m \<longrightarrow>
              (\<exists>notes. cr_description q = Some notes \<and> parse_metadata any_notes notes = Inr (Some m)
                 \<and> pm_id m = ''pbx_00000000'' \<and> metadata_fits m (rn_node example_resolved) 41
                 \<and> pm_image m = Some (rn_image example_resolved)))" by blast
  obtain s q where sq: "t = s @ [(CreateLxc (rn_node example_resolved) 41 q, Inr (TaskIs upid))]"
      "\<exists>notes. cr_description q = Some notes \<and> parse_metadata any_notes notes = Inr (Some ?m)"
    using t(3) ok by blast
  have "rn_node example_resolved = ''n''" by (simp add: example_resolved_def)
  then show ?thesis using sq t run
    by (intro exI[of _ upid] exI[of _ h'] exI[of _ s] exI[of _ q]) simp
qed

end
