(* ===== verification/RecipeRuns.thy ===== *)
theory RecipeRuns
  imports BoxOperations
begin

text \<open>
  Applying recipes to a box (\<open>crates/pbox-cli/src/main.rs\<close>): the snapshot taken before,
  what happens to it when the recipes fail or succeed, and the record of them in the box's
  notes. Running Ansible is the environment's: its outcome is an argument, as are the clocks.
\<close>

record ansible_run =
  ar_recipe :: string
  ar_box_id :: string
  ar_repository :: string
  ar_revision :: string

record clocks =
  ck_nanos :: "history \<Rightarrow> (failure, nat) result"
  ck_timestamp :: "history \<Rightarrow> (failure, string) result"

section \<open>The snapshot\<close>

abbreviation create_snapshot_call where
  "create_snapshot_call b name description \<equiv>
     CreateLxcSnapshot (bx_node b) (bx_vmid b) \<lparr>sn_snapname = name, sn_description = description\<rparr>"

abbreviation rollback_call where
  "rollback_call b name \<equiv> RollbackLxcSnapshot (bx_node b) (bx_vmid b) name True"

abbreviation delete_snapshot_call where
  "delete_snapshot_call b name \<equiv> DeleteLxcSnapshot (bx_node b) (bx_vmid b) name"

definition snapshot_unavailable :: "pve_error \<Rightarrow> bool" where
  "snapshot_unavailable e = (case e of Http status message \<Rightarrow> status \<in> {400, 405, 501} | _ \<Rightarrow> False)"

definition delete_recipe_snapshot :: "world \<Rightarrow> box_record \<Rightarrow> string \<Rightarrow> history \<Rightarrow> (failure, unit) result \<times> history" where
  "delete_recipe_snapshot w b name =
     run_task w (bx_node b) (delete_snapshot_call b name) (''delete recipe snapshot '' @ name)
       (''wait for recipe snapshot deletion '' @ name)"

definition rollback_recipe_snapshot :: "world \<Rightarrow> box_record \<Rightarrow> string \<Rightarrow> history \<Rightarrow> (failure, unit) result \<times> history" where
  "rollback_recipe_snapshot w b name =
     run_task w (bx_node b) (rollback_call b name) (''rollback recipe snapshot '' @ name)
       (''wait for recipe snapshot rollback '' @ name)"

definition cleanup_failed_recipe_snapshot ::
  "world \<Rightarrow> box_record \<Rightarrow> string \<Rightarrow> failure \<Rightarrow> history \<Rightarrow> (failure, 'a) result \<times> history" where
  "cleanup_failed_recipe_snapshot w b name primary h =
     (case delete_recipe_snapshot w b name h of
        (Inr u, h1) \<Rightarrow>
          (Inl (Context (''removed incomplete recipe snapshot '' @ name @ '' after snapshot operation failure'') primary), h1)
      | (Inl e, h1) \<Rightarrow>
          (Inl (Attached primary (''recipe snapshot '' @ name @ '' may remain; cleanup failed'') e), h1))"

definition snapshot_feature_missing :: "failure \<Rightarrow> bool" where
  "snapshot_feature_missing e =
     (case e of
        TaskFailed status detail \<Rightarrow>
          trim_prefixes ''ERROR: '' (trim status) = ''snapshot feature is not available''
      | _ \<Rightarrow> False)"

text \<open>The wait for a snapshot under way.\<close>

definition await_recipe_snapshot ::
  "world \<Rightarrow> string \<Rightarrow> box_record \<Rightarrow> string \<Rightarrow> string \<Rightarrow> history \<Rightarrow> (failure, string option) result \<times> history" where
  "await_recipe_snapshot w policy b name upid h =
     (case wait_for_task w (bx_node b) upid h of
        (Inr u, h1) \<Rightarrow> (Inr (Some name), h1)
      | (Inl e, h1) \<Rightarrow>
          if snapshot_feature_missing e
          then (if policy = ''auto'' then Inr None
                else Inl (Context ''A snapshot is required by recipes.snapshot-before-apply=always'' e), h1)
          else cleanup_failed_recipe_snapshot w b name (Context (''wait for recipe snapshot '' @ name) e) h1)"

definition request_recipe_snapshot ::
  "world \<Rightarrow> string \<Rightarrow> box_record \<Rightarrow> string \<Rightarrow> string \<Rightarrow> history \<Rightarrow> (failure, string option) result \<times> history"
where
  "request_recipe_snapshot w policy b name description h =
     (case task (w_server w) (create_snapshot_call b name (Some description)) h of
        (Inr upid, h1) \<Rightarrow> await_recipe_snapshot w policy b name upid h1
      | (Inl e, h1) \<Rightarrow>
          if policy = ''auto'' \<and> snapshot_unavailable e then (Inr None, h1)
          else cleanup_failed_recipe_snapshot w b name (Context ''create recipe snapshot'' (Api e)) h1)"

definition create_recipe_snapshot ::
  "world \<Rightarrow> clocks \<Rightarrow> string \<Rightarrow> box_record \<Rightarrow> ansible_run \<Rightarrow> history \<Rightarrow> (failure, string option) result \<times> history"
where
  "create_recipe_snapshot w clk policy b run h =
     (if policy = ''never'' then (Inr None, h)
      else if policy \<notin> {''always'', ''auto''}
      then (Inl (Message (''invalid recipe snapshot policy: '' @ policy)), h)
      else case ck_nanos clk h of
          Inl e \<Rightarrow> (Inl (Context ''read system clock'' e), h)
        | Inr nanos \<Rightarrow>
            request_recipe_snapshot w policy b (''pbox-'' @ show_nat nanos)
              (''pbox before recipe '' @ safe_terminal_text (ar_recipe run) @ '' @ ''
               @ safe_terminal_text (ar_revision run)) h)"

section \<open>The record in the notes\<close>

text \<open>The first entry of a recipe is replaced, or one is added.\<close>

fun put_provenance :: "recipe_provenance \<Rightarrow> recipe_provenance list \<Rightarrow> recipe_provenance list" where
  "put_provenance p [] = [p]"
| "put_provenance p (q # qs) = (if rp_id q = rp_id p then p # qs else q # put_provenance p qs)"

definition add_capabilities :: "string list \<Rightarrow> string list \<Rightarrow> string list" where
  "add_capabilities new have = foldl (\<lambda>cs c. if c \<in> set cs then cs else cs @ [c]) have new"

definition recorded :: "recipe_provenance \<Rightarrow> string list \<Rightarrow> pbox_metadata \<Rightarrow> pbox_metadata" where
  "recorded p capabilities m =
     m\<lparr>pm_recipes := sort_key rp_id (put_provenance p (pm_recipes m)),
       pm_capabilities := sort (if rp_result p = Some ''success''
                                then add_capabilities capabilities (pm_capabilities m) else pm_capabilities m)\<rparr>"

definition recorded_notes ::
  "meta_codec \<Rightarrow> box_record \<Rightarrow> recipe_provenance \<Rightarrow> string list \<Rightarrow> string \<Rightarrow> (failure, string) result" where
  "recorded_notes codec b p capabilities description =
     and_then (map_err (Context ''parse pbox metadata before recording recipe provenance'' \<circ> Meta)
                 (parse_metadata codec description)) (\<lambda>found.
     and_then (ok_or (Message (''box '' @ bx_id b @ '' has no pbox metadata'')) found) (\<lambda>m.
     if pm_id m \<noteq> bx_id b \<or> pm_vmid m \<noteq> bx_vmid b
     then Inl (Message (''pbox metadata does not match box '' @ bx_id b))
     else map_err (Context ''preserve pbox metadata while recording recipe provenance'' \<circ> Meta)
            (preserve_metadata codec description (recorded p capabilities m))))"

definition notes_update :: "string option \<Rightarrow> string \<Rightarrow> lxc_config_update" where
  "notes_update digest description =
     \<lparr>cu_networks = [], cu_digest = digest, cu_hostname = None, cu_memory = None, cu_swap = None, cu_cores = None,
      cu_rootfs = None, cu_net0 = None, cu_unprivileged = None, cu_description = Some description\<rparr>"

fun provenance_loop ::
  "server \<Rightarrow> meta_codec \<Rightarrow> box_record \<Rightarrow> recipe_provenance \<Rightarrow> string list \<Rightarrow> nat \<Rightarrow> failure option
     \<Rightarrow> history \<Rightarrow> (failure, unit) result \<times> history" where
  "provenance_loop srv codec b p capabilities 0 last_error h =
     (let msg = ''could not record recipe provenance for '' @ bx_id b @ '' after configuration retries: ''
      in (Inl (case last_error of Some e \<Rightarrow> Because msg e | None \<Rightarrow> Message (msg @ ''unknown PVE error'')), h))"
| "provenance_loop srv codec b p capabilities (Suc left) last_error h =
     (case get_lxc_config srv (bx_node b) (bx_vmid b) h of
        (Inl e, h1) \<Rightarrow>
          provenance_loop srv codec b p capabilities left (Some (Because ''read metadata: '' (Api e))) h1
      | (Inr config, h1) \<Rightarrow>
          (case recorded_notes codec b p capabilities
                  (case lc_description config of Some d \<Rightarrow> d | None \<Rightarrow> []) of
             Inl e \<Rightarrow> (Inl e, h1)
           | Inr notes \<Rightarrow>
               (case empty_call srv (UpdateLxcConfig (bx_node b) (bx_vmid b)
                        (notes_update (lc_digest config) notes)) h1 of
                  (Inr u, h2) \<Rightarrow> (Inr u, h2)
                | (Inl e, h2) \<Rightarrow> provenance_loop srv codec b p capabilities left (Some (Api e)) h2)))"

definition provenance_of :: "ansible_run \<Rightarrow> string \<Rightarrow> string \<Rightarrow> recipe_provenance" where
  "provenance_of run timestamp outcome =
     \<lparr>rp_id = ar_recipe run, rp_repository = ar_repository run, rp_revision = ar_revision run,
      rp_applied_at = Some timestamp, rp_result = Some outcome\<rparr>"

definition record_recipe_provenance ::
  "world \<Rightarrow> meta_codec \<Rightarrow> clocks \<Rightarrow> box_record \<Rightarrow> ansible_run \<Rightarrow> string list \<Rightarrow> string
     \<Rightarrow> history \<Rightarrow> (failure, unit) result \<times> history" where
  "record_recipe_provenance w codec clk b run capabilities outcome h =
     (case ck_timestamp clk h of
        Inl e \<Rightarrow> (Inl e, h)
      | Inr timestamp \<Rightarrow>
          provenance_loop (w_server w) codec b (provenance_of run timestamp outcome) capabilities 3 None h)"

section \<open>After the run\<close>

definition undo_recipe ::
  "world \<Rightarrow> box_record \<Rightarrow> string option \<Rightarrow> bool \<Rightarrow> failure \<Rightarrow> history \<Rightarrow> failure \<times> history" where
  "undo_recipe w b snapshot rollback e h =
     (case (rollback, snapshot) of
        (True, Some name) \<Rightarrow>
          (case rollback_recipe_snapshot w b name h of
             (Inl rollback_error, h1) \<Rightarrow> (Attached e ''rollback recipe snapshot'' rollback_error, h1)
           | (Inr u, h1) \<Rightarrow>
               (case delete_recipe_snapshot w b name h1 of
                  (Inr u, h2) \<Rightarrow> (e, h2)
                | (Inl delete_error, h2) \<Rightarrow> (Attached e ''delete recovered recipe snapshot'' delete_error, h2)))
      | (True, None) \<Rightarrow> (Context ''rollback requested but no recipe snapshot was available'' e, h)
      | (False, Some name) \<Rightarrow> (Context (''recipe snapshot '' @ name @ '' was preserved for manual recovery'') e, h)
      | (False, None) \<Rightarrow> (e, h))"

definition finish_recipe_failure ::
  "world \<Rightarrow> meta_codec \<Rightarrow> clocks \<Rightarrow> box_record \<Rightarrow> ansible_run \<Rightarrow> string list \<Rightarrow> failure \<Rightarrow> string option \<Rightarrow> bool
     \<Rightarrow> history \<Rightarrow> (failure, 'a) result \<times> history" where
  "finish_recipe_failure w codec clk b planned capabilities primary snapshot rollback h =
     (case undo_recipe w b snapshot rollback primary h of
        (e, h1) \<Rightarrow>
          (case record_recipe_provenance w codec clk b planned capabilities ''failed'' h1 of
             (Inr u, h2) \<Rightarrow> (Inl e, h2)
           | (Inl p, h2) \<Rightarrow> (Inl (Attached e ''record failed recipe provenance'' p), h2)))"

definition merge_cleanup_error :: "failure option \<Rightarrow> string \<Rightarrow> failure \<Rightarrow> failure option" where
  "merge_cleanup_error existing label e =
     Some (case existing of Some x \<Rightarrow> Attached x label e | None \<Rightarrow> Context label e)"

definition finish_recipe_success ::
  "world \<Rightarrow> meta_codec \<Rightarrow> clocks \<Rightarrow> box_record \<Rightarrow> ansible_run \<Rightarrow> string list \<Rightarrow> string option \<Rightarrow> failure option
     \<Rightarrow> history \<Rightarrow> (failure, unit) result \<times> history" where
  "finish_recipe_success w codec clk b run capabilities snapshot cleanup_error h =
     (case record_recipe_provenance w codec clk b run capabilities ''success'' h of
        (Inl e, h1) \<Rightarrow>
          let e = (case cleanup_error of
                     Some c \<Rightarrow> Attached e ''recipe cleanup also failed'' c
                   | None \<Rightarrow> e)
          in (Inl (case snapshot of
                     Some name \<Rightarrow> Context (''recipe snapshot '' @ name @ '' was preserved for manual recovery'') e
                   | None \<Rightarrow> e), h1)
      | (Inr u, h1) \<Rightarrow>
          (case (case snapshot of
                   None \<Rightarrow> (cleanup_error, h1)
                 | Some name \<Rightarrow>
                     (case delete_recipe_snapshot w b name h1 of
                        (Inr u, h2) \<Rightarrow> (cleanup_error, h2)
                      | (Inl e, h2) \<Rightarrow> (merge_cleanup_error cleanup_error ''remove recipe snapshot'' e, h2))) of
             (Some e, h2) \<Rightarrow> (Inl (Context ''recipe applied successfully but cleanup failed'' e), h2)
           | (None, h2) \<Rightarrow> (Inr (), h2)))"

section \<open>The whole run\<close>

record recipe_choice =
  ch_id :: string
  ch_capabilities :: "string list"

text \<open>Each recipe is recorded; the last one also takes the snapshot away.\<close>

fun finish_all ::
  "world \<Rightarrow> meta_codec \<Rightarrow> clocks \<Rightarrow> box_record \<Rightarrow> ansible_run \<Rightarrow> recipe_choice list \<Rightarrow> string option \<Rightarrow> failure option
     \<Rightarrow> history \<Rightarrow> (failure, unit) result \<times> history" where
  "finish_all w codec clk b run [] snapshot cleanup_error h = (Inr (), h)"
| "finish_all w codec clk b run (c # cs) snapshot cleanup_error h =
     chain (finish_recipe_success w codec clk b (run\<lparr>ar_recipe := ch_id c\<rparr>) (ch_capabilities c)
              (if cs = [] then snapshot else None) (if cs = [] then cleanup_error else None))
       (\<lambda>_. finish_all w codec clk b run cs snapshot cleanup_error) h"

definition all_capabilities :: "recipe_choice list \<Rightarrow> string list" where
  "all_capabilities selected = sort (remdups (concat (map ch_capabilities selected)))"

text \<open>\<open>outcome\<close>: what Ansible came to after the conversation up to then.\<close>

definition apply_with_snapshot ::
  "world \<Rightarrow> meta_codec \<Rightarrow> clocks \<Rightarrow> string \<Rightarrow> bool \<Rightarrow> (history \<Rightarrow> (failure, ansible_run \<times> failure option) result)
     \<Rightarrow> box_record \<Rightarrow> ansible_run \<Rightarrow> recipe_choice list \<Rightarrow> history \<Rightarrow> (failure, unit) result \<times> history" where
  "apply_with_snapshot w codec clk policy rollback outcome b planned selected h =
     (case create_recipe_snapshot w clk policy b planned h of
        (Inl e, h1) \<Rightarrow>
          finish_recipe_failure w codec clk b planned (all_capabilities selected) e None False h1
      | (Inr snapshot, h1) \<Rightarrow>
          (case outcome h1 of
             Inl e \<Rightarrow> finish_recipe_failure w codec clk b planned (all_capabilities selected) e snapshot rollback h1
           | Inr (run, cleanup_error) \<Rightarrow> finish_all w codec clk b run selected snapshot cleanup_error h1))"

fun choose_recipes :: "recipe_choice list \<Rightarrow> string list \<Rightarrow> (failure, recipe_choice list) result" where
  "choose_recipes catalog [] = Inr []"
| "choose_recipes catalog (r # rs) =
     and_then (ok_or (Message (''recipe not found: '' @ r)) (List.find (\<lambda>c. ch_id c = r) catalog)) (\<lambda>c.
     and_then (choose_recipes catalog rs) (\<lambda>cs. Inr (c # cs)))"

fun join_names :: "string list \<Rightarrow> string" where
  "join_names [] = []"
| "join_names [r] = r"
| "join_names (r # rs) = r @ '', '' @ join_names rs"

definition run_recipe_apply ::
  "world \<Rightarrow> meta_codec \<Rightarrow> clocks \<Rightarrow> string \<Rightarrow> bool \<Rightarrow> (history \<Rightarrow> (failure, ansible_run \<times> failure option) result)
     \<Rightarrow> string \<Rightarrow> string \<Rightarrow> recipe_choice list \<Rightarrow> string list \<Rightarrow> string \<Rightarrow> history \<Rightarrow> (failure, unit) result \<times> history" where
  "run_recipe_apply w codec clk policy rollback outcome repository revision catalog recipes reference =
     chain (pure (choose_recipes catalog recipes)) (\<lambda>selected.
     chain (find_box codec w reference) (\<lambda>b.
       if bx_state b \<noteq> ''running'' then fail (Message (''box '' @ bx_id b @ '' is not running''))
       else apply_with_snapshot w codec clk policy rollback outcome b
              \<lparr>ar_recipe = join_names recipes, ar_box_id = bx_id b, ar_repository = repository, ar_revision = revision\<rparr>
              selected))"

section \<open>What the notes say afterwards\<close>

text \<open>A conversation that ends with the notes of a box read and written back under their digest.\<close>

definition only_notes :: "lxc_config_update \<Rightarrow> bool" where
  "only_notes u \<longleftrightarrow>
     cu_networks u = [] \<and> cu_hostname u = None \<and> cu_memory u = None \<and> cu_swap u = None \<and> cu_cores u = None
     \<and> cu_rootfs u = None \<and> cu_net0 u = None \<and> cu_unprivileged u = None \<and> cu_description u \<noteq> None"

definition notes_call :: "box_record \<Rightarrow> api_call \<Rightarrow> bool" where
  "notes_call b c \<longleftrightarrow> (\<exists>u. c = UpdateLxcConfig (bx_node b) (bx_vmid b) u \<and> only_notes u)"

definition notes_of :: "lxc_config \<Rightarrow> string" where
  "notes_of config = (case lc_description config of Some d \<Rightarrow> d | None \<Rightarrow> [])"

definition written ::
  "meta_codec \<Rightarrow> box_record \<Rightarrow> recipe_provenance \<Rightarrow> string list \<Rightarrow> lxc_config \<Rightarrow> string \<Rightarrow> history \<Rightarrow> bool" where
  "written codec b p capabilities config notes t \<longleftrightarrow>
     recorded_notes codec b p capabilities (notes_of config) = Inr notes
     \<and> (\<exists>s u. t = s @ [(GetLxcConfig (bx_node b) (bx_vmid b), Inr (ConfigIs config)),
                (UpdateLxcConfig (bx_node b) (bx_vmid b) u, Inr Nothing)]
          \<and> cu_digest u = lc_digest config \<and> cu_description u = Some notes)"

lemma written_append: "written codec b p capabilities config notes t \<Longrightarrow> written codec b p capabilities config notes (s @ t)"
  unfolding written_def by (metis append.assoc)

lemma notes_callI [simp]: "notes_call b (UpdateLxcConfig (bx_node b) (bx_vmid b) (notes_update digest notes))"
  by (auto simp: notes_call_def only_notes_def notes_update_def)

text \<open>One turn: what is read, and what is written of it.\<close>

lemma configE:
  assumes "get_lxc_config srv node vmid h = (r, h')"
  obtains (refused) e where "r = Inl e" "h' = h @ [(GetLxcConfig node vmid, srv h (GetLxcConfig node vmid))]"
  | (read) config where "r = Inr config" "h' = h @ [(GetLxcConfig node vmid, Inr (ConfigIs config))]"
proof (cases r)
  case (Inl e)
  then show ?thesis using assms refused by (auto simp: get_lxc_config_def call_def)
next
  case (Inr config)
  then show ?thesis using assms read by (auto simp: get_lxc_config_def call_eq_Inr)
qed

lemma empty_callE:
  assumes "empty_call srv c h = (r, h')"
  obtains (refused) e where "r = Inl e" "h' = h @ [(c, srv h c)]"
  | (accepted) "r = Inr ()" "h' = h @ [(c, Inr Nothing)]"
proof (cases r)
  case (Inl e)
  then show ?thesis using assms refused by (auto simp: empty_call_def call_def)
next
  case (Inr u)
  then show ?thesis using assms accepted by (auto simp: empty_call_def call_eq_Inr)
qed

lemma provenance_loop_run:
  assumes "provenance_loop srv codec b p capabilities n last_error h = (r, h')"
  shows "\<exists>t. h' = h @ t \<and> length (changes t) \<le> n \<and> list_all (notes_call b) (changes t)
     \<and> (r = Inr () \<longrightarrow> (\<exists>config notes. written codec b p capabilities config notes t))"
  using assms
proof (induction n arbitrary: last_error h)
  case 0
  then show ?case by (auto simp: Let_def split: option.splits)
next
  case (Suc n)
  let ?get = "GetLxcConfig (bx_node b) (bx_vmid b)"
  obtain r1 h1 where got: "get_lxc_config srv (bx_node b) (bx_vmid b) h = (r1, h1)" by fastforce
  have later: "\<exists>t. h' = h @ t \<and> length (changes t) \<le> Suc n \<and> list_all (notes_call b) (changes t)
       \<and> (r = Inr () \<longrightarrow> (\<exists>config notes. written codec b p capabilities config notes t))"
    if "provenance_loop srv codec b p capabilities n last (h @ s) = (r, h')" "length (changes s) \<le> 1"
       "list_all (notes_call b) (changes s)" for last s
  proof -
    from Suc.IH[OF that(1)] obtain t where "h' = (h @ s) @ t" "length (changes t) \<le> n" "list_all (notes_call b) (changes t)"
      "r = Inr () \<longrightarrow> (\<exists>config notes. written codec b p capabilities config notes t)" by blast
    then show ?thesis using that(2,3) written_append by (intro exI[of _ "s @ t"]) fastforce
  qed
  from got show ?case
  proof (cases rule: configE)
    case (refused e)
    then show ?thesis using Suc.prems got later[of _ "[(?get, srv h ?get)]"] by simp
  next
    case (read config)
    show ?thesis
    proof (cases "recorded_notes codec b p capabilities (notes_of config)")
      case (Inl e)
      then show ?thesis using Suc.prems got read
        by (intro exI[of _ "[(?get, Inr (ConfigIs config))]"]) (auto simp: notes_of_def)
    next
      case (Inr out)
      let ?put = "UpdateLxcConfig (bx_node b) (bx_vmid b) (notes_update (lc_digest config) out)"
      obtain r2 h2 where put: "empty_call srv ?put h1 = (r2, h2)" by fastforce
      then show ?thesis
      proof (cases rule: empty_callE)
        case (refused e)
        then show ?thesis
          using Suc.prems got read Inr put later[of _ "[(?get, Inr (ConfigIs config)), (?put, srv h1 ?put)]"]
          by (simp add: notes_of_def)
      next
        case accepted
        then have "r = Inr ()" "h' = h @ [(?get, Inr (ConfigIs config)), (?put, Inr Nothing)]"
          using Suc.prems got read Inr put by (simp_all add: notes_of_def)
        moreover have "written codec b p capabilities config out [(?get, Inr (ConfigIs config)), (?put, Inr Nothing)]"
          using Inr by (simp add: written_def notes_update_def)
        ultimately show ?thesis
          by (intro exI[of _ "[(?get, Inr (ConfigIs config)), (?put, Inr Nothing)]"]) auto
      qed
    qed
  qed
qed

text \<open>The new entry and all the others.\<close>

lemma put_provenance_set:
  "{q \<in> set (put_provenance p qs). rp_id q \<noteq> rp_id p} = {q \<in> set qs. rp_id q \<noteq> rp_id p}" "p \<in> set (put_provenance p qs)"
  by (induction qs) auto

lemma recorded_facts:
  "pm_id (recorded p cs m) = pm_id m" "pm_vmid (recorded p cs m) = pm_vmid m" "pm_node (recorded p cs m) = pm_node m"
  "p \<in> set (pm_recipes (recorded p cs m))" "sorted (map rp_id (pm_recipes (recorded p cs m)))"
  "{q \<in> set (pm_recipes (recorded p cs m)). rp_id q \<noteq> rp_id p} = {q \<in> set (pm_recipes m). rp_id q \<noteq> rp_id p}"
  using put_provenance_set by (simp_all add: recorded_def)

lemma parse_metadata_cases:
  obtains (none) "spans = []" | (one) x where "spans = [x]" | (more) x y xs where "spans = x # y # xs"
  by (metis neq_Nil_conv)

lemma recorded_notes_parse:
  assumes "recorded_notes codec b p cs notes = Inr out"
  obtains m where "parse_metadata codec notes = Inr (Some m)" "pm_id m = bx_id b" "pm_vmid m = bx_vmid b"
    "codec_ok codec (recorded p cs m) \<Longrightarrow> parse_metadata codec out = Inr (Some (recorded p cs m))"
proof -
  obtain m where m: "parse_metadata codec notes = Inr (Some m)" "pm_id m = bx_id b" "pm_vmid m = bx_vmid b"
      "preserve_metadata codec notes (recorded p cs m) = Inr out"
    using assms by (auto simp: recorded_notes_def res_simps split: if_splits)
  obtain spans where spans: "marker_spans notes = Inr spans" "length spans \<le> 1"
  proof (cases "marker_spans notes")
    case (Inr spans)
    then show ?thesis using m(1) that by (cases spans rule: parse_metadata_cases) (auto simp: parse_metadata_def)
  qed (use m(1) in \<open>simp add: parse_metadata_def\<close>)
  have "codec_ok codec (recorded p cs m) \<Longrightarrow> parse_metadata codec out = Inr (Some (recorded p cs m))"
    using preserve_parse[OF _ spans] m(4) by fastforce
  with m that show ?thesis by blast
qed


text \<open>A box whose notes are recorded: the server answers with what a guest's notes hold.\<close>

definition noting_server :: server where
  "noting_server h c =
     (case c of
        GetLxcConfig node vmid \<Rightarrow> Inr (ConfigIs \<lparr>lc_digest = Some ''d'', lc_description = Some (marker_of ''x''),
            lc_hostname = None, lc_lock = None, lc_extra = []\<rparr>)
      | UpdateLxcConfig node vmid u \<Rightarrow> if length h < 2 then Inl (Http 1 []) else Inr Nothing
      | _ \<Rightarrow> Inl (Unsupported []))"

definition still_clocks :: clocks where
  "still_clocks = \<lparr>ck_nanos = (\<lambda>_. Inr 7), ck_timestamp = (\<lambda>_. Inr ''t'')\<rparr>"

definition example_run :: ansible_run where
  "example_run = \<lparr>ar_recipe = ''r'', ar_box_id = ''pbx_00000000'', ar_repository = ''u'', ar_revision = ''v''\<rparr>"

definition noted_codec :: meta_codec where
  "noted_codec =
     \<lparr>to_json = (\<lambda>m. Some (if pm_recipes m = [] then ''x'' else ''y'')),
      from_json = (\<lambda>j. Some (if j = ''x'' then metadata_new ''pbx_00000000'' 5
                   else recorded (provenance_of example_run ''t'' ''failed'') [] (metadata_new ''pbx_00000000'' 5))),
      b64_encode = (\<lambda>s. s), b64_decode = Some\<rparr>"

definition noted_box :: box_record where
  "noted_box = \<lparr>bx_image = None, bx_id = ''pbx_00000000'', bx_vmid = 5, bx_state = ''running'', bx_node = ''n'',
     bx_ip = None, bx_ipv6 = None, bx_name = None, bx_recipes = [], bx_capabilities = []\<rparr>"

lemma noting_run:
  "fst (record_recipe_provenance (quiet_world noting_server) noted_codec still_clocks noted_box example_run [] ''failed'' [])
     = Inr ()"
  by code_simp


section \<open>The way back\<close>

lemma list_notes_changes: "list_all (notes_call b) cs \<Longrightarrow> \<forall>c \<in> set cs. notes_call b c"
  by (simp add: list_all_iff)

lemma record_run:
  assumes "record_recipe_provenance w codec clk b run capabilities outcome h = (r, h')"
  obtains t where "h' = h @ t" "list_all (notes_call b) (changes t)" "length (changes t) \<le> 3"
  using assms by (auto simp: record_recipe_provenance_def split: sum.splits dest!: provenance_loop_run intro: that[of "[]"])

text \<open>
  What undoing asks for: nothing without a request to roll back; else the rollback, and the
  deletion only once its task has ended successfully.
\<close>

definition undone :: "box_record \<Rightarrow> string \<Rightarrow> history \<Rightarrow> bool" where
  "undone b name t \<longleftrightarrow>
     changes t = [rollback_call b name]
     \<or> (\<exists>upid s a u. t = (rollback_call b name, Inr (TaskIs upid)) # s @ (delete_snapshot_call b name, a) # u
          \<and> task_done (bx_node b) upid s \<and> changes s = [] \<and> changes u = [])"

lemma undo_with_rollback:
  assumes "undo_recipe w b (Some name) True e h = (e', h')"
  obtains t where "h' = h @ t" "undone b name t"
proof -
  obtain r1 h1 where rolled: "rollback_recipe_snapshot w b name h = (r1, h1)" by fastforce
  then obtain t where t: "h1 = h @ (rollback_call b name, w_server w h (rollback_call b name)) # t" "changes t = []"
      "r1 = Inr () \<Longrightarrow> \<exists>upid. w_server w h (rollback_call b name) = Inr (TaskIs upid) \<and> task_done (bx_node b) upid t"
    unfolding rollback_recipe_snapshot_def by (rule run_taskE) blast
  show ?thesis
  proof (cases r1)
    case (Inl x)
    then have "h' = h1" using assms rolled by (simp add: undo_recipe_def)
    then show ?thesis using t that[of "(rollback_call b name, w_server w h (rollback_call b name)) # t"]
      by (auto simp: undone_def)
  next
    case (Inr u)
    then obtain upid where upid: "w_server w h (rollback_call b name) = Inr (TaskIs upid)" "task_done (bx_node b) upid t"
      using t(3) by auto
    obtain r2 h2 where deleted: "delete_recipe_snapshot w b name h1 = (r2, h2)" by fastforce
    then obtain t2 where t2: "h2 = h1 @ (delete_snapshot_call b name, w_server w h1 (delete_snapshot_call b name)) # t2"
        "changes t2 = []"
      unfolding delete_recipe_snapshot_def by (rule run_taskE) blast
    have "h' = h2" using assms rolled Inr deleted by (auto simp: undo_recipe_def split: sum.splits)
    then show ?thesis
      using t t2 upid
      by (intro that[of "(rollback_call b name, Inr (TaskIs upid)) # t
            @ (delete_snapshot_call b name, w_server w h1 (delete_snapshot_call b name)) # t2"])
        (auto simp: undone_def)
  qed
qed

text \<open>A snapshot that was taken: its task ended successfully.\<close>

definition taken :: "box_record \<Rightarrow> string \<Rightarrow> history \<Rightarrow> history \<Rightarrow> bool" where
  "taken b name h h1 \<longleftrightarrow>
     (\<exists>description upid s. h1 = h @ (create_snapshot_call b name description, Inr (TaskIs upid)) # s
        \<and> changes s = [] \<and> task_done (bx_node b) upid s)"

lemma await_taken:
  assumes "await_recipe_snapshot w policy b name upid h = (Inr (Some name'), h1)"
  shows "name' = name \<and> (\<exists>s. h1 = h @ s \<and> changes s = [] \<and> task_done (bx_node b) upid s)"
proof -
  obtain r0 h0 where waited: "wait_for_task w (bx_node b) upid h = (r0, h0)" by fastforce
  then obtain u where "r0 = Inr u" "name' = name" "h0 = h1"
    using assms by (cases r0)
      (auto simp: await_recipe_snapshot_def cleanup_failed_recipe_snapshot_def split: if_splits prod.splits sum.splits)
  then show ?thesis using wait_for_task_done[of w "bx_node b" upid h h1] waited by simp
qed

lemma request_taken:
  assumes "request_recipe_snapshot w policy b name description h = (Inr (Some name'), h1)"
  shows "taken b name' h h1"
proof -
  obtain r0 h0 where asked: "task (w_server w) (create_snapshot_call b name (Some description)) h = (r0, h0)" by fastforce
  then show ?thesis
  proof (cases rule: taskE)
    case (refused e)
    then show ?thesis using assms asked
      by (auto simp: request_recipe_snapshot_def cleanup_failed_recipe_snapshot_def split: if_splits prod.splits sum.splits)
  next
    case (started upid)
    then have "await_recipe_snapshot w policy b name upid h0 = (Inr (Some name'), h1)"
      using assms asked by (simp add: request_recipe_snapshot_def)
    with started await_taken[of w policy b name upid h0 name' h1] show ?thesis by (auto simp: taken_def)
  qed
qed

lemma create_recipe_snapshot_taken:
  "create_recipe_snapshot w clk policy b run h = (Inr (Some name), h1) \<Longrightarrow> taken b name h h1"
  by (auto simp: create_recipe_snapshot_def split: if_splits sum.splits intro: request_taken)

lemma undo_run:
  assumes "undo_recipe w b (Some name) rollback e h = (e', h')"
  shows "\<exists>t. h' = h @ t \<and> (if rollback then undone b name t else t = [])"
  using assms undo_with_rollback by (cases rollback) (fastforce simp: undo_recipe_def)+

text \<open>Recording successes: each recipe in turn, and the snapshot goes last.\<close>

definition recorded_in :: "meta_codec \<Rightarrow> box_record \<Rightarrow> recipe_choice \<Rightarrow> history \<Rightarrow> bool" where
  "recorded_in codec b c t \<longleftrightarrow>
     (\<exists>s u p config notes. t = s @ u \<and> written codec b p (ch_capabilities c) config notes s
        \<and> rp_id p = ch_id c \<and> rp_result p = Some ''success'')"

lemma recorded_in_append: "recorded_in codec b c t \<Longrightarrow> recorded_in codec b c (s @ t @ u)"
  unfolding recorded_in_def using written_append by (metis append.assoc)

lemma record_success_run:
  assumes "record_recipe_provenance w codec clk b (run\<lparr>ar_recipe := ch_id c\<rparr>) (ch_capabilities c) ''success'' h = (r, h')"
  obtains t where "h' = h @ t" "list_all (notes_call b) (changes t)" "r = Inr () \<Longrightarrow> recorded_in codec b c t"
proof (cases "ck_timestamp clk h")
  case (Inl e)
  then show ?thesis using assms by (intro that[of "[]"]) (auto simp: record_recipe_provenance_def)
next
  case (Inr timestamp)
  let ?p = "provenance_of (run\<lparr>ar_recipe := ch_id c\<rparr>) timestamp ''success''"
  have "provenance_loop (w_server w) codec b ?p (ch_capabilities c) 3 None h = (r, h')"
    using assms Inr by (simp add: record_recipe_provenance_def)
  from provenance_loop_run[OF this] obtain t where t: "h' = h @ t" "list_all (notes_call b) (changes t)"
      "r = Inr () \<longrightarrow> (\<exists>config notes. written codec b ?p (ch_capabilities c) config notes t)" by blast
  have "recorded_in codec b c t" if "r = Inr ()"
    using t(3) that unfolding recorded_in_def
    by (intro exI[of _ t] exI[of _ "[]"] exI[of _ ?p]) (auto simp: provenance_of_def)
  with t that show ?thesis by blast
qed

text \<open>The writes of a successful run, and at its end the deletion or nothing.\<close>

definition run_changes :: "meta_codec \<Rightarrow> box_record \<Rightarrow> recipe_choice list \<Rightarrow> string option \<Rightarrow> history \<Rightarrow> bool" where
  "run_changes codec b selected snapshot t \<longleftrightarrow>
     (\<exists>ups. list_all (notes_call b) ups
        \<and> (changes t = ups
           \<or> (\<exists>name. snapshot = Some name \<and> changes t = ups @ [delete_snapshot_call b name]
                \<and> (\<forall>c \<in> set selected. recorded_in codec b c t))))"

lemma finish_success_run:
  assumes "finish_recipe_success w codec clk b (run\<lparr>ar_recipe := ch_id c\<rparr>) (ch_capabilities c) snapshot cleanup h = (r, h')"
  obtains t where "h' = h @ t" "run_changes codec b [c] snapshot t" "r = Inr () \<Longrightarrow> recorded_in codec b c t"
proof -
  obtain r0 h0 where noted: "record_recipe_provenance w codec clk b (run\<lparr>ar_recipe := ch_id c\<rparr>) (ch_capabilities c) ''success'' h = (r0, h0)"
    by fastforce
  then obtain t where t: "h0 = h @ t" "list_all (notes_call b) (changes t)" "r0 = Inr () \<Longrightarrow> recorded_in codec b c t"
    by (rule record_success_run) blast
  have quiet: "run_changes codec b [c] snapshot t" using t(2) by (auto simp: run_changes_def)
  show ?thesis
  proof (cases "r0 = Inr () \<and> snapshot \<noteq> None")
    case False
    then have "h' = h0" "r = Inr () \<Longrightarrow> r0 = Inr ()"
      using assms noted by (cases r0; auto simp: finish_recipe_success_def Let_def split: option.splits)+
    then show ?thesis using t quiet that by blast
  next
    case True
    then obtain name where name: "snapshot = Some name" "r0 = Inr ()" by blast
    obtain r1 h1 where deleted: "delete_recipe_snapshot w b name h0 = (r1, h1)" by fastforce
    then obtain t1 where t1: "h1 = h0 @ (delete_snapshot_call b name, w_server w h0 (delete_snapshot_call b name)) # t1"
        "changes t1 = []"
      unfolding delete_recipe_snapshot_def by (rule run_taskE) blast
    have "h' = h1"
      using assms noted name deleted by (auto simp: finish_recipe_success_def split: option.splits sum.splits)
    moreover have "recorded_in codec b c (t @ (delete_snapshot_call b name, w_server w h0 (delete_snapshot_call b name)) # t1)"
      using recorded_in_append[OF t(3)[OF name(2)], of "[]"] by simp
    ultimately show ?thesis
      using t t1 name by (intro that) (auto simp: run_changes_def)
  qed
qed

lemma run_changes_notes: "run_changes codec b [c] None t \<Longrightarrow> list_all (notes_call b) (changes t)"
  by (auto simp: run_changes_def)

lemma finish_all_run:
  "finish_all w codec clk b run selected snapshot cleanup h = (r, h') \<Longrightarrow>
     \<exists>t. h' = h @ t \<and> run_changes codec b selected snapshot t"
proof (induction selected arbitrary: h)
  case Nil
  then show ?case by (auto simp: run_changes_def intro!: exI[of _ "[]"])
next
  case (Cons c cs)
  obtain r0 h0 where first: "finish_recipe_success w codec clk b (run\<lparr>ar_recipe := ch_id c\<rparr>) (ch_capabilities c)
      (if cs = [] then snapshot else None) (if cs = [] then cleanup else None) h = (r0, h0)" by fastforce
  then obtain t where t: "h0 = h @ t" "run_changes codec b [c] (if cs = [] then snapshot else None) t"
      "r0 = Inr () \<Longrightarrow> recorded_in codec b c t" by (rule finish_success_run) blast
  show ?case
  proof (cases "cs = [] \<or> (\<exists>e. r0 = Inl e)")
    case True
    then have "h' = h0" using Cons.prems first by (cases r0) (auto simp: chain_def split: if_splits)
    moreover have "run_changes codec b (c # cs) snapshot t"
      using True t by (cases "cs = []") (auto simp: run_changes_def)
    ultimately show ?thesis using t(1) by blast
  next
    case False
    then have ok: "r0 = Inr ()" "cs \<noteq> []" by (cases r0; simp)+
    then have "finish_all w codec clk b run cs snapshot cleanup h0 = (r, h')"
      using Cons.prems first by (simp add: chain_def)
    from Cons.IH[OF this] obtain u where u: "h' = h0 @ u" "run_changes codec b cs snapshot u" by blast
    have noted: "list_all (notes_call b) (changes t)" using t(2) ok(2) run_changes_notes by simp
    obtain ups where ups: "list_all (notes_call b) ups"
        "changes u = ups \<or> (\<exists>name. snapshot = Some name \<and> changes u = ups @ [delete_snapshot_call b name]
                \<and> (\<forall>c \<in> set cs. recorded_in codec b c u))"
      using u(2) by (auto simp: run_changes_def)
    have "recorded_in codec b c (t @ u)" using recorded_in_append[OF t(3)[OF ok(1)], of "[]" u] by simp
    moreover have "recorded_in codec b d u \<Longrightarrow> recorded_in codec b d (t @ u)" for d
      using recorded_in_append[of codec b d u t "[]"] by simp
    ultimately have "run_changes codec b (c # cs) snapshot (t @ u)"
      using ups noted unfolding run_changes_def by (intro exI[of _ "changes t @ ups"]) auto
    then show ?thesis using t(1) u(1) by (intro exI[of _ "t @ u"]) simp
  qed
qed

text \<open>
  C29: Once a snapshot was taken before a run, it stays the way back. When the recipes fail,
  it is rolled back to only if that was asked for, and deleted only after the rollback's task
  has ended successfully; without such a request nothing but the notes is changed. When they
  succeed, it is deleted last, and only after every recipe was recorded as successful in the
  notes of the box.
\<close>

theorem snapshot_is_the_way_back:
  assumes "create_recipe_snapshot w clk policy b planned h = (Inr (Some name), h1)"
    and "apply_with_snapshot w codec clk policy rollback outcome b planned selected h = (r, h')"
  shows "taken b name h h1
     \<and> (case outcome h1 of
          Inl e \<Rightarrow> (\<exists>t u. h' = h1 @ t @ u \<and> (\<exists>e'. r = Inl e') \<and> list_all (notes_call b) (changes u)
                  \<and> (if rollback then undone b name t else t = []))
        | Inr (run, cleanup) \<Rightarrow> (\<exists>t. h' = h1 @ t \<and> run_changes codec b selected (Some name) t))"
proof (cases "outcome h1")
  case (Inr x)
  then show ?thesis
    using assms create_recipe_snapshot_taken[OF assms(1)] finish_all_run
    by (cases x) (auto simp: apply_with_snapshot_def)
next
  case (Inl e)
  obtain e1 h2 where undo: "undo_recipe w b (Some name) rollback e h1 = (e1, h2)" by fastforce
  then obtain t where t: "h2 = h1 @ t" "if rollback then undone b name t else t = []" using undo_run by blast
  obtain r3 h3 where noted: "record_recipe_provenance w codec clk b planned (all_capabilities selected) ''failed'' h2 = (r3, h3)"
    by fastforce
  then obtain u where u: "h3 = h2 @ u" "list_all (notes_call b) (changes u)" by (rule record_run)
  have "h' = h3" "\<exists>e'. r = Inl e'"
    using assms Inl undo noted
    by (cases r3; auto simp: apply_with_snapshot_def finish_recipe_failure_def)+
  moreover have "h3 = h1 @ t @ u" using t(1) u(1) by simp
  ultimately have "\<exists>t u. h' = h1 @ t @ u \<and> (\<exists>e'. r = Inl e') \<and> list_all (notes_call b) (changes u)
      \<and> (if rollback then undone b name t else t = [])"
    using t(2) u(2) by blast
  then show ?thesis using Inl create_recipe_snapshot_taken[OF assms(1)] by simp
qed

text \<open>A server that does what it is asked, and a run that fails.\<close>

definition willing_server :: server where
  "willing_server h c =
     (case c of
        GetTaskStatus node upid \<Rightarrow> Inr (StatusIs \<lparr>ts_status = ''stopped'', ts_exitstatus = Some ''OK''\<rparr>)
      | GetLxcConfig node vmid \<Rightarrow> Inr (ConfigIs \<lparr>lc_digest = None, lc_description = Some (marker_of ''x''),
            lc_hostname = None, lc_lock = None, lc_extra = []\<rparr>)
      | UpdateLxcConfig node vmid u \<Rightarrow> Inr Nothing
      | _ \<Rightarrow> Inr (TaskIs ''u''))"

lemma willing_run:
  "fst (create_recipe_snapshot (quiet_world willing_server) still_clocks ''auto'' noted_box example_run []) = Inr (Some ''pbox-7'')"
  by code_simp

theorem snapshot_is_the_way_back_witness:
  "\<exists>h1 h' t u. create_recipe_snapshot (quiet_world willing_server) still_clocks ''auto'' noted_box example_run []
        = (Inr (Some ''pbox-7''), h1)
     \<and> snd (apply_with_snapshot (quiet_world willing_server) noted_codec still_clocks ''auto'' True
             (\<lambda>_. Inl (Message ''failed'')) noted_box example_run [] []) = h1 @ t @ u
     \<and> undone noted_box ''pbox-7'' t"
proof -
  obtain h1 where created: "create_recipe_snapshot (quiet_world willing_server) still_clocks ''auto'' noted_box example_run []
      = (Inr (Some ''pbox-7''), h1)"
    using willing_run by (metis prod.collapse)
  obtain r h' where run: "apply_with_snapshot (quiet_world willing_server) noted_codec still_clocks ''auto'' True
      (\<lambda>_. Inl (Message ''failed'')) noted_box example_run [] [] = (r, h')" by fastforce
  from snapshot_is_the_way_back[OF created run] created run show ?thesis by auto
qed

end
