(* ===== verification/FileTrees.thy ===== *)
theory FileTrees
  imports Utf8 "HOL-Library.List_Lexorder"
begin

text \<open>
  Directory trees with symbolic links, for the code that walks a checkout: how the kernel
  resolves a path (\<open>symlink_metadata\<close>, \<open>metadata\<close>, \<open>canonicalize\<close>), how
  \<open>std::path\<close> splits one, and file names that need not be UTF-8. A tree is a snapshot;
  names of files are bytes.
\<close>

section \<open>Trees\<close>

text \<open>
  A regular file with its text, when it can be read as text; a symbolic link with its target;
  a device, pipe or socket; a directory, with whether it may be listed, and its entries in the
  order the system lists them.
\<close>

datatype tree =
    Regular "string option"
  | Link string
  | Special
  | Folder bool "(string \<times> tree) list"

type_synonym segments = "string list"

datatype walk_error = NotFound | NotADirectory | TooManyLinks

definition child :: "tree \<Rightarrow> string \<Rightarrow> (walk_error, tree) result" where
  "child t name =
     (case t of Folder _ entries \<Rightarrow> ok_or NotFound (map_of entries name) | _ \<Rightarrow> Inl NotADirectory)"

fun node_at :: "tree \<Rightarrow> segments \<Rightarrow> tree option" where
  "node_at t [] = Some t"
| "node_at t (c # cs) = (case child t c of Inr s \<Rightarrow> node_at s cs | Inl _ \<Rightarrow> None)"

section \<open>Paths\<close>

text \<open>
  The segments the kernel resolves: empty ones are skipped, and a final slash asks for a
  directory, as a final dot does.
\<close>

definition segments :: "string \<Rightarrow> segments" where
  "segments s =
     filter (\<lambda>c. c \<noteq> []) (split_char CHR ''/'' s)
     @ (if s \<noteq> [] \<and> last s = CHR ''/'' then [''.''] else [])"

text \<open>\<open>Path::components\<close> of a relative path: only a leading dot is kept.\<close>

definition components :: "string \<Rightarrow> segments" where
  "components s =
     (case filter (\<lambda>c. c \<noteq> []) (split_char CHR ''/'' s) of
        [] \<Rightarrow> []
      | c # cs \<Rightarrow> c # filter (\<lambda>c. c \<noteq> ''.'') cs)"

text \<open>
  Resolving with symbolic links, of which the kernel follows so many: where it has got to,
  and what is left of the path.
\<close>

function resolve :: "nat \<Rightarrow> tree \<Rightarrow> segments \<Rightarrow> segments \<Rightarrow> (walk_error, segments) result" where
  "resolve n disk here [] = Inr here"
| "resolve n disk here (c # rest) =
     (case node_at disk here of
        Some (Folder listed entries) \<Rightarrow>
          if c = ''.'' then resolve n disk here rest
          else if c = ''..'' then resolve n disk (butlast here) rest
          else (case map_of entries c of
                  None \<Rightarrow> Inl NotFound
                | Some (Link target) \<Rightarrow>
                    if n = 0 then Inl TooManyLinks
                    else resolve (n - 1) disk (if starts_with target ''/'' then [] else here)
                           (segments target @ rest)
                | Some _ \<Rightarrow> resolve n disk (here @ [c]) rest)
      | _ \<Rightarrow> Inl NotADirectory)"
  by pat_completeness auto
termination
  by (relation "inv_image (less_than <*lex*> less_than) (\<lambda>(n, disk, here, rest). (n, length rest))") auto

definition LINK_LIMIT :: nat where "LINK_LIMIT = 40"

text \<open>\<open>canonicalize\<close>, \<open>metadata\<close> and \<open>symlink_metadata\<close> of an absolute path.\<close>

definition canonicalize :: "tree \<Rightarrow> segments \<Rightarrow> (walk_error, segments) result" where
  "canonicalize disk path = resolve LINK_LIMIT disk [] path"

definition metadata :: "tree \<Rightarrow> segments \<Rightarrow> (walk_error, tree) result" where
  "metadata disk path =
     and_then (canonicalize disk path) (\<lambda>here. ok_or NotFound (node_at disk here))"

definition symlink_metadata :: "tree \<Rightarrow> segments \<Rightarrow> (walk_error, tree) result" where
  "symlink_metadata disk path =
     (if path = [] \<or> last path \<in> {''.'', ''..''} then metadata disk path
      else and_then (metadata disk (butlast path)) (\<lambda>d. child d (last path)))"

definition is_dir :: "tree \<Rightarrow> segments \<Rightarrow> bool" where
  "is_dir disk path = (case metadata disk path of Inr (Folder _ _) \<Rightarrow> True | _ \<Rightarrow> False)"

definition is_file :: "tree \<Rightarrow> segments \<Rightarrow> bool" where
  "is_file disk path = (case metadata disk path of Inr (Regular _) \<Rightarrow> True | _ \<Rightarrow> False)"

section \<open>Names that are not text\<close>

text \<open>How long the well-formed character at the front is, or how much to skip when there is none.\<close>

definition utf8_width :: "nat \<Rightarrow> nat" where
  "utf8_width a =
     (if a < 0x80 then 1 else if 0xC2 \<le> a \<and> a \<le> 0xDF then 2
      else if 0xE0 \<le> a \<and> a \<le> 0xEF then 3 else if 0xF0 \<le> a \<and> a \<le> 0xF4 then 4 else 0)"

definition second_byte :: "nat \<Rightarrow> nat \<Rightarrow> bool" where
  "second_byte a b \<longleftrightarrow>
     (if a = 0xE0 then 0xA0 else if a = 0xF0 then 0x90 else 0x80) \<le> b
     \<and> b \<le> (if a = 0xED then 0x9F else if a = 0xF4 then 0x8F else 0xBF)"

definition byte_is :: "(nat \<Rightarrow> bool) \<Rightarrow> string \<Rightarrow> nat \<Rightarrow> bool" where
  "byte_is P s i \<longleftrightarrow> i < length s \<and> P (byte (s ! i))"

definition well_formed_bytes :: "string \<Rightarrow> nat" where
  "well_formed_bytes s =
     (let a = byte (hd s); rest = (\<lambda>b. 0x80 \<le> b \<and> b \<le> 0xBF) in
      if utf8_width a \<le> 1 then 1
      else if \<not> byte_is (second_byte a) s 1 then 1
      else if utf8_width a = 2 then 2
      else if \<not> byte_is rest s 2 then 2
      else if utf8_width a = 3 then 3
      else if \<not> byte_is rest s 3 then 3
      else 4)"

lemma well_formed_bytes_pos: "0 < well_formed_bytes s"
  by (simp add: well_formed_bytes_def Let_def)

function utf8_chunks :: "string \<Rightarrow> (bool \<times> string) list" where
  "utf8_chunks s =
     (if s = [] then []
      else let n = well_formed_bytes s
           in (n = utf8_width (byte (hd s)), take n s) # utf8_chunks (drop n s))"
  by pat_completeness auto
termination
  by (relation "measure length") (auto simp: well_formed_bytes_pos)

declare utf8_chunks.simps [simp del]

text \<open>\<open>str::from_utf8\<close> and \<open>to_string_lossy\<close>.\<close>

definition is_utf8 :: "string \<Rightarrow> bool" where
  "is_utf8 s \<longleftrightarrow> list_all fst (utf8_chunks s)"

definition to_string_lossy :: "string \<Rightarrow> string" where
  "to_string_lossy s =
     concat (map (\<lambda>(ok, chunk). if ok then chunk else [CHR 0xEF, CHR 0xBF, CHR 0xBD]) (utf8_chunks s))"

lemma lossy_utf8: "is_utf8 s \<Longrightarrow> to_string_lossy s = s"
proof (induction s rule: utf8_chunks.induct)
  case (1 s)
  show ?case
  proof (cases "s = []")
    case True
    then show ?thesis by (simp add: to_string_lossy_def utf8_chunks.simps)
  next
    case False
    define n where "n = well_formed_bytes s"
    have chunks: "utf8_chunks s = (n = utf8_width (byte (hd s)), take n s) # utf8_chunks (drop n s)"
      using False by (subst utf8_chunks.simps) (simp add: Let_def n_def)
    have "n = utf8_width (byte (hd s)) \<and> is_utf8 (drop n s)"
      using 1(2) unfolding is_utf8_def chunks list.pred_inject fst_conv .
    then have ok: "n = utf8_width (byte (hd s))" "is_utf8 (drop n s)" by blast+
    have "to_string_lossy (drop n s) = drop n s"
      using 1(1)[OF False n_def ok(2)] .
    then show ?thesis using ok(1) chunks by (simp add: to_string_lossy_def)
  qed
qed

section \<open>Walking without links\<close>

text \<open>What a path of components names when no link is followed.\<close>

fun descend :: "tree \<Rightarrow> segments \<Rightarrow> tree option" where
  "descend t [] = Some t"
| "descend t (c # cs) =
     (case t of
        Folder listed entries \<Rightarrow>
          if c = ''.'' then descend t cs
          else (case map_of entries c of
                  None \<Rightarrow> None
                | Some (Link _) \<Rightarrow> None
                | Some s \<Rightarrow> descend s cs)
      | _ \<Rightarrow> None)"

lemma node_at_append: "node_at t (p @ q) = (case node_at t p of None \<Rightarrow> None | Some s \<Rightarrow> node_at s q)"
  by (induction t p rule: node_at.induct) (auto split: sum.splits)

lemma descend_append: "descend t (p @ q) = (case descend t p of None \<Rightarrow> None | Some s \<Rightarrow> descend s q)"
  by (induction t p rule: descend.induct) (auto split: tree.splits option.splits)

text \<open>After a path that resolves, what follows is resolved from there with the links that are left.\<close>

lemma resolve_then:
  "resolve n disk here p = Inr h \<Longrightarrow>
     \<exists>m. \<forall>q. resolve n disk here (p @ q) = resolve m disk h q"
proof (induction n disk here p rule: resolve.induct)
  case (2 n disk here c rest)
  from 2(7) obtain listed entries where dir: "node_at disk here = Some (Folder listed entries)"
    by (auto split: option.splits tree.splits)
  show ?case
  proof (cases "c = ''.'' \<or> c = ''..''")
    case True
    then show ?thesis using 2 dir by (auto split: if_splits)
  next
    case named: False
    with 2(7) dir obtain s where s: "map_of entries c = Some s"
      by (auto split: option.splits)
    show ?thesis
    proof (cases s)
      case (Link target)
      with 2(7) dir named s have n: "n \<noteq> 0" by (auto split: if_splits)
      let ?h = "if starts_with target ''/'' then [] else here"
      from 2(7) dir named s Link n
      have "resolve (n - 1) disk ?h (segments target @ rest) = Inr h" by simp
      then obtain m where "\<forall>q. resolve (n - 1) disk ?h ((segments target @ rest) @ q) = resolve m disk h q"
        using 2(4)[OF dir _ _ _ s Link n] named by auto
      then show ?thesis using dir named s Link n by (intro exI[of _ m]) simp
    qed (use 2 dir named s in auto)
  qed
qed auto

lemma descend_resolves:
  "node_at disk here = Some t \<Longrightarrow> descend t cs = Some s \<Longrightarrow> ''..'' \<notin> set cs \<Longrightarrow>
     \<exists>h. resolve n disk here cs = Inr h \<and> node_at disk h = Some s"
proof (induction cs arbitrary: t here)
  case (Cons c cs)
  then obtain listed entries where t: "t = Folder listed entries"
    by (auto split: tree.splits)
  show ?case
  proof (cases "c = ''.''")
    case True
    then show ?thesis using Cons t by simp
  next
    case False
    then obtain u where u: "map_of entries c = Some u" "descend u cs = Some s"
      "\<nexists>target. u = Link target"
      using Cons.prems t by (auto split: option.splits tree.splits)
    then have "node_at disk (here @ [c]) = Some u"
      using Cons.prems t by (simp add: node_at_append child_def)
    from Cons.IH[OF this u(2)] Cons.prems t u False show ?thesis
      by (auto split: tree.splits)
  qed
qed simp

text \<open>A path without some of its dots leads to the same place.\<close>

inductive undotted :: "segments \<Rightarrow> segments \<Rightarrow> bool" where
  undotted_Nil: "undotted [] []"
| undotted_dot: "undotted p q \<Longrightarrow> undotted (''.'' # p) q"
| undotted_same: "undotted p q \<Longrightarrow> undotted (c # p) (c # q)"

inductive_cases undotted_NilE: "undotted [] q"
inductive_cases undotted_ConsE: "undotted (c # p) q"

lemma undotted_refl: "undotted p p"
  by (induction p) (auto intro: undotted.intros)

lemma undotted_append: "undotted p q \<Longrightarrow> undotted r s \<Longrightarrow> undotted (p @ r) (q @ s)"
  by (induction rule: undotted.induct) (auto intro: undotted.intros)

lemma undotted_filter: "undotted p (filter (\<lambda>c. c \<noteq> ''.'') p)"
  by (induction p) (auto intro: undotted.intros)

lemma undotted_components: "undotted (segments s) (components s)"
proof -
  let ?parts = "filter (\<lambda>c. c \<noteq> []) (split_char CHR ''/'' s)"
  let ?trail = "if s \<noteq> [] \<and> last s = CHR ''/'' then [''.''] else []"
  have "undotted ?parts (components s)"
  proof (cases ?parts)
    case (Cons c cs)
    then show ?thesis unfolding components_def Cons list.case
      by (intro undotted_same undotted_filter)
  next
    case Nil
    then show ?thesis unfolding components_def Nil list.case by (intro undotted_Nil)
  qed
  moreover have "undotted ?trail []" by (simp add: undotted.intros)
  ultimately have "undotted (?parts @ ?trail) (components s @ [])" by (rule undotted_append)
  then show ?thesis unfolding segments_def by (simp only: append_Nil2)
qed

lemma resolve_undotted:
  "resolve n disk here p = Inr h \<Longrightarrow> undotted p q \<Longrightarrow> resolve n disk here q = Inr h"
proof (induction n disk here p arbitrary: q rule: resolve.induct)
  case (1 n disk here)
  then show ?case by (auto elim: undotted_NilE)
next
  case (2 n disk here c rest)
  from 2(7) obtain listed entries where dir: "node_at disk here = Some (Folder listed entries)"
    by (auto split: option.splits tree.splits)
  from 2(8) consider (dot) "c = ''.''" "undotted rest q"
    | (same) q' where "q = c # q'" "undotted rest q'" by (auto elim: undotted_ConsE)
  then show ?case
  proof cases
    case dot
    with 2(7) dir have "resolve n disk here rest = Inr h" by simp
    then show ?thesis using 2(1)[OF dir refl] dot by blast
  next
    case same
    show ?thesis
    proof (cases "c = ''.'' \<or> c = ''..''")
      case True
      then consider "c = ''.''" "resolve n disk here rest = Inr h"
        | "c = ''..''" "resolve n disk (butlast here) rest = Inr h"
        using 2(7) dir by auto
      then show ?thesis
      proof cases
        case 1
        then show ?thesis using 2(1)[OF dir refl 1 same(2)] dir same(1) by simp
      next
        case dots: 2
        then show ?thesis using 2(2)[OF dir refl _ dots same(2)] dir same(1) by simp
      qed
    next
      case named: False
      with 2(7) dir obtain s where s: "map_of entries c = Some s"
        by (auto split: option.splits)
      show ?thesis
      proof (cases s)
        case (Regular contents)
        with 2(7) dir named s have "resolve n disk (here @ [c]) rest = Inr h" by auto
        then have "resolve n disk (here @ [c]) q' = Inr h"
          using 2(3)[OF dir refl _ _ s Regular _ same(2)] named by blast
        then show ?thesis using dir named s Regular same(1) by simp
      next
        case Special
        with 2(7) dir named s have "resolve n disk (here @ [c]) rest = Inr h" by auto
        then have "resolve n disk (here @ [c]) q' = Inr h"
          using 2(5)[OF dir refl _ _ s Special _ same(2)] named by blast
        then show ?thesis using dir named s Special same(1) by simp
      next
        case (Folder l es)
        with 2(7) dir named s have "resolve n disk (here @ [c]) rest = Inr h" by auto
        then have "resolve n disk (here @ [c]) q' = Inr h"
          using 2(6)[OF dir refl _ _ s Folder _ same(2)] named by blast
        then show ?thesis using dir named s Folder same(1) by simp
      next
        case (Link target)
        with 2(7) dir named s have n: "n \<noteq> 0" by (auto split: if_splits)
        have "undotted (segments target @ rest) (segments target @ q')"
          by (rule undotted_append[OF undotted_refl same(2)])
        then show ?thesis using 2(4)[OF dir _ _ _ s Link n] 2(7) dir named s Link n same by simp
      qed
    qed
  qed
qed

end
