(* ===== verification/Recipes.thy ===== *)
theory Recipes
  imports FileTrees Numbers
begin

text \<open>
  The catalogue of recipes in a checkout (\<open>crates/pbox-cli/src/recipes.rs\<close>): which
  playbooks and roles a directory tree offers, what a manifest adds to them, and the checks
  that keep a recipe inside the repository. Parsing YAML and asking Git for the revision are
  arguments. An error is a message of the code, or an error of the system with its context.
\<close>

section \<open>Data\<close>

datatype recipe_kind = Playbook | Role

record desktop_metadata =
  dm_protocol :: "string option"
  dm_host :: "string option"
  dm_port :: "nat option"

record recipe_metadata =
  rm_description :: "string option"
  rm_requires :: "string list"
  rm_supports :: "string list"
  rm_capabilities :: "string list"
  rm_cores :: "nat option"
  rm_memory :: "nat option"
  rm_disk :: "string option"
  rm_desktop :: "desktop_metadata option"

definition default_metadata :: recipe_metadata where
  "default_metadata =
     \<lparr>rm_description = None, rm_requires = [], rm_supports = [], rm_capabilities = [],
      rm_cores = None, rm_memory = None, rm_disk = None, rm_desktop = None\<rparr>"

record recipe =
  re_id :: string
  re_kind :: recipe_kind
  re_path :: string
  re_metadata :: recipe_metadata

record recipe_catalog =
  ct_repository :: string
  ct_reference :: string
  ct_revision :: string
  ct_recipes :: "recipe list"

record candidate =
  cd_id :: string
  cd_kind :: recipe_kind
  cd_path :: string

record manifest_entry =
  me_path :: "string option"
  me_metadata :: recipe_metadata

type_synonym manifest = "(string \<times> manifest_entry) list"

datatype recipe_error = Bail string | Failed string

text \<open>The checkout being read: the file system and the path of the root in it.\<close>

record checkout =
  co_disk :: tree
  co_root :: segments

definition show_path :: "segments \<Rightarrow> string" where
  "show_path p = concat (map (\<lambda>c. CHR ''/'' # c) p)"

definition path_string :: "segments \<Rightarrow> string" where
  "path_string p = join CHR ''/'' (map to_string_lossy p)"

section \<open>Capabilities\<close>

definition MAX_RECIPE_CAPABILITIES :: nat where "MAX_RECIPE_CAPABILITIES = 32"
definition MAX_RECIPE_CAPABILITY_LENGTH :: nat where "MAX_RECIPE_CAPABILITY_LENGTH = 64"

definition valid_capability :: "string \<Rightarrow> bool" where
  "valid_capability c \<longleftrightarrow>
     c \<noteq> [] \<and> length c \<le> MAX_RECIPE_CAPABILITY_LENGTH
     \<and> list_all (\<lambda>b. is_alnum b \<or> b \<in> {CHR ''-'', CHR ''_'', CHR ''.'', CHR ''/''}) c"

text \<open>The message is given up to the quoted capability.\<close>

definition validate_recipe_capabilities :: "string \<Rightarrow> string list \<Rightarrow> (recipe_error, unit) result" where
  "validate_recipe_capabilities recipe_id capabilities =
     (if length capabilities > MAX_RECIPE_CAPABILITIES
      then Inl (Bail (''recipe '' @ recipe_id @ '' declares more than '' @ show_nat MAX_RECIPE_CAPABILITIES
             @ '' capabilities''))
      else if list_all valid_capability capabilities then Inr ()
      else Inl (Bail (''recipe '' @ recipe_id @ '' has an invalid capability: '')))"

section \<open>File names\<close>

definition extension :: "string \<Rightarrow> string option" where
  "extension name =
     (if name = ''..'' then None
      else case rsplit_once CHR ''.'' name of
             None \<Rightarrow> None
           | Some (before, after) \<Rightarrow> if before = [] then None else Some after)"

definition is_yaml_file :: "segments \<Rightarrow> bool" where
  "is_yaml_file path \<longleftrightarrow>
     path \<noteq> [] \<and> (case extension (last path) of None \<Rightarrow> False | Some e \<Rightarrow> e \<in> {''yml'', ''yaml''})"

definition is_metadata_file :: "segments \<Rightarrow> bool" where
  "is_metadata_file path \<longleftrightarrow> path \<noteq> [] \<and> last path \<in> {''pbox.yml'', ''pbox.yaml''}"

definition is_ansible_support_file :: "segments \<Rightarrow> bool" where
  "is_ansible_support_file path \<longleftrightarrow>
     path \<noteq> [] \<and> last path \<in> {''requirements.yml'', ''requirements.yaml'', ''galaxy.yml''}"

definition is_role_task :: "segments \<Rightarrow> bool" where
  "is_role_task path \<longleftrightarrow>
     length path = 4 \<and> path ! 0 = ''roles'' \<and> path ! 2 = ''tasks'' \<and> path ! 3 \<in> {''main.yml'', ''main.yaml''}"

fun strip_one_suffix :: "string \<Rightarrow> string list \<Rightarrow> string" where
  "strip_one_suffix v [] = v"
| "strip_one_suffix v (x # xs) = (case strip_suffix v x of Some w \<Rightarrow> w | None \<Rightarrow> strip_one_suffix v xs)"

definition playbook_name :: "segments \<Rightarrow> string" where
  "playbook_name relative =
     strip_one_suffix
       (path_string (if relative \<noteq> [] \<and> hd relative = ''playbooks'' then tl relative else relative))
       [''.yaml'', ''.yml'']"

definition playbook_id :: "segments \<Rightarrow> (recipe_error, string) result" where
  "playbook_id relative =
     (if playbook_name relative = []
      then Inl (Bail (''recipe playbook path has no name: '' @ path_string relative))
      else Inr (playbook_name relative))"

section \<open>Candidates\<close>

fun all_results :: "('e, 'a) result list \<Rightarrow> ('e, 'a list) result" where
  "all_results [] = Inr []"
| "all_results (r # rs) = and_then r (\<lambda>x. and_then (all_results rs) (\<lambda>xs. Inr (x # xs)))"

definition file_candidates :: "segments \<Rightarrow> (recipe_error, candidate list) result" where
  "file_candidates relative =
     (if hd relative = ''roles''
      then if is_role_task relative
           then if is_utf8 (relative ! 1)
                then Inr [\<lparr>cd_id = relative ! 1, cd_kind = Role, cd_path = path_string relative\<rparr>]
                else Inl (Bail ''recipe role path is not UTF-8'')
           else Inr []
      else if \<not> is_yaml_file relative \<or> is_metadata_file relative \<or> is_ansible_support_file relative
      then Inr []
      else and_then (playbook_id relative) (\<lambda>i.
        Inr [\<lparr>cd_id = i, cd_kind = Playbook, cd_path = path_string relative\<rparr>]))"

lemma entry_size:
  "(name, s) \<in> set entries \<Longrightarrow> size s < Suc (size_list (size_prod (\<lambda>_. 0) size) entries)"
  by (induction entries) auto

lemma folder_entry_size:
  "(name, Folder l es) \<in> set entries \<Longrightarrow>
     size_list (size_prod (\<lambda>_. 0) size) es < size_list (size_prod (\<lambda>_. 0) size) entries"
  using entry_size[of name "Folder l es" entries] by simp

function collect_candidates ::
  "segments \<Rightarrow> segments \<Rightarrow> tree \<Rightarrow> (recipe_error, candidate list) result" where
  "collect_candidates root relative t =
     (case t of
        Folder listed entries \<Rightarrow>
          if \<not> listed then Inl (Failed (''read recipe directory '' @ show_path (root @ relative)))
          else and_then
            (all_results (map (\<lambda>(name, s).
               case s of
                 Link _ \<Rightarrow> Inr []
               | Folder _ _ \<Rightarrow>
                   if name = ''.git'' then Inr [] else collect_candidates root (relative @ [name]) s
               | Regular _ \<Rightarrow> if name = ''.git'' then Inr [] else file_candidates (relative @ [name])
               | Special \<Rightarrow> Inr [])
              (sort_key fst entries)))
            (\<lambda>found. Inr (concat found))
      | _ \<Rightarrow> Inl (Failed (''read recipe directory '' @ show_path (root @ relative))))"
  by pat_completeness auto
termination
  by (relation "measure (\<lambda>(root, relative, t). size t)") (auto intro: folder_entry_size)

declare collect_candidates.simps [simp del]

section \<open>Paths of the manifest\<close>

text \<open>The path as text; \<open>components\<close> and \<open>segments\<close> read it.\<close>

definition normalise_relative_path :: "string \<Rightarrow> (recipe_error, string) result" where
  "normalise_relative_path v =
     (if starts_with v ''/'' \<or> ''..'' \<in> set (components v)
      then Inl (Bail (''recipe metadata path must stay inside the repository: '' @ v))
      else if trim v = [] then Inl (Bail ''recipe metadata path cannot be empty'')
      else Inr v)"

definition validated_repository_path :: "checkout \<Rightarrow> string \<Rightarrow> (recipe_error, segments) result" where
  "validated_repository_path co relative =
     (if starts_with relative ''/''
      then Inl (Bail (''recipe metadata path must be relative to the repository: '' @ relative))
      else case canonicalize (co_disk co) (co_root co) of
             Inl _ \<Rightarrow> Inl (Failed (''resolve repository '' @ show_path (co_root co)))
           | Inr root \<Rightarrow>
               (case canonicalize (co_disk co) (co_root co @ segments relative) of
                  Inl _ \<Rightarrow> Inl (Failed (''resolve recipe path '' @ show_path (co_root co) @ ''/'' @ relative))
                | Inr candidate \<Rightarrow>
                    if take (length root) candidate \<noteq> root
                    then Inl (Bail (''recipe metadata path escapes the repository: '' @ relative))
                    else Inr (co_root co @ segments relative)))"

fun reject_symlinks :: "tree \<Rightarrow> segments \<Rightarrow> segments \<Rightarrow> (recipe_error, unit) result" where
  "reject_symlinks disk current [] = Inr ()"
| "reject_symlinks disk current (c # cs) =
     (case symlink_metadata disk (current @ [c]) of
        Inr (Link _) \<Rightarrow> Inl (Bail (''recipe path must not contain a symbolic link: '' @ show_path (current @ [c])))
      | Inr _ \<Rightarrow> reject_symlinks disk (current @ [c]) cs
      | Inl NotFound \<Rightarrow> Inr ()
      | Inl _ \<Rightarrow> Inl (Failed (''read recipe path '' @ show_path (current @ [c]))))"

definition reject_symlink_ancestors :: "checkout \<Rightarrow> segments \<Rightarrow> (recipe_error, unit) result" where
  "reject_symlink_ancestors co relative = reject_symlinks (co_disk co) (co_root co) relative"

fun role_task :: "checkout \<Rightarrow> segments \<Rightarrow> string list \<Rightarrow> (recipe_error, bool) result" where
  "role_task co relative [] = Inr False"
| "role_task co relative (name # names) =
     and_then (reject_symlink_ancestors co (relative @ [''tasks'', name])) (\<lambda>_.
       case symlink_metadata (co_disk co) (co_root co @ relative @ [''tasks'', name]) of
         Inr (Link _) \<Rightarrow>
           Inl (Bail (''recipe role task must not be a symbolic link: ''
                  @ show_path (co_root co @ relative @ [''tasks'', name])))
       | Inr (Regular _) \<Rightarrow> Inr True
       | Inr _ \<Rightarrow> role_task co relative names
       | Inl NotFound \<Rightarrow> role_task co relative names
       | Inl _ \<Rightarrow> Inl (Failed (''read recipe role task ''
                  @ show_path (co_root co @ relative @ [''tasks'', name]))))"

definition role_path :: "checkout \<Rightarrow> string \<Rightarrow> (recipe_error, bool) result" where
  "role_path co path =
     (let parts = components path in
      if length parts = 2 \<and> parts ! 0 = ''roles'' \<and> parts ! 1 \<noteq> []
      then role_task co parts [''main.yml'', ''main.yaml'']
      else if is_role_task parts
      then and_then (reject_symlink_ancestors co parts) (\<lambda>_.
             Inr (is_file (co_disk co) (co_root co @ segments path)))
      else Inr False)"

definition recipe_kind_of :: "checkout \<Rightarrow> string \<Rightarrow> (recipe_error, recipe_kind) result" where
  "recipe_kind_of co path =
     and_then (validated_repository_path co path) (\<lambda>_.
     and_then (reject_symlink_ancestors co (components path)) (\<lambda>_.
     and_then (role_path co path) (\<lambda>role.
       if role then Inr Role
       else if is_file (co_disk co) (co_root co @ segments path)
       then if is_yaml_file (components path) then Inr Playbook
            else Inl (Bail (''recipe path is not an Ansible YAML file: '' @ path))
       else Inl (Bail (''recipe path is not a playbook or Ansible role: '' @ path)))))"

definition manifest_recipe_path ::
  "checkout \<Rightarrow> string \<Rightarrow> manifest_entry \<Rightarrow> (recipe_error, recipe_kind \<times> string) result" where
  "manifest_recipe_path co i entry =
     and_then (ok_or (Bail (''recipe metadata for '' @ i
                       @ '' must include a path because it was not discovered'')) (me_path entry))
       (\<lambda>relative. and_then (normalise_relative_path relative) (\<lambda>path.
         and_then (validated_repository_path co path) (\<lambda>target.
           if \<not> is_ok (metadata (co_disk co) target)
           then Inl (Bail (''recipe '' @ i @ '' points to missing path '' @ path))
           else and_then (recipe_kind_of co path) (\<lambda>kind.
                  Inr (kind, path_string (components path))))))"

fun read_manifest_from ::
  "(string \<Rightarrow> manifest option) \<Rightarrow> checkout \<Rightarrow> string list \<Rightarrow> (recipe_error, manifest) result" where
  "read_manifest_from yaml co [] = Inr []"
| "read_manifest_from yaml co (name # names) =
     (let path = co_root co @ [name] in
      case symlink_metadata (co_disk co) path of
        Inl NotFound \<Rightarrow> read_manifest_from yaml co names
      | Inl _ \<Rightarrow> Inl (Failed (''read recipe metadata '' @ show_path path))
      | Inr (Link _) \<Rightarrow> Inl (Bail (''recipe metadata must not be a symbolic link: '' @ show_path path))
      | Inr (Regular contents) \<Rightarrow>
          and_then (ok_or (Failed (''read recipe metadata '' @ show_path path)) contents)
            (\<lambda>text. ok_or (Failed (''parse recipe metadata '' @ show_path path)) (yaml text))
      | Inr _ \<Rightarrow> read_manifest_from yaml co names)"

definition read_manifest :: "(string \<Rightarrow> manifest option) \<Rightarrow> checkout \<Rightarrow> (recipe_error, manifest) result" where
  "read_manifest yaml co = read_manifest_from yaml co [''pbox.yml'', ''pbox.yaml'']"

section \<open>The catalogue\<close>

definition make_recipe ::
  "string \<Rightarrow> recipe_kind \<times> string \<Rightarrow> recipe_metadata \<Rightarrow> (recipe_error, recipe) result" where
  "make_recipe i kind_path meta =
     and_then (validate_recipe_capabilities i (rm_capabilities meta)) (\<lambda>_.
       Inr \<lparr>re_id = i, re_kind = fst kind_path, re_path = snd kind_path, re_metadata = meta\<rparr>)"

definition discovered_recipe :: "checkout \<Rightarrow> manifest \<Rightarrow> candidate \<Rightarrow> (recipe_error, recipe) result" where
  "discovered_recipe co manifest cand =
     (let i = cd_id cand; entry = map_of manifest i in
      and_then (case entry of
                  Some e \<Rightarrow> if me_path e \<noteq> None then manifest_recipe_path co i e
                           else Inr (cd_kind cand, cd_path cand)
                | None \<Rightarrow> Inr (cd_kind cand, cd_path cand))
        (\<lambda>kind_path. make_recipe i kind_path
           (case entry of Some e \<Rightarrow> me_metadata e | None \<Rightarrow> default_metadata)))"

fun add_listed :: "checkout \<Rightarrow> recipe list \<Rightarrow> manifest \<Rightarrow> (recipe_error, recipe list) result" where
  "add_listed co recipes [] = Inr recipes"
| "add_listed co recipes ((i, entry) # rest) =
     (if i \<in> re_id ` set recipes then add_listed co recipes rest
      else and_then (manifest_recipe_path co i entry) (\<lambda>kind_path.
           and_then (make_recipe i kind_path (me_metadata entry)) (\<lambda>r.
             add_listed co (recipes @ [r]) rest)))"

fun adjacent_duplicate :: "recipe list \<Rightarrow> (recipe \<times> recipe) option" where
  "adjacent_duplicate (a # b # rs) =
     (if re_id a = re_id b then Some (a, b) else adjacent_duplicate (b # rs))"
| "adjacent_duplicate _ = None"

definition discovered :: "checkout \<Rightarrow> (recipe_error, candidate list) result" where
  "discovered co =
     (case metadata (co_disk co) (co_root co) of
        Inr t \<Rightarrow> collect_candidates (co_root co) [] t
      | Inl _ \<Rightarrow> Inl (Failed (''read recipe directory '' @ show_path (co_root co))))"

definition discover_path ::
  "(string \<Rightarrow> manifest option) \<Rightarrow> (recipe_error, string) result \<Rightarrow> checkout \<Rightarrow> string \<Rightarrow> string
     \<Rightarrow> (recipe_error, recipe_catalog) result" where
  "discover_path yaml git_revision co repository reference =
     (if \<not> is_dir (co_disk co) (co_root co)
      then Inl (Bail (''recipe repository directory does not exist: '' @ show_path (co_root co)))
      else and_then (read_manifest yaml co) (\<lambda>manifest.
           and_then (discovered co) (\<lambda>candidates.
           and_then (all_results (map (discovered_recipe co manifest) candidates)) (\<lambda>found.
           and_then (add_listed co found manifest) (\<lambda>recipes.
             let recipes = sort_key re_id recipes in
             case adjacent_duplicate recipes of
               Some (a, b) \<Rightarrow>
                 Inl (Bail (''duplicate recipe id '' @ re_id a @ '' for '' @ re_path a @ '' and '' @ re_path b))
             | None \<Rightarrow>
                 Inr \<lparr>ct_repository = repository, ct_reference = reference,
                      ct_revision = (case git_revision of Inl _ \<Rightarrow> ''working-tree'' | Inr r \<Rightarrow> r),
                      ct_recipes = recipes\<rparr>)))))"

section \<open>Where recipes lie\<close>

text \<open>Directories as systems have them: entries with distinct proper names, here in UTF-8.\<close>

definition ok_name :: "string \<Rightarrow> bool" where
  "ok_name n \<longleftrightarrow> n \<noteq> [] \<and> n \<noteq> ''.'' \<and> n \<noteq> ''..'' \<and> CHR ''/'' \<notin> set n \<and> is_utf8 n"

fun names_ok :: "tree \<Rightarrow> bool" where
  "names_ok (Folder listed entries) \<longleftrightarrow>
     distinct (map fst entries) \<and> (\<forall>(n, s) \<in> set entries. ok_name n \<and> names_ok s)"
| "names_ok _ \<longleftrightarrow> True"

definition regular_at :: "tree \<Rightarrow> segments \<Rightarrow> bool" where
  "regular_at t p = (case descend t p of Some (Regular _) \<Rightarrow> True | _ \<Rightarrow> False)"

text \<open>
  What a recipe of each kind is made of: regular files of the repository reached without
  following a link.
\<close>

definition lies_in :: "tree \<Rightarrow> recipe_kind \<Rightarrow> segments \<Rightarrow> bool" where
  "lies_in t kind p \<longleftrightarrow>
     ''..'' \<notin> set p
     \<and> (case kind of
          Playbook \<Rightarrow> is_yaml_file p \<and> regular_at t p
        | Role \<Rightarrow> is_role_task p \<and> regular_at t p
                \<or> length p = 2 \<and> hd p = ''roles''
                  \<and> list_ex (\<lambda>name. regular_at t (p @ [''tasks'', name])) [''main.yml'', ''main.yaml''])"

definition recipe_ok :: "tree \<Rightarrow> recipe \<Rightarrow> bool" where
  "recipe_ok t r \<longleftrightarrow>
     lies_in t (re_kind r) (components (re_path r))
     \<and> length (rm_capabilities (re_metadata r)) \<le> 32
     \<and> list_all valid_capability (rm_capabilities (re_metadata r))"

lemma descend_names:
  "names_ok t \<Longrightarrow> descend t p = Some s \<Longrightarrow> c \<in> set p \<Longrightarrow> c = ''.'' \<or> ok_name c"
proof (induction p arbitrary: t)
  case (Cons d cs)
  then obtain listed entries where t: "t = Folder listed entries" by (auto split: tree.splits)
  show ?case
  proof (cases "d = ''.''")
    case True
    then show ?thesis using Cons.IH[OF Cons.prems(1)] Cons.prems(2,3) t by auto
  next
    case False
    then obtain u where u: "map_of entries d = Some u" "descend u cs = Some s"
      using Cons.prems(2) t by (auto split: option.splits tree.splits)
    then have "ok_name d" "names_ok u" using map_of_SomeD[OF u(1)] Cons.prems(1) t by auto
    then show ?thesis using Cons.IH[OF _ u(2)] Cons.prems(3) by auto
  qed
qed simp

text \<open>Components and text.\<close>

definition shaped :: "segments \<Rightarrow> bool" where
  "shaped p \<longleftrightarrow> (\<forall>c \<in> set p. c \<noteq> [] \<and> CHR ''/'' \<notin> set c) \<and> ''.'' \<notin> set (tl p)"

lemma components_shaped: "shaped (components s)"
proof (cases "filter (\<lambda>c. c \<noteq> []) (split_char CHR ''/'' s)")
  case (Cons c cs)
  then have "set (c # cs) \<subseteq> {x \<in> set (split_char CHR ''/'' s). x \<noteq> []}"
    by (metis filter_set set_filter subset_refl)
  then have "\<forall>x \<in> set (c # cs). x \<noteq> [] \<and> CHR ''/'' \<notin> set x" by (auto dest: split_char_parts)
  then show ?thesis unfolding components_def Cons list.case shaped_def by auto
qed (simp add: components_def shaped_def)

lemma components_path_string:
  assumes "shaped p" "p \<noteq> []" "\<forall>c \<in> set p. is_utf8 c"
  shows "components (path_string p) = p"
proof -
  have "map to_string_lossy p = p" using assms(3) by (simp add: map_idI lossy_utf8)
  then have "split_char CHR ''/'' (path_string p) = p"
    using assms by (simp add: path_string_def shaped_def split_joined)
  moreover have "filter (\<lambda>c. c \<noteq> []) p = p"
    using assms(1) by (simp add: shaped_def filter_id_conv)
  moreover obtain c cs where "p = c # cs" using assms(2) by (cases p) auto
  moreover have "filter (\<lambda>c. c \<noteq> ''.'') cs = cs"
    using assms(1) \<open>p = c # cs\<close> by (auto simp: shaped_def filter_id_conv)
  ultimately show ?thesis by (simp add: components_def)
qed

lemma is_utf8_dot: "is_utf8 ''.''"
  by (simp add: is_utf8_def utf8_chunks.simps Let_def well_formed_bytes_def utf8_width_def byte_def)

section \<open>The candidates\<close>

lemma all_results_Inr:
  "all_results rs = Inr xs \<longleftrightarrow> rs = map Inr xs"
  by (induction rs arbitrary: xs) (auto simp: res_simps Cons_eq_map_conv)

lemma collected:
  assumes "collect_candidates root relative t = Inr cands"
  obtains listed entries found where "t = Folder listed entries"
    "map (\<lambda>(name, s).
        case s of
          Link _ \<Rightarrow> Inr []
        | Folder _ _ \<Rightarrow>
            if name = ''.git'' then Inr [] else collect_candidates root (relative @ [name]) s
        | Regular _ \<Rightarrow> if name = ''.git'' then Inr [] else file_candidates (relative @ [name])
        | Special \<Rightarrow> Inr []) (sort_key fst entries) = map Inr found"
    "cands = concat found"
  using assms by (subst (asm) collect_candidates.simps)
    (auto simp: res_simps all_results_Inr split: tree.splits if_splits)

lemma collect_sound:
  assumes "collect_candidates root relative t = Inr cands" "names_ok t" "cand \<in> set cands"
  shows "\<exists>p found. p \<noteq> [] \<and> list_all ok_name p \<and> ''.git'' \<notin> set p \<and> regular_at t p
           \<and> file_candidates (relative @ p) = Inr found \<and> cand \<in> set found"
  using assms
proof (induction root relative t arbitrary: cands rule: collect_candidates.induct)
  case (1 root relative t)
  from 1(2) obtain listed entries found where t: "t = Folder listed entries"
    and found: "map (\<lambda>(name, s).
        case s of
          Link _ \<Rightarrow> Inr []
        | Folder _ _ \<Rightarrow>
            if name = ''.git'' then Inr [] else collect_candidates root (relative @ [name]) s
        | Regular _ \<Rightarrow> if name = ''.git'' then Inr [] else file_candidates (relative @ [name])
        | Special \<Rightarrow> Inr []) (sort_key fst entries) = map Inr found"
    and cands: "cands = concat found" by (rule collected)
  from 1(4) cands obtain part where part: "part \<in> set found" "cand \<in> set part" by auto
  then have "Inr part \<in> set (map Inr found :: (recipe_error, candidate list) result list)" by simp
  then obtain name s where entry: "(name, s) \<in> set entries"
    and res: "(case s of
          Link _ \<Rightarrow> Inr []
        | Folder _ _ \<Rightarrow>
            if name = ''.git'' then Inr [] else collect_candidates root (relative @ [name]) s
        | Regular _ \<Rightarrow> if name = ''.git'' then Inr [] else file_candidates (relative @ [name])
        | Special \<Rightarrow> Inr []) = Inr part"
    unfolding found[symmetric] by auto
  have ok: "ok_name name" "names_ok s" and lookup: "map_of entries name = Some s"
    using 1(3) entry t by (auto simp: map_of_eq_Some_iff)
  then have dots: "name \<noteq> ''.''" by (simp add: ok_name_def)
  show ?case
  proof (cases s)
    case (Regular x)
    then have "file_candidates (relative @ [name]) = Inr part" "regular_at t [name]"
      using res part(2) t lookup dots by (auto simp: regular_at_def split: if_splits)
    moreover have "name \<noteq> ''.git''" using Regular res part(2) by auto
    ultimately show ?thesis using part(2) ok by (intro exI[of _ "[name]"]) auto
  next
    case (Folder l es)
    then have sub: "collect_candidates root (relative @ [name]) s = Inr part"
      using res part(2) by (auto split: if_splits)
    have git: "name \<noteq> ''.git''" using res part(2) Folder by auto
    then have "\<exists>p found. p \<noteq> [] \<and> list_all ok_name p \<and> ''.git'' \<notin> set p \<and> regular_at s p
           \<and> file_candidates ((relative @ [name]) @ p) = Inr found \<and> cand \<in> set found"
      using 1(1)[OF t _ _ refl, of name s] entry Folder sub ok(2) part(2) 1(2) t
      by (auto simp: collect_candidates.simps split: if_splits)
    then obtain p f where "p \<noteq> []" "list_all ok_name p" "''.git'' \<notin> set p" "regular_at s p"
      "file_candidates ((relative @ [name]) @ p) = Inr f" "cand \<in> set f" by blast
    then show ?thesis using ok t lookup dots Folder git
      by (intro exI[of _ "name # p"] exI[of _ f]) (auto simp: regular_at_def)
  qed (use res part in auto)
qed

lemma collect_complete:
  assumes "collect_candidates root relative t = Inr cands" "names_ok t" "regular_at t p" "p \<noteq> []"
    "list_all ok_name p" "''.git'' \<notin> set p"
  shows "\<exists>found. file_candidates (relative @ p) = Inr found \<and> set found \<subseteq> set cands"
  using assms
proof (induction root relative t arbitrary: cands p rule: collect_candidates.induct)
  case (1 root relative t)
  let ?part = "\<lambda>(name, s).
        case s of
          Link _ \<Rightarrow> Inr []
        | Folder _ _ \<Rightarrow>
            if name = ''.git'' then Inr [] else collect_candidates root (relative @ [name]) s
        | Regular _ \<Rightarrow> if name = ''.git'' then Inr [] else file_candidates (relative @ [name])
        | Special \<Rightarrow> Inr []"
  from 1(2) obtain listed entries found where t: "t = Folder listed entries"
    and found: "map ?part (sort_key fst entries) = map Inr found"
    and cands: "cands = concat found" by (rule collected)
  obtain c cs where p: "p = c # cs" using 1(5) by (cases p) auto
  with 1(6) have c: "ok_name c" "c \<noteq> ''.''" by (auto simp: ok_name_def)
  from 1(4) t p c obtain s where s: "map_of entries c = Some s" "regular_at s cs" "\<nexists>x. s = Link x"
    by (auto simp: regular_at_def split: option.splits tree.splits)
  then have entry: "(c, s) \<in> set (sort_key fst entries)" by (simp add: map_of_SomeD)
  then have "?part (c, s) \<in> set (map Inr found)" unfolding found[symmetric] by force
  then obtain part where part: "?part (c, s) = Inr part" "set part \<subseteq> set cands"
    unfolding cands by auto
  have git: "c \<noteq> ''.git''" using 1(7) p by auto
  show ?case
  proof (cases s)
    case (Regular x)
    then have "cs = []" using s(2) by (cases cs) (auto simp: regular_at_def)
    then show ?thesis using part git Regular p by auto
  next
    case (Folder l es)
    then have sub: "collect_candidates root (relative @ [c]) s = Inr part" "cs \<noteq> []"
      using part git s(2) by (auto simp: regular_at_def)
    have listed using 1(2) t by (auto simp: collect_candidates.simps split: if_splits)
    moreover have "names_ok s" using 1(3) t s(1) by (auto dest: map_of_SomeD)
    ultimately have "\<exists>found. file_candidates ((relative @ [c]) @ cs) = Inr found \<and> set found \<subseteq> set part"
      using 1(1)[OF t _ entry refl Folder git, of part cs] sub Folder s(2) 1(6,7) p by auto
    then show ?thesis using part(2) p by auto
  qed (use s in \<open>cases cs; auto simp: regular_at_def\<close>)+
qed

text \<open>What is found at one file.\<close>

lemma file_candidate:
  assumes "file_candidates p = Inr found" "cand \<in> set found"
  shows "cd_path cand = path_string p
     \<and> (case cd_kind cand of Role \<Rightarrow> is_role_task p | Playbook \<Rightarrow> is_yaml_file p)"
  using assms by (auto simp: file_candidates_def res_simps split: if_splits)

lemma candidate_lies:
  assumes "collect_candidates root [] t = Inr cands" "names_ok t" "cand \<in> set cands"
  shows "lies_in t (cd_kind cand) (components (cd_path cand))"
proof -
  from collect_sound[OF assms] obtain p found where p: "p \<noteq> []" "list_all ok_name p" "regular_at t p"
    "file_candidates p = Inr found" "cand \<in> set found" by auto
  from p(2) have "shaped p" "\<forall>c \<in> set p. is_utf8 c" "''..'' \<notin> set p"
    by (cases p; force simp: shaped_def ok_name_def list_all_iff)+
  moreover from this p(1) have "components (path_string p) = p" by (intro components_path_string)
  ultimately show ?thesis using file_candidate[OF p(4,5)] p(3)
    by (cases "cd_kind cand") (auto simp: lies_in_def)
qed

section \<open>The paths of the manifest\<close>

text \<open>A place below the root that is reached without links.\<close>

lemma anchored:
  assumes "metadata disk root = Inr t" "descend t p = Some s" "''..'' \<notin> set p"
  shows "\<exists>m h. node_at disk h = Some s \<and> (\<forall>q. canonicalize disk (root @ p @ q) = resolve m disk h q)"
proof -
  from assms(1) obtain h where h: "resolve LINK_LIMIT disk [] root = Inr h" "node_at disk h = Some t"
    by (auto simp: metadata_def canonicalize_def res_simps)
  then obtain m where m: "\<And>q. resolve LINK_LIMIT disk [] (root @ q) = resolve m disk h q"
    using resolve_then by blast
  from descend_resolves[OF h(2) assms(2,3)] obtain h' where
    h': "resolve m disk h p = Inr h'" "node_at disk h' = Some s" by blast
  then obtain m' where m': "\<And>q. resolve m disk h (p @ q) = resolve m' disk h' q"
    using resolve_then by blast
  then show ?thesis using h'(2)
    by (intro exI[of _ m'] exI[of _ h']) (simp add: canonicalize_def m)
qed

lemma metadata_below:
  assumes "metadata disk root = Inr t" "descend t p = Some s" "''..'' \<notin> set p"
  shows "metadata disk (root @ p) = Inr s"
proof -
  from anchored[OF assms] obtain m h where "node_at disk h = Some s"
    "\<forall>q. canonicalize disk (root @ p @ q) = resolve m disk h q" by blast
  from this(1) this(2)[rule_format, of "[]"] show ?thesis by (simp add: metadata_def)
qed

lemma rejected_links:
  assumes "metadata disk root = Inr t" "descend t p = Some s" "''..'' \<notin> set (p @ cs)"
    "reject_symlinks disk (root @ p) cs = Inr ()" "metadata disk (root @ p @ cs) = Inr n"
  shows "descend t (p @ cs) = Some n"
  using assms(2-)
proof (induction cs arbitrary: p s)
  case Nil
  then show ?case using metadata_below[OF assms(1) Nil(1)] by simp
next
  case (Cons c cs)
  from Cons(3) have p: "''..'' \<notin> set p" "c \<noteq> ''..''" by auto
  from anchored[OF assms(1) Cons(2) p(1)] obtain m h where
    h: "node_at disk h = Some s" "\<forall>q. canonicalize disk (root @ p @ q) = resolve m disk h q" by blast
  from Cons(5) h(2)[rule_format, of "c # cs"] obtain r where r: "resolve m disk h (c # cs) = Inr r"
    by (auto simp: metadata_def res_simps)
  then obtain listed entries where s: "s = Folder listed entries"
    using h(1) by (auto split: tree.splits)
  have "\<exists>u. descend t (p @ [c]) = Some u \<and> reject_symlinks disk (root @ p @ [c]) cs = Inr ()"
  proof (cases "c = ''.''")
    case True
    then have "descend t (p @ [c]) = Some s" using Cons(2) s by (simp add: descend_append)
    moreover from metadata_below[OF assms(1) this] p True
    have "symlink_metadata disk (root @ p @ [c]) = Inr s" by (simp add: symlink_metadata_def)
    ultimately show ?thesis using Cons(4) s by (auto split: tree.splits)
  next
    case False
    with r h(1) s p obtain u where u: "map_of entries c = Some u" by (auto split: option.splits)
    have "symlink_metadata disk (root @ p @ [c]) = Inr u"
      using metadata_below[OF assms(1) Cons(2) p(1)] False p s u
      by (simp add: symlink_metadata_def butlast_append child_def)
    then show ?thesis using Cons(2,4) False s u by (auto simp: descend_append split: tree.splits)
  qed
  then obtain u where u: "descend t (p @ [c]) = Some u" "reject_symlinks disk (root @ p @ [c]) cs = Inr ()"
    by blast
  from Cons.IH[OF u(1)] u(2) Cons(3,5) show ?case by simp
qed

lemma symlink_metadata_regular:
  assumes "symlink_metadata disk (p @ [c]) = Inr (Regular x)" "c \<noteq> ''.''" "c \<noteq> ''..''"
  shows "metadata disk (p @ [c]) = Inr (Regular x)"
proof -
  from assms obtain d where d: "metadata disk p = Inr d" "child d c = Inr (Regular x)"
    by (auto simp: symlink_metadata_def res_simps)
  then obtain listed entries where d': "d = Folder listed entries" "map_of entries c = Some (Regular x)"
    by (auto simp: child_def res_simps split: tree.splits)
  with assms(2,3) have "descend d [c] = Some (Regular x)" by simp
  from metadata_below[OF d(1) this] assms(3) show ?thesis by simp
qed

lemma role_task_regular:
  "role_task co parts names = Inr True \<Longrightarrow>
     \<exists>name \<in> set names. \<exists>x. reject_symlink_ancestors co (parts @ [''tasks'', name]) = Inr ()
       \<and> symlink_metadata (co_disk co) (co_root co @ parts @ [''tasks'', name]) = Inr (Regular x)"
proof (induction names)
  case (Cons name names)
  from Cons.prems have checked: "reject_symlink_ancestors co (parts @ [''tasks'', name]) = Inr ()"
    by (auto simp: res_simps)
  show ?case
  proof (cases "symlink_metadata (co_disk co) (co_root co @ parts @ [''tasks'', name])")
    case (Inl e)
    then show ?thesis using Cons checked by (cases e) auto
  next
    case (Inr s)
    then show ?thesis using Cons checked by (cases s) auto
  qed
qed simp

lemma metadata_components:
  assumes "metadata disk (root @ segments path) = Inr s"
  shows "metadata disk (root @ components path) = Inr s"
proof -
  from assms obtain h where "resolve LINK_LIMIT disk [] (root @ segments path) = Inr h" "node_at disk h = Some s"
    by (auto simp: metadata_def canonicalize_def res_simps)
  note h = this
  have "undotted (root @ segments path) (root @ components path)"
    by (rule undotted_append[OF undotted_refl undotted_components])
  from resolve_undotted[OF h(1) this] h(2) show ?thesis by (simp add: metadata_def canonicalize_def)
qed

lemma kind_steps:
  assumes "recipe_kind_of co path = Inr kind"
  obtains role where "reject_symlink_ancestors co (components path) = Inr ()"
    "role_path co path = Inr role"
    "if role then kind = Role else kind = Playbook \<and> is_yaml_file (components path)
       \<and> is_file (co_disk co) (co_root co @ segments path)"
proof -
  from assms obtain u role where
    role: "reject_symlink_ancestors co (components path) = Inr u" "role_path co path = Inr role"
    "(if role then Inr Role
      else if is_file (co_disk co) (co_root co @ segments path)
      then if is_yaml_file (components path) then Inr Playbook
           else Inl (Bail (''recipe path is not an Ansible YAML file: '' @ path))
      else Inl (Bail (''recipe path is not a playbook or Ansible role: '' @ path))) = Inr kind"
    unfolding recipe_kind_of_def and_then_Inr_iff by blast
  then show ?thesis by (intro that[of role]) (auto split: if_splits)
qed

lemma kind_lies:
  assumes root: "metadata (co_disk co) (co_root co) = Inr t"
    and kind: "recipe_kind_of co path = Inr kind" and inside: "''..'' \<notin> set (components path)"
  shows "lies_in t kind (components path)"
proof -
  let ?p = "components path"
  have reached: "descend t q = Some (Regular x)"
    if "reject_symlink_ancestors co q = Inr ()" "metadata (co_disk co) (co_root co @ q) = Inr (Regular x)"
      "''..'' \<notin> set q" for q x
    using rejected_links[OF root, of "[]" t q "Regular x"] that by (simp add: reject_symlink_ancestors_def)
  have plain: "regular_at t ?p"
    if "is_file (co_disk co) (co_root co @ segments path)" "reject_symlink_ancestors co ?p = Inr ()"
  proof -
    from that(1) obtain x where "metadata (co_disk co) (co_root co @ segments path) = Inr (Regular x)"
      by (auto simp: is_file_def split: sum.splits tree.splits)
    then have "metadata (co_disk co) (co_root co @ ?p) = Inr (Regular x)"
      by (rule metadata_components)
    from reached[OF that(2) this inside] show ?thesis by (simp add: regular_at_def)
  qed
  from kind obtain role where checks: "reject_symlink_ancestors co ?p = Inr ()" "role_path co path = Inr role"
    and outcome: "if role then kind = Role else kind = Playbook \<and> is_yaml_file ?p
                    \<and> is_file (co_disk co) (co_root co @ segments path)"
    by (rule kind_steps)
  show ?thesis
  proof (cases role)
    case False
    then show ?thesis using outcome plain checks(1) inside by (simp add: lies_in_def)
  next
    case True
    with outcome have kind: "kind = Role" by simp
    from checks(2) True consider
        (folder) "length ?p = 2" "?p ! 0 = ''roles''"
          "role_task co ?p [''main.yml'', ''main.yaml''] = Inr True"
      | (task) "is_role_task ?p" "is_file (co_disk co) (co_root co @ segments path)"
      by (auto simp: role_path_def Let_def res_simps split: if_splits)
    then show ?thesis
    proof cases
      case task
      then show ?thesis using plain checks(1) inside kind by (simp add: lies_in_def)
    next
      case folder
      from role_task_regular[OF folder(3)] obtain name x where
        name: "name \<in> {''main.yml'', ''main.yaml''}"
        and ok: "reject_symlink_ancestors co (?p @ [''tasks'', name]) = Inr ()"
          "symlink_metadata (co_disk co) (co_root co @ ?p @ [''tasks'', name]) = Inr (Regular x)" by auto
      have "metadata (co_disk co) ((co_root co @ ?p @ [''tasks'']) @ [name]) = Inr (Regular x)"
        by (rule symlink_metadata_regular) (use ok(2) name in auto)
      then have "descend t (?p @ [''tasks'', name]) = Some (Regular x)"
        by (intro reached ok(1)) (use inside name in auto)
      moreover have "hd ?p = ''roles''" using folder(1,2) by (cases ?p) auto
      ultimately show ?thesis using name folder(1) inside kind by (auto simp: lies_in_def regular_at_def)
    qed
  qed
qed

lemma regular_at_iff: "regular_at t p \<longleftrightarrow> (\<exists>x. descend t p = Some (Regular x))"
  by (auto simp: regular_at_def split: option.splits tree.splits)

lemma lies_in_regular: "lies_in t kind p \<Longrightarrow> p \<noteq> [] \<and> (\<exists>q. regular_at t (p @ q))"
  by (cases kind) (auto simp: lies_in_def is_yaml_file_def is_role_task_def intro: exI[of _ "[]"])

lemma lies_in_text:
  assumes "names_ok t" "lies_in t kind (components path)"
  shows "components (path_string (components path)) = components path"
proof (rule components_path_string)
  from lies_in_regular[OF assms(2)] obtain q x where
    q: "components path \<noteq> []" "descend t (components path @ q) = Some (Regular x)"
    by (auto simp: regular_at_iff)
  show "components path \<noteq> []" by (rule q(1))
  show "\<forall>c \<in> set (components path). is_utf8 c"
    using descend_names[OF assms(1) q(2)] is_utf8_dot by (auto simp: ok_name_def)
qed (rule components_shaped)

section \<open>The catalogue\<close>

lemma manifest_path_lies:
  assumes "metadata (co_disk co) (co_root co) = Inr t" "names_ok t"
    "manifest_recipe_path co i entry = Inr kind_path"
  shows "lies_in t (fst kind_path) (components (snd kind_path))"
proof -
  from assms(3) obtain path kind where path: "''..'' \<notin> set (components path)"
    "recipe_kind_of co path = Inr kind" "kind_path = (kind, path_string (components path))"
    by (auto simp: manifest_recipe_path_def normalise_relative_path_def res_simps split: if_splits)
  from kind_lies[OF assms(1) path(2,1)] lies_in_text[OF assms(2)] path(3) show ?thesis by simp
qed

lemma made_recipe:
  assumes "make_recipe i kind_path meta = Inr r"
  shows "re_id r = i" "lies_in t (fst kind_path) (components (snd kind_path)) \<Longrightarrow> recipe_ok t r"
  using assms
  by (auto simp: make_recipe_def validate_recipe_capabilities_def recipe_ok_def res_simps
        MAX_RECIPE_CAPABILITIES_def split: if_splits)

lemma discovered_recipe_ok:
  assumes "metadata (co_disk co) (co_root co) = Inr t" "names_ok t"
    "lies_in t (cd_kind cand) (components (cd_path cand))" "discovered_recipe co m cand = Inr r"
  shows "re_id r = cd_id cand \<and> recipe_ok t r"
proof -
  from assms(4) obtain kind_path meta where made: "make_recipe (cd_id cand) kind_path meta = Inr r"
    and origin: "kind_path = (cd_kind cand, cd_path cand)
                  \<or> (\<exists>e. manifest_recipe_path co (cd_id cand) e = Inr kind_path)"
    by (auto simp: discovered_recipe_def Let_def res_simps split: option.splits if_splits)
  have "lies_in t (fst kind_path) (components (snd kind_path))"
    using origin assms(3) manifest_path_lies[OF assms(1,2)] by auto
  then show ?thesis using made_recipe[OF made] by blast
qed

lemma add_listed_ok:
  assumes "metadata (co_disk co) (co_root co) = Inr t" "names_ok t"
  shows "add_listed co rs m = Inr rs' \<Longrightarrow> list_all (recipe_ok t) rs \<Longrightarrow>
     list_all (recipe_ok t) rs' \<and> re_id ` set rs' = re_id ` set rs \<union> fst ` set m"
  using assms(1)
proof (induction co rs m arbitrary: rs' rule: add_listed.induct)
  case (2 co rs i entry rest)
  show ?case
  proof (cases "i \<in> re_id ` set rs")
    case True
    with 2(3) have "add_listed co rs rest = Inr rs'" by simp
    from 2(1)[OF True this 2(4,5)] True show ?thesis by auto
  next
    case False
    with 2(3) obtain kind_path r where step: "manifest_recipe_path co i entry = Inr kind_path"
      "make_recipe i kind_path (me_metadata entry) = Inr r" "add_listed co (rs @ [r]) rest = Inr rs'"
      by (auto simp: res_simps)
    note made = made_recipe[OF step(2)]
    have "list_all (recipe_ok t) (rs @ [r])"
      using made(2)[OF manifest_path_lies[OF 2(5) assms(2) step(1)]] 2(4) by simp
    from 2(2)[OF False step(3) this 2(5)] made(1) show ?thesis by auto
  qed
qed auto

lemma no_adjacent_duplicate:
  "adjacent_duplicate rs = None \<Longrightarrow> sorted (map re_id rs) \<Longrightarrow> sorted_wrt (<) (map re_id rs)"
proof (induction rs rule: adjacent_duplicate.induct)
  case (1 a b rs)
  then have ne: "re_id a \<noteq> re_id b" "adjacent_duplicate (b # rs) = None" by (auto split: if_splits)
  have "sorted_wrt (<) (map re_id (b # rs))" using 1(1)[OF ne] 1(3) by simp
  moreover have "re_id a \<le> re_id b" using 1(3) by simp
  with ne(1) have "re_id a < re_id b" by (rule le_neq_trans[rotated])
  ultimately show ?case using less_trans by fastforce
qed simp_all

lemma no_pair_iff: "(\<forall>a b. x \<noteq> Some (a, b)) \<longleftrightarrow> x = None"
  by (cases x) auto

lemma discover_steps:
  assumes "discover_path yaml revision co repository reference = Inr c"
    "metadata (co_disk co) (co_root co) = Inr t"
  obtains m cands found recipes where "read_manifest yaml co = Inr m"
    "collect_candidates (co_root co) [] t = Inr cands"
    "map (discovered_recipe co m) cands = map Inr found"
    "add_listed co found m = Inr recipes" "ct_recipes c = sort_key re_id recipes"
    "adjacent_duplicate (sort_key re_id recipes) = None"
  using assms
  by (auto simp: discover_path_def discovered_def res_simps all_results_Inr Let_def no_pair_iff
      split: if_splits option.splits)

text \<open>The identifier a file is offered under.\<close>

definition offers :: "segments \<Rightarrow> string option" where
  "offers p =
     (if hd p = ''roles'' then if is_role_task p then Some (p ! 1) else None
      else if is_yaml_file p \<and> \<not> is_metadata_file p \<and> \<not> is_ansible_support_file p
      then Some (playbook_name p) else None)"

definition offered :: "tree \<Rightarrow> string set" where
  "offered t =
     {i. \<exists>p. p \<noteq> [] \<and> list_all ok_name p \<and> ''.git'' \<notin> set p \<and> regular_at t p \<and> offers p = Some i}"

lemma file_candidates_offer:
  "file_candidates p = Inr found \<Longrightarrow> cd_id ` set found = set_option (offers p)"
  by (auto simp: file_candidates_def offers_def playbook_id_def res_simps split: if_splits)

lemma candidates_offered:
  assumes "collect_candidates root [] t = Inr cands" "names_ok t"
  shows "cd_id ` set cands = offered t"
proof (intro set_eqI iffI)
  fix i
  assume "i \<in> cd_id ` set cands"
  then obtain cand where cand: "cand \<in> set cands" "i = cd_id cand" by blast
  from collect_sound[OF assms cand(1)] obtain p found where p: "p \<noteq> []" "list_all ok_name p"
    "''.git'' \<notin> set p" "regular_at t p" "file_candidates p = Inr found" "cand \<in> set found" by auto
  then have "i \<in> set_option (offers p)" using file_candidates_offer cand(2) by blast
  then show "i \<in> offered t" using p by (auto simp: offered_def)
next
  fix i
  assume "i \<in> offered t"
  then obtain p where p: "p \<noteq> []" "list_all ok_name p" "''.git'' \<notin> set p" "regular_at t p"
    "offers p = Some i" by (auto simp: offered_def)
  from collect_complete[OF assms p(4,1,2,3)] obtain found where
    "file_candidates p = Inr found" "set found \<subseteq> set cands" by auto
  moreover from this(1) have "i \<in> cd_id ` set found" using p(5) by (simp add: file_candidates_offer)
  ultimately show "i \<in> cd_id ` set cands" by blast
qed

lemma discovered_recipes:
  assumes "discover_path yaml revision co repository reference = Inr c"
    "metadata (co_disk co) (co_root co) = Inr t" "names_ok t"
  obtains m where "read_manifest yaml co = Inr m"
    "re_id ` set (ct_recipes c) = offered t \<union> fst ` set m"
    "list_all (recipe_ok t) (ct_recipes c)" "sorted_wrt (<) (map re_id (ct_recipes c))"
proof -
  from discover_steps[OF assms(1,2)] obtain m cands found recipes where
    steps: "read_manifest yaml co = Inr m" "collect_candidates (co_root co) [] t = Inr cands"
    "map (discovered_recipe co m) cands = map Inr found" "add_listed co found m = Inr recipes"
    "ct_recipes c = sort_key re_id recipes" "adjacent_duplicate (sort_key re_id recipes) = None" .
  have len: "length found = length cands" using steps(3) by (metis length_map)
  have each: "re_id (found ! k) = cd_id (cands ! k) \<and> recipe_ok t (found ! k)" if "k < length cands" for k
  proof (rule discovered_recipe_ok[OF assms(2,3)])
    show "lies_in t (cd_kind (cands ! k)) (components (cd_path (cands ! k)))"
      using candidate_lies[OF steps(2) assms(3)] that by simp
    show "discovered_recipe co m (cands ! k) = Inr (found ! k)"
      using arg_cong[OF steps(3), of "\<lambda>xs. xs ! k"] that len by simp
  qed
  have "map re_id found = map cd_id cands" using each len by (auto intro: nth_equalityI)
  then have ids: "re_id ` set found = offered t"
    using candidates_offered[OF steps(2) assms(3)] by (metis set_map)
  have "list_all (recipe_ok t) found" using each len by (auto simp: list_all_length)
  from add_listed_ok[OF assms(2,3) steps(4) this] ids
  have ok: "list_all (recipe_ok t) recipes" "re_id ` set recipes = offered t \<union> fst ` set m" by auto
  show ?thesis
  proof (rule that[OF steps(1)])
    show "re_id ` set (ct_recipes c) = offered t \<union> fst ` set m" using steps(5) ok(2) by simp
    show "list_all (recipe_ok t) (ct_recipes c)" using steps(5) ok(1) by (simp add: list_all_iff)
    show "sorted_wrt (<) (map re_id (ct_recipes c))"
      unfolding steps(5) by (rule no_adjacent_duplicate[OF steps(6)]) (rule sorted_sort_key)
  qed
qed

section \<open>Properties\<close>

definition example_repository :: tree where
  "example_repository =
     Folder True
       [(''playbooks'', Folder True [(''xfce.yml'', Regular (Some ''hosts'')), (''out'', Link ''/etc'')]),
        (''roles'', Folder True [(''docker'', Folder True [(''tasks'',
           Folder True [(''main.yml'', Regular (Some ''name''))])])])]"

definition example_checkout :: checkout where
  "example_checkout =
     \<lparr>co_disk = Folder True [(''c'', example_repository), (''l'', Link ''c'')], co_root = [''l'']\<rparr>"

definition example_recipe :: "string \<Rightarrow> recipe_kind \<Rightarrow> string \<Rightarrow> recipe" where
  "example_recipe i kind path =
     \<lparr>re_id = i, re_kind = kind, re_path = path, re_metadata = default_metadata\<rparr>"

definition example_catalog :: recipe_catalog where
  "example_catalog =
     \<lparr>ct_repository = ''o'', ct_reference = ''main'', ct_revision = ''r1'',
      ct_recipes = [example_recipe ''docker'' Role ''roles/docker/tasks/main.yml'',
                    example_recipe ''xfce'' Playbook ''playbooks/xfce.yml'']\<rparr>"

lemma example_discovery:
  "metadata (co_disk example_checkout) (co_root example_checkout) = Inr example_repository"
  "discover_path (\<lambda>_. None) (Inr ''r1'') example_checkout ''o'' ''main'' =
     Inr example_catalog"
  "re_id ` set (ct_recipes example_catalog) = {''docker'', ''xfce''}"
  by code_simp+

lemma example_names: "names_ok example_repository"
  by code_simp



text \<open>
  C33: Discovery misses nothing and invents nothing: the identifiers of a discovered catalogue
  are exactly those of the playbooks and roles that lie in the tree, outside \<open>.git\<close> and
  not behind links, together with those the manifest lists. The order in which the system
  lists directories does not matter.
\<close>

theorem catalog_complete:
  assumes "metadata (co_disk co) (co_root co) = Inr t" "names_ok t"
    and "discover_path yaml revision co repository reference = Inr c"
  shows "\<exists>m. read_manifest yaml co = Inr m \<and> re_id ` set (ct_recipes c) = offered t \<union> fst ` set m"
  by (rule discovered_recipes[OF assms(3,1,2)]) (intro exI conjI)

lemma catalog_complete_witness:
  "\<exists>m. read_manifest (\<lambda>_. None) example_checkout = Inr m
     \<and> {''docker'', ''xfce''} = offered example_repository \<union> fst ` set m"
  using catalog_complete[OF example_discovery(1) example_names example_discovery(2)]
  unfolding example_discovery(3) .

end
