(* ===== verification/RecipeCache.thy ===== *)
theory RecipeCache
  imports Recipes
begin

text \<open>
  The local checkout of the recipe repository (\<open>RecipeRepository\<close> in
  \<open>crates/pbox-cli/src/recipes.rs\<close>): which repositories and references are accepted,
  what is run to bring the checkout up to date, and what is checked before its recipes are
  used. Git is the environment: an answer to each command, depending on everything run
  before, and what the command does to the checkout.
\<close>

section \<open>The repository\<close>

definition DEFAULT_REPOSITORY :: string where
  "DEFAULT_REPOSITORY = ''https://github.com/kierandrewett/pbox-recipes.git''"

definition DEFAULT_REFERENCE :: string where "DEFAULT_REFERENCE = ''main''"

record recipe_repository =
  rp_repository :: string
  rp_reference :: string
  rp_cache_dir :: string

definition valid_transport :: "string \<Rightarrow> string \<Rightarrow> (recipe_error, unit) result" where
  "valid_transport scheme authority =
     all_checks
       [ensure (scheme \<in> {''https'', ''ssh'', ''file''})
          (Bail ''recipe repository URLs must use HTTPS, SSH, or file transport''),
        ensure (CHR ''@'' \<notin> set authority)
          (Bail ''recipe repository URLs must not contain embedded credentials''),
        ensure (scheme = ''file'' \<or> authority \<noteq> []) (Bail ''recipe repository URL must include a host'')]"

definition validate_recipe_repository :: "string \<Rightarrow> (recipe_error, unit) result" where
  "validate_recipe_repository repository =
     all_checks
       [ensure (CHR ''?'' \<notin> set repository \<and> CHR ''#'' \<notin> set repository)
          (Bail ''recipe repository must not contain query or fragment data''),
        ensure (\<not> contains repository ''::'')
          (Bail ''recipe repository must not use Git external transport''),
        (case split_once repository ''://'' of
           None \<Rightarrow> Inr ()
         | Some (scheme, rest) \<Rightarrow>
             valid_transport (lowercase scheme)
               (takeWhile (\<lambda>c. c \<noteq> CHR ''/'' \<and> c \<noteq> CHR 0x5C) rest))]"

definition bad_reference_char :: "string \<Rightarrow> bool" where
  "bad_reference_char c \<longleftrightarrow>
     list_ex is_control_char (utf8_chars c) \<or> c \<in> set ws_encodings
     \<or> c \<in> {''~'', ''^'', '':'', ''?'', ''*'', ''['', [CHR 0x5C]}"

definition validate_recipe_reference :: "string \<Rightarrow> (recipe_error, unit) result" where
  "validate_recipe_reference reference =
     ensure (\<not> (reference = [] \<or> starts_with reference ''-'' \<or> contains reference ''..''
               \<or> contains reference (''@'' @ ''{'') \<or> ends_with reference ''/'' \<or> ends_with reference ''.''
               \<or> list_ex bad_reference_char (char_texts reference)))
       (Bail (''recipe reference is not a valid Git ref: '' @ reference))"

definition normalise_repository :: "string \<Rightarrow> string" where
  "normalise_repository repository =
     (let t = trim repository in
      if length (filter (\<lambda>c. c = CHR ''/'') t) = 1 \<and> \<not> contains t ''://'' \<and> \<not> starts_with t ''git@''
         \<and> \<not> starts_with t ''.'' \<and> \<not> starts_with t ''/''
      then if ends_with t ''.git'' then ''https://github.com/'' @ t
           else ''https://github.com/'' @ t @ ''.git''
      else t)"

text \<open>\<open>sha256\<close>: the hexadecimal digest of a text; \<open>cache_home\<close>: the user's cache directory.\<close>

definition default_cache_dir :: "(string \<Rightarrow> string) \<Rightarrow> string option \<Rightarrow> string \<Rightarrow> string" where
  "default_cache_dir sha256 cache_home repository =
     (case cache_home of Some d \<Rightarrow> d | None \<Rightarrow> ''.'') @ ''/pbox/recipes/'' @ sha256 repository"

definition new_repository ::
  "(string \<Rightarrow> string) \<Rightarrow> string option \<Rightarrow> string option \<Rightarrow> string \<Rightarrow> (recipe_error, recipe_repository) result" where
  "new_repository sha256 cache_home repository reference =
     (let repository = trim (case repository of Some r \<Rightarrow> r | None \<Rightarrow> DEFAULT_REPOSITORY) in
      if repository = [] then Inl (Bail ''recipe repository cannot be empty'')
      else and_then (validate_recipe_repository repository) (\<lambda>_.
        let repository = normalise_repository repository;
            reference = (if trim reference = [] then DEFAULT_REFERENCE else trim reference)
        in and_then (validate_recipe_reference reference) (\<lambda>_.
             Inr \<lparr>rp_repository = repository, rp_reference = reference,
                  rp_cache_dir = default_cache_dir sha256 cache_home repository\<rparr>)))"

section \<open>The checkout and Git\<close>

text \<open>What is found at one path: nothing, nothing that may be inspected, a link, a directory, a file.\<close>

datatype inode = Missing | Hidden | Soft | Directory | Plain "string option"

record cache =
  ca_dir :: inode
  ca_git :: inode
  ca_reference :: inode
  ca_revision :: inode
  ca_fetched :: "nat option"
  ca_parent :: bool
  ca_owned :: bool
  ca_checkout :: checkout

record git_output =
  go_success :: bool
  go_status :: string
  go_stdout :: string
  go_stderr :: string

text \<open>No answer is a Git that cannot be started.\<close>

type_synonym git_log = "(string list \<times> git_output option) list"

record run =
  rn_log :: git_log
  rn_cache :: cache

type_synonym 'a act = "run \<Rightarrow> (recipe_error, 'a) result \<times> run"

text \<open>What can go wrong with replacing a marker file.\<close>

datatype marker_fault = ClockFails | CreateFails | WriteFails | ReplaceFails

record host =
  ho_git :: "git_log \<Rightarrow> cache \<Rightarrow> string list \<Rightarrow> git_output option \<times> cache"
  ho_marker :: "run \<Rightarrow> marker_fault option"
  ho_canonical :: "string \<Rightarrow> string option"
  ho_yaml :: "string \<Rightarrow> manifest option"

definition after :: "'a act \<Rightarrow> ('a \<Rightarrow> 'b act) \<Rightarrow> 'b act" where
  "after m f s = (case m s of (Inl e, t) \<Rightarrow> (Inl e, t) | (Inr a, t) \<Rightarrow> f a t)"

definition give :: "(recipe_error, 'a) result \<Rightarrow> 'a act" where
  "give r s = (r, s)"

definition peek :: "(cache \<Rightarrow> (recipe_error, 'a) result) \<Rightarrow> 'a act" where
  "peek f s = (f (rn_cache s), s)"

text \<open>\<open>str::replace\<close> of a text that is not empty.\<close>

function replace_text :: "string \<Rightarrow> string \<Rightarrow> string \<Rightarrow> string" where
  "replace_text p r s =
     (case find_sub p s of
        None \<Rightarrow> s
      | Some i \<Rightarrow> if p = [] \<or> s = [] then s else take i s @ r @ replace_text p r (drop (i + length p) s))"
  by pat_completeness auto
termination
  by (relation "measure (\<lambda>(p, r, s). length s)") (auto intro: diff_less)

declare replace_text.simps [simp del]

text \<open>The environment a command gets, from that of the client: nothing else is inherited.\<close>

definition git_environment :: "(string \<Rightarrow> string option) \<Rightarrow> (string \<times> string) list" where
  "git_environment var =
     List.map_filter (\<lambda>key. map_option (\<lambda>v. (key, v)) (var key))
       [''PATH'', ''HOME'', ''LANG'', ''LC_ALL'', ''TMPDIR'', ''SSH_AUTH_SOCK'']
     @ [(''GIT_ALLOW_PROTOCOL'', ''file:ssh:https''), (''GIT_TERMINAL_PROMPT'', ''0''),
        (''GIT_CONFIG_NOSYSTEM'', ''1'')]"

definition run_git :: "host \<Rightarrow> string list \<Rightarrow> string \<Rightarrow> git_output act" where
  "run_git host args repository s =
     (let (out, cache) = ho_git host (rn_log s) (rn_cache s) args;
          t = s\<lparr>rn_log := rn_log s @ [(args, out)], rn_cache := cache\<rparr>
      in (case out of
            None \<Rightarrow> Inl (Failed ''run git for recipe repository'')
          | Some reply \<Rightarrow>
              if go_success reply then Inr reply
              else let detail = replace_text repository ''<recipe repository>''
                                  (trim (to_string_lossy (go_stderr reply)))
                   in if detail = []
                      then Inl (Bail (''git recipe repository operation failed with '' @ go_status reply))
                      else Inl (Bail (''git recipe repository operation failed: '' @ detail)), t))"

definition cache_path :: "recipe_repository \<Rightarrow> (recipe_error, string) result" where
  "cache_path rp =
     (if is_utf8 (rp_cache_dir rp) then Inr (rp_cache_dir rp) else Inl (Bail ''recipe cache path is not UTF-8''))"

definition text_of :: "string \<Rightarrow> string \<Rightarrow> (recipe_error, string) result" where
  "text_of context bytes = (if is_utf8 bytes then Inr bytes else Inl (Failed context))"

text \<open>The commands that only look, and the ones that change the checkout.\<close>

abbreviation remote_command where "remote_command dir \<equiv> [''-C'', dir, ''remote'', ''get-url'', ''origin'']"
abbreviation submodule_command where
  "submodule_command dir \<equiv> [''-C'', dir, ''submodule'', ''status'', ''--recursive'']"
abbreviation flags_command where "flags_command dir \<equiv> [''-C'', dir, ''ls-files'', ''-v'']"
abbreviation status_command where
  "status_command dir \<equiv>
     [''-C'', dir, ''status'', ''--porcelain'', ''--ignored=matching'', ''--untracked-files=all'']"
abbreviation diff_command where
  "diff_command dir \<equiv> [''-C'', dir, ''diff'', ''--no-ext-diff'', ''--quiet'', ''HEAD'', ''--'']"
abbreviation revision_command where "revision_command dir \<equiv> [''-C'', dir, ''rev-parse'', ''HEAD'']"
abbreviation fetch_command where
  "fetch_command dir reference \<equiv> [''-C'', dir, ''fetch'', ''--depth'', ''1'', ''origin'', ''--'', reference]"
abbreviation checkout_command where
  "checkout_command dir \<equiv> [''-C'', dir, ''checkout'', ''--force'', ''FETCH_HEAD'']"
abbreviation clone_command where
  "clone_command dir reference repository \<equiv>
     [''clone'', ''--depth'', ''1'', ''--branch'', reference, ''--'', repository, dir]"

definition git_revision :: "host \<Rightarrow> recipe_repository \<Rightarrow> string act" where
  "git_revision host rp =
     after (give (if is_utf8 (rp_cache_dir rp) then Inr (rp_cache_dir rp)
                  else Inl (Bail ''recipe path is not UTF-8''))) (\<lambda>dir.
     after (run_git host (revision_command dir) ''<recipe repository>'') (\<lambda>reply.
       give (and_then (text_of [] (go_stdout reply)) (\<lambda>t. Inr (trim t)))))"

section \<open>Checks\<close>

definition is_git_checkout :: "recipe_repository \<Rightarrow> cache \<Rightarrow> (recipe_error, bool) result" where
  "is_git_checkout rp cache =
     (case ca_git cache of
        Soft \<Rightarrow> Inl (Bail ''recipe cache Git directory must not be a symbolic link'')
      | Directory \<Rightarrow> Inr True
      | Plain _ \<Rightarrow> Inr False
      | Missing \<Rightarrow> Inr False
      | Hidden \<Rightarrow> Inl (Failed (''inspect recipe cache '' @ rp_cache_dir rp)))"

definition ensure_cache_path_is_safe :: "recipe_repository \<Rightarrow> cache \<Rightarrow> (recipe_error, unit) result" where
  "ensure_cache_path_is_safe rp cache =
     (case ca_dir cache of
        Soft \<Rightarrow> Inl (Bail ''recipe cache path must not be a symbolic link'')
      | Hidden \<Rightarrow> Inl (Failed (''inspect recipe cache '' @ rp_cache_dir rp))
      | _ \<Rightarrow> Inr ())"

definition restrict_cache_directory :: "recipe_repository \<Rightarrow> cache \<Rightarrow> (recipe_error, unit) result" where
  "restrict_cache_directory rp cache =
     (case ca_dir cache of
        Missing \<Rightarrow> Inl (Failed (''inspect recipe cache '' @ rp_cache_dir rp))
      | Hidden \<Rightarrow> Inl (Failed (''inspect recipe cache '' @ rp_cache_dir rp))
      | Soft \<Rightarrow> Inl (Bail ''recipe cache path must not be a symbolic link'')
      | _ \<Rightarrow> ensure (ca_owned cache) (Failed (''restrict recipe cache '' @ rp_cache_dir rp)))"

definition read_marker :: "string \<Rightarrow> string \<Rightarrow> inode \<Rightarrow> (recipe_error, string option) result" where
  "read_marker what path n =
     (case n of
        Soft \<Rightarrow> Inl (Bail (''recipe cache '' @ what @ '' marker must not be a symbolic link''))
      | Missing \<Rightarrow> Inr None
      | Hidden \<Rightarrow> Inl (Failed (''inspect recipe cache '' @ what @ '' '' @ path))
      | Plain (Some contents) \<Rightarrow> Inr (Some (trim contents))
      | _ \<Rightarrow> Inl (Failed (''read recipe cache '' @ what @ '' '' @ path)))"

definition reference_path :: "recipe_repository \<Rightarrow> string" where
  "reference_path rp = rp_cache_dir rp @ ''/.git/pbox-reference''"

definition revision_path :: "recipe_repository \<Rightarrow> string" where
  "revision_path rp = rp_cache_dir rp @ ''/.git/pbox-revision''"

definition reference_marker :: "recipe_repository \<Rightarrow> cache \<Rightarrow> (recipe_error, string option) result" where
  "reference_marker rp cache = read_marker ''reference'' (reference_path rp) (ca_reference cache)"

definition revision_marker :: "recipe_repository \<Rightarrow> cache \<Rightarrow> (recipe_error, string option) result" where
  "revision_marker rp cache = read_marker ''revision'' (revision_path rp) (ca_revision cache)"

text \<open>A marker is replaced as a whole; only a directory in its place resists.\<close>

definition marker_error :: "string \<Rightarrow> marker_fault \<Rightarrow> recipe_error" where
  "marker_error path fault =
     Failed (case fault of
        ClockFails \<Rightarrow> ''read system clock''
      | CreateFails \<Rightarrow> ''create temporary recipe cache marker ''
      | WriteFails \<Rightarrow> ''write recipe cache marker '' @ path
      | ReplaceFails \<Rightarrow> ''replace recipe cache marker '' @ path)"

definition write_cache_marker ::
  "host \<Rightarrow> string \<Rightarrow> (cache \<Rightarrow> inode) \<Rightarrow> (inode \<Rightarrow> cache \<Rightarrow> cache) \<Rightarrow> string \<Rightarrow> unit act" where
  "write_cache_marker host path get put contents s =
     (case ho_marker host s of
        Some fault \<Rightarrow> (Inl (marker_error path fault), s)
      | None \<Rightarrow>
          if ca_git (rn_cache s) \<noteq> Directory then (Inl (marker_error path CreateFails), s)
          else if get (rn_cache s) = Directory then (Inl (marker_error path ReplaceFails), s)
          else (Inr (), s\<lparr>rn_cache := put (Plain (Some contents)) (rn_cache s)\<rparr>))"

definition write_reference_marker :: "host \<Rightarrow> recipe_repository \<Rightarrow> unit act" where
  "write_reference_marker host rp =
     after (write_cache_marker host (reference_path rp) ca_reference
              (\<lambda>n c. c\<lparr>ca_reference := n\<rparr>) (rp_reference rp @ [CHR 0x0A])) (\<lambda>_.
     after (git_revision host rp) (\<lambda>revision.
       write_cache_marker host (revision_path rp) ca_revision
         (\<lambda>n c. c\<lparr>ca_revision := n\<rparr>) (revision @ [CHR 0x0A])))"

definition repository_identity :: "host \<Rightarrow> string \<Rightarrow> string" where
  "repository_identity host repository =
     (let normalised = normalise_repository repository
      in case ho_canonical host normalised of Some p \<Rightarrow> p | None \<Rightarrow> normalised)"

definition has_unsafe_git_index_flags :: "string \<Rightarrow> bool" where
  "has_unsafe_git_index_flags output \<longleftrightarrow>
     list_ex (\<lambda>line. line \<noteq> [] \<and> hd line \<in> {CHR ''h'', CHR ''S''}) (split_char CHR 0x0A output)"

definition local_changes :: recipe_error where
  "local_changes = Bail ''recipe cache has local changes; remove the cache and synchronise again''"

definition check_origin :: "host \<Rightarrow> recipe_repository \<Rightarrow> git_output \<Rightarrow> (recipe_error, unit) result" where
  "check_origin host rp origin =
     and_then (text_of ''recipe cache origin is not UTF-8'' (go_stdout origin)) (\<lambda>t.
       ensure (repository_identity host (trim t) = repository_identity host (rp_repository rp))
         (Bail ''recipe cache origin does not match the configured repository''))"

text \<open>A failing \<open>diff\<close> is reported as local changes, whatever the reason.\<close>

definition no_difference :: "host \<Rightarrow> string \<Rightarrow> string \<Rightarrow> unit act" where
  "no_difference host dir repository s =
     (case run_git host (diff_command dir) repository s of
        (Inl _, t) \<Rightarrow> (Inl local_changes, t)
      | (Inr _, t) \<Rightarrow> (Inr (), t))"

definition ensure_cache_integrity :: "host \<Rightarrow> recipe_repository \<Rightarrow> unit act" where
  "ensure_cache_integrity host rp =
     after (peek (is_git_checkout rp)) (\<lambda>is_checkout.
     after (give (ensure is_checkout (Bail ''recipe cache is not a Git checkout; synchronise the repository''))) (\<lambda>_.
     after (give (cache_path rp)) (\<lambda>dir.
     after (run_git host (remote_command dir) (rp_repository rp)) (\<lambda>origin.
     after (give (check_origin host rp origin)) (\<lambda>_.
     after (run_git host (submodule_command dir) (rp_repository rp)) (\<lambda>submodules.
     after (give (ensure (go_stdout submodules = []) (Bail ''recipe cache must not contain Git submodules''))) (\<lambda>_.
     after (run_git host (flags_command dir) (rp_repository rp)) (\<lambda>flags.
     after (give (ensure (\<not> has_unsafe_git_index_flags (go_stdout flags))
              (Bail ''recipe cache uses Git index flags; remove the cache and synchronise again''))) (\<lambda>_.
     after (run_git host (status_command dir) (rp_repository rp)) (\<lambda>status.
     after (no_difference host dir (rp_repository rp)) (\<lambda>_.
       give (ensure (go_stdout status = []) local_changes))))))))))))"

section \<open>Discovering and synchronising\<close>

definition discover_unlocked :: "host \<Rightarrow> recipe_repository \<Rightarrow> recipe_catalog act" where
  "discover_unlocked host rp s =
     (let (revision, t) = git_revision host rp s
      in case discover_path (ho_yaml host) revision (ca_checkout (rn_cache s))
                (rp_repository rp) (rp_reference rp) of
           Inl e \<Rightarrow> (Inl e, s)
         | Inr catalog \<Rightarrow> (Inr catalog, t))"

definition discover_unlocked_checked :: "host \<Rightarrow> recipe_repository \<Rightarrow> recipe_catalog act" where
  "discover_unlocked_checked host rp =
     after (peek (ensure_cache_path_is_safe rp)) (\<lambda>_.
     after (peek (restrict_cache_directory rp)) (\<lambda>_.
     after (ensure_cache_integrity host rp) (\<lambda>_.
     after (peek (\<lambda>c. and_then (reference_marker rp c)
              (ok_or (Bail ''recipe cache reference marker is missing; sync the repository'')))) (\<lambda>reference.
     after (give (ensure (reference = rp_reference rp)
              (Bail (''recipe cache contains reference '' @ reference @ '', expected '' @ rp_reference rp)))) (\<lambda>_.
     after (peek (\<lambda>c. and_then (revision_marker rp c)
              (ok_or (Bail ''recipe cache revision marker is missing; sync the repository'')))) (\<lambda>expected.
     after (git_revision host rp) (\<lambda>actual.
     after (give (ensure (expected = actual)
              (Bail ''recipe cache HEAD does not match its recorded revision; synchronise again''))) (\<lambda>_.
       discover_unlocked host rp))))))))"

definition update_checkout :: "host \<Rightarrow> recipe_repository \<Rightarrow> unit act" where
  "update_checkout host rp =
     after (ensure_cache_integrity host rp) (\<lambda>_.
     after (give (cache_path rp)) (\<lambda>dir.
     after (run_git host (fetch_command dir (rp_reference rp)) (rp_repository rp)) (\<lambda>_.
     after (run_git host (checkout_command dir) (rp_repository rp)) (\<lambda>_. give (Inr ())))))"

definition room_for_clone :: "recipe_repository \<Rightarrow> cache \<Rightarrow> (recipe_error, unit) result" where
  "room_for_clone rp cache =
     (case ca_dir cache of
        Soft \<Rightarrow> Inl (Bail ''recipe cache path must not be a symbolic link'')
      | Directory \<Rightarrow> Inl (Bail (''recipe cache path exists but is not a Git checkout: '' @ rp_cache_dir rp))
      | Plain _ \<Rightarrow> Inl (Bail (''recipe cache path exists but is not a Git checkout: '' @ rp_cache_dir rp))
      | _ \<Rightarrow> ensure (ca_parent cache) (Failed ''create recipe cache directory ''))"

definition clone_checkout :: "host \<Rightarrow> recipe_repository \<Rightarrow> unit act" where
  "clone_checkout host rp =
     after (peek (room_for_clone rp)) (\<lambda>_.
     after (give (cache_path rp)) (\<lambda>dir.
     after (run_git host (clone_command dir (rp_reference rp) (rp_repository rp)) (rp_repository rp)) (\<lambda>_.
       give (Inr ()))))"

definition sync_unlocked :: "host \<Rightarrow> recipe_repository \<Rightarrow> recipe_catalog act" where
  "sync_unlocked host rp =
     after (peek (ensure_cache_path_is_safe rp)) (\<lambda>_.
     after (peek (is_git_checkout rp)) (\<lambda>is_checkout.
     after (if is_checkout then update_checkout host rp else clone_checkout host rp) (\<lambda>_.
     after (peek (restrict_cache_directory rp)) (\<lambda>_.
     after (write_reference_marker host rp) (\<lambda>_.
       discover_unlocked_checked host rp)))))"

text \<open>\<open>ca_fetched\<close>: the age of \<open>FETCH_HEAD\<close>, when it has one, in the unit of the limit.\<close>

definition fresh_enough :: "nat \<Rightarrow> cache \<Rightarrow> bool" where
  "fresh_enough ttl cache \<longleftrightarrow> 0 < ttl \<and> (case ca_fetched cache of Some age \<Rightarrow> age < ttl | None \<Rightarrow> False)"

definition sync_if_stale_unlocked :: "host \<Rightarrow> recipe_repository \<Rightarrow> nat \<Rightarrow> recipe_catalog act" where
  "sync_if_stale_unlocked host rp ttl =
     after (peek (ensure_cache_path_is_safe rp)) (\<lambda>_.
     after (peek (reference_marker rp)) (\<lambda>marker.
     after (peek (\<lambda>c. Inr (marker = Some (rp_reference rp) \<and> fresh_enough ttl c))) (\<lambda>current.
       if current then discover_unlocked_checked host rp else sync_unlocked host rp)))"

text \<open>What runs under the lock, for \<open>recipe apply\<close> and for the listing commands.\<close>

definition prepare_catalog :: "host \<Rightarrow> recipe_repository \<Rightarrow> nat option \<Rightarrow> recipe_catalog act" where
  "prepare_catalog host rp ttl =
     (case ttl of Some t \<Rightarrow> sync_if_stale_unlocked host rp t | None \<Rightarrow> discover_unlocked_checked host rp)"

section \<open>A catalogue is of a verified checkout\<close>

lemma after_Inr: "after m f s = (Inr b, u) \<longleftrightarrow> (\<exists>a t. m s = (Inr a, t) \<and> f a t = (Inr b, u))"
  by (auto simp: after_def split: prod.splits sum.splits)

lemma give_Inr: "give r s = (Inr a, t) \<longleftrightarrow> r = Inr a \<and> t = s"
  by (auto simp: give_def)

lemma peek_Inr: "peek f s = (Inr a, t) \<longleftrightarrow> f (rn_cache s) = Inr a \<and> t = s"
  by (auto simp: peek_def)

lemmas act_simps = after_Inr give_Inr peek_Inr res_simps

definition inspections :: "string \<Rightarrow> string list list" where
  "inspections dir =
     [remote_command dir, submodule_command dir, flags_command dir, status_command dir,
      diff_command dir, revision_command dir]"

definition answer :: "host \<Rightarrow> cache \<Rightarrow> string list \<Rightarrow> git_output option" where
  "answer host cache args = fst (ho_git host [] cache args)"

text \<open>Looking does not change the checkout, and what is seen depends on the checkout alone.\<close>

definition looks_only :: "host \<Rightarrow> string \<Rightarrow> bool" where
  "looks_only host dir \<longleftrightarrow>
     (\<forall>log cache. \<forall>args \<in> set (inspections dir). ho_git host log cache args = (answer host cache args, cache))"

definition says :: "host \<Rightarrow> cache \<Rightarrow> string list \<Rightarrow> (git_output \<Rightarrow> bool) \<Rightarrow> bool" where
  "says host cache args P =
     (case answer host cache args of Some reply \<Rightarrow> go_success reply \<and> P reply | None \<Rightarrow> False)"

definition verified :: "host \<Rightarrow> recipe_repository \<Rightarrow> cache \<Rightarrow> string \<Rightarrow> bool" where
  "verified host rp cache revision \<longleftrightarrow>
     ca_dir cache \<noteq> Soft \<and> ca_git cache = Directory
     \<and> reference_marker rp cache = Inr (Some (rp_reference rp))
     \<and> revision_marker rp cache = Inr (Some revision)
     \<and> says host cache (remote_command (rp_cache_dir rp)) (\<lambda>reply. check_origin host rp reply = Inr ())
     \<and> says host cache (submodule_command (rp_cache_dir rp)) (\<lambda>reply. go_stdout reply = [])
     \<and> says host cache (flags_command (rp_cache_dir rp)) (\<lambda>reply. \<not> has_unsafe_git_index_flags (go_stdout reply))
     \<and> says host cache (status_command (rp_cache_dir rp)) (\<lambda>reply. go_stdout reply = [])
     \<and> says host cache (diff_command (rp_cache_dir rp)) (\<lambda>reply. True)
     \<and> says host cache (revision_command (rp_cache_dir rp)) (\<lambda>reply. trim (go_stdout reply) = revision)"

lemma looked:
  assumes "looks_only host dir" "args \<in> set (inspections dir)" "run_git host args repository s = (Inr reply, t)"
  shows "rn_cache t = rn_cache s" "answer host (rn_cache s) args = Some reply" "go_success reply"
  using assms by (auto simp: run_git_def looks_only_def Let_def split: option.splits if_splits)

lemma looked_says:
  assumes "looks_only host dir" "args \<in> set (inspections dir)" "run_git host args repository s = (Inr reply, t)"
  shows "rn_cache t = rn_cache s" "P reply \<Longrightarrow> says host (rn_cache s) args P"
  using looked[OF assms] by (simp_all add: says_def)

lemma no_difference_says:
  assumes "looks_only host dir" "no_difference host dir repository s = (Inr u, t)"
  shows "rn_cache t = rn_cache s" "says host (rn_cache s) (diff_command dir) (\<lambda>reply. True)"
proof -
  from assms(2) obtain reply where "run_git host (diff_command dir) repository s = (Inr reply, t)"
    by (auto simp: no_difference_def split: prod.splits sum.splits)
  from looked_says[OF assms(1) _ this] show "rn_cache t = rn_cache s"
    "says host (rn_cache s) (diff_command dir) (\<lambda>reply. True)" by (simp_all add: inspections_def)
qed

lemma git_revision_says:
  assumes "looks_only host (rp_cache_dir rp)" "git_revision host rp s = (Inr v, t)"
  shows "rn_cache t = rn_cache s"
    "says host (rn_cache s) (revision_command (rp_cache_dir rp)) (\<lambda>reply. trim (go_stdout reply) = v)"
proof -
  from assms(2) obtain reply where
    "run_git host (revision_command (rp_cache_dir rp)) ''<recipe repository>'' s = (Inr reply, t)"
    "trim (go_stdout reply) = v"
    by (auto simp: git_revision_def act_simps text_of_def split: if_splits)
  with looked_says[OF assms(1) _ this(1)] show "rn_cache t = rn_cache s"
    "says host (rn_cache s) (revision_command (rp_cache_dir rp)) (\<lambda>reply. trim (go_stdout reply) = v)"
    by (simp_all add: inspections_def)
qed

lemma integrity_says:
  assumes "looks_only host (rp_cache_dir rp)" "ensure_cache_integrity host rp s = (Inr u, t)"
  shows "rn_cache t = rn_cache s \<and> ca_git (rn_cache s) = Directory
     \<and> says host (rn_cache s) (remote_command (rp_cache_dir rp)) (\<lambda>reply. check_origin host rp reply = Inr ())
     \<and> says host (rn_cache s) (submodule_command (rp_cache_dir rp)) (\<lambda>reply. go_stdout reply = [])
     \<and> says host (rn_cache s) (flags_command (rp_cache_dir rp)) (\<lambda>reply. \<not> has_unsafe_git_index_flags (go_stdout reply))
     \<and> says host (rn_cache s) (status_command (rp_cache_dir rp)) (\<lambda>reply. go_stdout reply = [])
     \<and> says host (rn_cache s) (diff_command (rp_cache_dir rp)) (\<lambda>reply. True)"
proof -
  let ?dir = "rp_cache_dir rp"
  from assms(2) obtain origin t1 submodules t2 flags t3 status t4 where
    git: "is_git_checkout rp (rn_cache s) = Inr True"
    and r1: "run_git host (remote_command ?dir) (rp_repository rp) s = (Inr origin, t1)"
      "check_origin host rp origin = Inr ()"
    and r2: "run_git host (submodule_command ?dir) (rp_repository rp) t1 = (Inr submodules, t2)"
      "go_stdout submodules = []"
    and r3: "run_git host (flags_command ?dir) (rp_repository rp) t2 = (Inr flags, t3)"
      "\<not> has_unsafe_git_index_flags (go_stdout flags)"
    and r4: "run_git host (status_command ?dir) (rp_repository rp) t3 = (Inr status, t4)"
      "go_stdout status = []"
    and r5: "no_difference host ?dir (rp_repository rp) t4 = (Inr (), t)"
    by (auto simp: ensure_cache_integrity_def act_simps cache_path_def split: if_splits)
  note s1 = looked_says[OF assms(1) _ r1(1)] and s2 = looked_says[OF assms(1) _ r2(1)]
    and s3 = looked_says[OF assms(1) _ r3(1)] and s4 = looked_says[OF assms(1) _ r4(1)]
    and s5 = no_difference_says[OF assms(1) r5]
  have "ca_git (rn_cache s) = Directory"
    using git by (auto simp: is_git_checkout_def split: inode.splits)
  then show ?thesis using s1 s2 s3 s4 s5 r1(2) r2(2) r3(2) r4(2) by (simp add: inspections_def)
qed

lemma checked_discovery:
  assumes "looks_only host (rp_cache_dir rp)" "discover_unlocked_checked host rp s = (Inr c, t)"
  shows "verified host rp (rn_cache t) (ct_revision c)
    \<and> discover_path (ho_yaml host) (Inr (ct_revision c)) (ca_checkout (rn_cache t))
         (rp_repository rp) (rp_reference rp) = Inr c"
proof -
  from assms(2) obtain u t1 t2 revision where
    safe: "ensure_cache_path_is_safe rp (rn_cache s) = Inr ()"
    and integrity: "ensure_cache_integrity host rp s = (Inr u, t1)"
    and markers: "reference_marker rp (rn_cache t1) = Inr (Some (rp_reference rp))"
      "revision_marker rp (rn_cache t1) = Inr (Some revision)"
    and head: "git_revision host rp t1 = (Inr revision, t2)"
    and found: "discover_unlocked host rp t2 = (Inr c, t)"
    by (auto simp: discover_unlocked_checked_def act_simps)
  note same = integrity_says[OF assms(1) integrity] and seen = git_revision_says[OF assms(1) head]
  from found obtain again where again: "git_revision host rp t2 = (again, t)"
    and catalog: "discover_path (ho_yaml host) again (ca_checkout (rn_cache t2))
                    (rp_repository rp) (rp_reference rp) = Inr c"
    by (auto simp: discover_unlocked_def split: prod.splits sum.splits)
  have again_ok: "again = Inr revision \<and> rn_cache t = rn_cache t2"
    using head again assms(1) seen
    by (auto simp: git_revision_def after_def give_def run_git_def Let_def looks_only_def inspections_def
          text_of_def split: if_splits prod.splits sum.splits option.splits)
  then have "ct_revision c = revision"
    using catalog by (auto simp: discover_path_def res_simps Let_def split: if_splits option.splits)
  moreover have "ca_dir (rn_cache s) \<noteq> Soft"
    using safe by (auto simp: ensure_cache_path_is_safe_def)
  ultimately show ?thesis using same seen again_ok markers catalog by (simp add: verified_def)
qed

lemma sync_checked:
  "sync_unlocked host rp s = (Inr c, t) \<Longrightarrow> \<exists>u. discover_unlocked_checked host rp u = (Inr c, t)"
  by (auto simp: sync_unlocked_def act_simps)

lemma prepare_checked:
  assumes "prepare_catalog host rp ttl s = (Inr c, t)"
  shows "\<exists>u. discover_unlocked_checked host rp u = (Inr c, t)"
proof (cases ttl)
  case None
  then show ?thesis using assms by (auto simp: prepare_catalog_def)
next
  case (Some limit)
  then obtain current u where "(if current then discover_unlocked_checked host rp else sync_unlocked host rp) u = (Inr c, t)"
    using assms by (auto simp: prepare_catalog_def sync_if_stale_unlocked_def act_simps)
  then show ?thesis using sync_checked by (cases current) auto
qed

section \<open>What Git is asked to do\<close>

definition commands :: "recipe_repository \<Rightarrow> string list list" where
  "commands rp =
     inspections (rp_cache_dir rp)
     @ [fetch_command (rp_cache_dir rp) (rp_reference rp), checkout_command (rp_cache_dir rp),
        clone_command (rp_cache_dir rp) (rp_reference rp) (rp_repository rp)]"

definition issued :: "recipe_repository \<Rightarrow> run \<Rightarrow> run \<Rightarrow> bool" where
  "issued rp s t \<longleftrightarrow> (\<exists>new. rn_log t = rn_log s @ new \<and> fst ` set new \<subseteq> set (commands rp))"

definition issues :: "recipe_repository \<Rightarrow> 'a act \<Rightarrow> bool" where
  "issues rp m \<longleftrightarrow> (\<forall>s. issued rp s (snd (m s)))"

lemma issued_refl: "issued rp s s"
  by (simp add: issued_def)

lemma issued_trans: "issued rp s t \<Longrightarrow> issued rp t u \<Longrightarrow> issued rp s u"
  unfolding issued_def by (metis (no_types, lifting) Un_subset_iff append.assoc image_Un set_append)

named_theorems issue_intros \<open>which commands an action issues\<close>

lemma issues_after [issue_intros]: "issues rp m \<Longrightarrow> (\<And>a. issues rp (f a)) \<Longrightarrow> issues rp (after m f)"
  unfolding issues_def after_def
  by (auto split: prod.splits sum.splits) (metis issued_trans snd_conv)+

lemma issues_give [issue_intros]: "issues rp (give r)"
  by (simp add: issues_def give_def issued_refl)

lemma issues_peek [issue_intros]: "issues rp (peek f)"
  by (simp add: issues_def peek_def issued_refl)

lemma issues_if [issue_intros]: "issues rp m \<Longrightarrow> issues rp n \<Longrightarrow> issues rp (if b then m else n)"
  by simp

lemma issues_git [issue_intros]: "args \<in> set (commands rp) \<Longrightarrow> issues rp (run_git host args repository)"
proof -
  assume args: "args \<in> set (commands rp)"
  have "\<exists>out. rn_log (snd (run_git host args repository s)) = rn_log s @ [(args, out)]" for s
    by (simp add: run_git_def Let_def split: prod.splits)
  then show ?thesis unfolding issues_def issued_def using args by (metis (no_types, lifting)
        empty_subsetI fst_conv image_empty image_insert insert_subset list.set(1,2))
qed

lemma issues_marker [issue_intros]: "issues rp (write_cache_marker host path get put contents)"
proof -
  have "rn_log (snd (write_cache_marker host path get put contents s)) = rn_log s" for s
    by (simp add: write_cache_marker_def split: option.splits)
  then show ?thesis by (simp add: issues_def issued_def)
qed

lemma dir_then:
  "issues rp (f (rp_cache_dir rp)) \<Longrightarrow>
     issues rp (after (give (if is_utf8 (rp_cache_dir rp) then Inr (rp_cache_dir rp) else Inl e)) f)"
  by (simp add: issues_def after_def give_def issued_refl)

lemma cache_path_then: "issues rp (f (rp_cache_dir rp)) \<Longrightarrow> issues rp (after (give (cache_path rp)) f)"
  unfolding cache_path_def by (rule dir_then)

lemma issues_difference: "issues rp (no_difference host (rp_cache_dir rp) repository)"
proof -
  have "issues rp (run_git host (diff_command (rp_cache_dir rp)) repository)"
    by (intro issue_intros) (simp add: commands_def inspections_def)
  moreover have "snd (no_difference host dir repository s) = snd (run_git host (diff_command dir) repository s)"
    for dir s by (simp add: no_difference_def split: prod.splits sum.splits)
  ultimately show ?thesis by (simp add: issues_def)
qed

lemma issues_revision: "issues rp (git_revision host rp)"
  unfolding git_revision_def
  by (intro dir_then issue_intros) (simp add: commands_def inspections_def)

lemma issues_integrity: "issues rp (ensure_cache_integrity host rp)"
  unfolding ensure_cache_integrity_def
  by (intro issue_intros cache_path_then issues_difference) (simp_all add: commands_def inspections_def)

lemma issues_discover: "issues rp (discover_unlocked host rp)"
  using issues_revision[of rp host]
  by (auto simp: issues_def discover_unlocked_def issued_refl split: prod.splits sum.splits) (metis snd_conv)

lemma issues_checked: "issues rp (discover_unlocked_checked host rp)"
  unfolding discover_unlocked_checked_def
  by (intro issue_intros issues_integrity issues_revision issues_discover)

lemma issues_update: "issues rp (update_checkout host rp)"
  unfolding update_checkout_def
  by (intro issue_intros issues_integrity cache_path_then) (simp_all add: commands_def)

lemma issues_clone: "issues rp (clone_checkout host rp)"
  unfolding clone_checkout_def
  by (intro issue_intros cache_path_then) (simp_all add: commands_def)

lemma issues_sync: "issues rp (sync_unlocked host rp)"
  unfolding sync_unlocked_def write_reference_marker_def
  by (intro issue_intros issues_update issues_clone issues_revision issues_checked)

lemma issues_prepare: "issues rp (prepare_catalog host rp ttl)"
  unfolding prepare_catalog_def sync_if_stale_unlocked_def
  by (cases ttl) (simp_all add: issue_intros issues_sync issues_checked)

section \<open>Accepted repositories\<close>

lemma contains_append:
  assumes "contains (a @ b) [c, d]"
  shows "contains a [c, d] \<or> contains b [c, d] \<or> (a \<noteq> [] \<and> last a = c \<and> b \<noteq> [] \<and> hd b = d)"
proof -
  from assms obtain u v where "a @ b = u @ [c, d] @ v" by (auto simp: contains_iff)
  then consider w where "a = u @ w" "w @ b = [c, d] @ v" | w where "u = a @ w" "b = w @ [c, d] @ v"
    by (auto simp: append_eq_append_conv2)
  then show ?thesis
  proof cases
    case 1
    then consider "w = []" "b = [c, d] @ v" | "w = [c]" "b = d # v" | w' where "w = c # d # w'"
      by (cases w; cases "tl w"; fastforce)
    then show ?thesis
    proof cases
      case start: 1
      then show ?thesis unfolding contains_iff by (metis append_Nil)
    qed (use 1 in \<open>auto simp: contains_iff\<close>)
  next
    case 2
    then show ?thesis by (auto simp: contains_iff)
  qed
qed

lemma github_scheme: "split_once (''https://github.com/'' @ t) ''://'' = Some (''https'', ''github.com/'' @ t)"
  by (simp add: split_once_def starts_with_def)

text \<open>What is known of the transport of an accepted repository.\<close>

definition plain_transport :: "string \<Rightarrow> bool" where
  "plain_transport repository \<longleftrightarrow>
     \<not> contains repository ''::''
     \<and> (case split_once repository ''://'' of
          Some (scheme, _) \<Rightarrow> lowercase scheme \<in> {''https'', ''ssh'', ''file''} | None \<Rightarrow> True)"

lemma validated_transport: "validate_recipe_repository r = Inr () \<Longrightarrow> plain_transport r"
  by (auto simp: validate_recipe_repository_def valid_transport_def plain_transport_def
      all_checks_ok_iff ensure_Inr_iff simp del: all_checks.simps split: option.splits)

lemma github_transport:
  assumes "\<not> contains t ''::''"
  shows "plain_transport (''https://github.com/'' @ t)" "plain_transport (''https://github.com/'' @ t @ ''.git'')"
proof -
  have no_colons: "\<not> contains (''https://github.com/'' @ u) ''::''" if "\<not> contains u ''::''" for u
  proof
    assume "contains (''https://github.com/'' @ u) ''::''"
    from contains_append[OF this] that have "contains ''https://github.com/'' ''::''" by auto
    then show False by (simp add: contains_def starts_with_def)
  qed
  have "\<not> contains (t @ ''.git'') ''::''"
  proof
    assume "contains (t @ ''.git'') ''::''"
    from contains_append[OF this] assms have "contains ''.git'' ''::''" by auto
    then show False by (simp add: contains_def starts_with_def)
  qed
  with assms no_colons show "plain_transport (''https://github.com/'' @ t)"
    "plain_transport (''https://github.com/'' @ t @ ''.git'')"
    by (simp_all only: plain_transport_def github_scheme option.case prod.case) (simp_all add: lowercase_def to_lower_def is_upper_def byte_def)
qed

lemma normalised_transport:
  assumes "validate_recipe_repository r = Inr ()" "trim r = r"
  shows "plain_transport (normalise_repository r)"
proof -
  have "plain_transport r" by (rule validated_transport[OF assms(1)])
  moreover from this have "\<not> contains r ''::''" by (simp add: plain_transport_def)
  ultimately show ?thesis using github_transport assms(2)
    by (simp add: normalise_repository_def Let_def)
qed

section \<open>Properties\<close>

definition example_url :: string where "example_url = ''https://a.b/r''"

definition example_repository_of :: recipe_repository where
  "example_repository_of =
     \<lparr>rp_repository = example_url, rp_reference = ''main'', rp_cache_dir = ''/h/pbox/recipes/0''\<rparr>"

definition reply :: "string \<Rightarrow> git_output option" where
  "reply text = Some \<lparr>go_success = True, go_status = [], go_stdout = text, go_stderr = []\<rparr>"

text \<open>A Git that reports a clean checkout of that repository at one revision.\<close>

definition clean_git :: "string list \<Rightarrow> git_output option" where
  "clean_git args =
     (if ''remote'' \<in> set args then reply example_url
      else if ''rev-parse'' \<in> set args then reply ''r1'' else reply [])"

definition clean_host :: host where
  "clean_host =
     \<lparr>ho_git = (\<lambda>log cache args. (clean_git args, cache)), ho_marker = (\<lambda>_. None),
      ho_canonical = (\<lambda>_. None), ho_yaml = (\<lambda>_. None)\<rparr>"

definition clean_cache :: cache where
  "clean_cache =
     \<lparr>ca_dir = Directory, ca_git = Directory, ca_reference = Missing, ca_revision = Missing,
      ca_fetched = None, ca_parent = True, ca_owned = True, ca_checkout = example_checkout\<rparr>"

definition clean_run :: run where
  "clean_run = \<lparr>rn_log = [], rn_cache = clean_cache\<rparr>"

lemma clean_looks: "looks_only clean_host dir"
  by (simp add: looks_only_def clean_host_def answer_def)

lemma clean_sync:
  "fst (prepare_catalog clean_host example_repository_of (Some 60) clean_run) =
     Inr (example_catalog\<lparr>ct_repository := example_url\<rparr>)"
  by code_simp

lemma clean_synced:
  "prepare_catalog clean_host example_repository_of (Some 60) clean_run =
     (Inr (example_catalog\<lparr>ct_repository := example_url\<rparr>),
      snd (prepare_catalog clean_host example_repository_of (Some 60) clean_run))"
  using clean_sync by (simp add: prod_eq_iff)

lemma accepted_example:
  "new_repository (\<lambda>_. ''0'') (Some ''/h'') (Some example_url) ''main'' = Inr example_repository_of"
  by code_simp

text \<open>
  C34: A catalogue that is handed out, freshly synchronised or from the cache, describes a
  verified checkout: the cache is a directory with its own Git directory, not a link; the
  recorded reference is the configured one and the recorded revision is the one Git has
  checked out; the origin is the configured repository; there are no submodules, no index
  flags that hide changes and no local changes of any kind; and the catalogue is what
  discovery finds there, under that revision. Git is assumed to answer questions about an
  unchanged checkout alike and not to change it by answering them.
\<close>

theorem catalog_verified:
  assumes "looks_only host (rp_cache_dir rp)"
    and "prepare_catalog host rp ttl s = (Inr c, t) \<or> sync_unlocked host rp s = (Inr c, t)"
  shows "verified host rp (rn_cache t) (ct_revision c)
    \<and> discover_path (ho_yaml host) (Inr (ct_revision c)) (ca_checkout (rn_cache t))
         (rp_repository rp) (rp_reference rp) = Inr c"
proof -
  from assms(2) obtain u where "discover_unlocked_checked host rp u = (Inr c, t)"
    using prepare_checked sync_checked by blast
  then show ?thesis by (rule checked_discovery[OF assms(1)])
qed

lemma catalog_verified_witness:
  "verified clean_host example_repository_of
     (rn_cache (snd (prepare_catalog clean_host example_repository_of (Some 60) clean_run))) ''r1''"
  using catalog_verified[OF clean_looks disjI1[OF clean_synced]] by (simp add: example_catalog_def)

text \<open>
  C35: Nothing a user configures reaches Git as anything but a repository or a reference:
  once a repository and reference are accepted, every command run for them is one of nine
  fixed ones with the reference and the repository in their places, the repository after
  the end of the options, the reference not starting with a hyphen, and the repository
  naming no transport but HTTPS, SSH or files.
\<close>

theorem git_commands_confined:
  assumes "new_repository sha256 cache_home repository reference = Inr rp"
    and "prepare_catalog host rp ttl s = (r, t) \<or> sync_unlocked host rp s = (r, t)"
  shows "issued rp s t \<and> \<not> starts_with (rp_reference rp) ''-'' \<and> plain_transport (rp_repository rp)"
proof -
  have "issued rp s t"
    using assms(2) issues_prepare[of rp host ttl] issues_sync[of rp host] unfolding issues_def
    by (metis snd_conv)
  moreover define r0 where "r0 = trim (case repository of Some r \<Rightarrow> r | None \<Rightarrow> DEFAULT_REPOSITORY)"
  then have "trim r0 = r0" by simp
  moreover from assms(1) have r0: "validate_recipe_repository r0 = Inr ()"
    "rp_repository rp = normalise_repository r0" "validate_recipe_reference (rp_reference rp) = Inr ()"
    unfolding new_repository_def r0_def[symmetric] Let_def by (auto simp: res_simps split: if_splits)
  moreover from r0(3) have "\<not> starts_with (rp_reference rp) ''-''"
    by (simp add: validate_recipe_reference_def res_simps)
  ultimately show ?thesis using normalised_transport[OF r0(1)] by simp
qed

lemma git_commands_confined_witness:
  "issued example_repository_of clean_run
     (snd (prepare_catalog clean_host example_repository_of (Some 60) clean_run))"
  using git_commands_confined[OF accepted_example disjI1[OF clean_synced]] by simp

end
