(* ===== verification/RecipeLock.thy ===== *)
theory RecipeLock
  imports Recipes Interfaces
begin

text \<open>
  The lock file of the recipe cache (\<open>acquire_lock\<close> and \<open>stale_lock\<close> of
  \<open>crates/pbox-cli/src/recipes.rs\<close>) as processes see it: every system call is one event,
  the events of all processes interleave, and a process may die at any point.
\<close>

section \<open>The file\<close>

definition lock_text :: "nat \<Rightarrow> string" where
  "lock_text pid = ''pid='' @ show_nat pid @ [CHR 0x0A]"

text \<open>The process a lock names: the first line with the prefix decides.\<close>

definition lock_owner :: "string \<Rightarrow> nat option" where
  "lock_owner contents =
     (case List.map_filter (\<lambda>l. strip_prefix l ''pid='') (text_lines contents) of
        [] \<Rightarrow> None
      | v # _ \<Rightarrow> parse_u32 (trim v))"

section \<open>Processes\<close>

text \<open>
  Where a process is in \<open>acquire_lock\<close>; the number is that of the attempts left. An opened
  lock file keeps its identity when it is renamed or removed.
\<close>

datatype lock_phase =
    Starting nat
  | Conflict nat
  | Inspected nat bool
  | Asking nat nat
  | Stale nat
  | Quarantined nat
  | Opened nat
  | Holding
  | Refused
  | Released

record locks =
  lk_file :: "(nat \<times> string) option"
  lk_next :: nat
  lk_phase :: "nat \<Rightarrow> lock_phase option"
  lk_alive :: "nat list"

datatype lock_event =
    Begin nat
  | Create nat
  | Inspect nat bool
  | ReadLock nat
  | Probe nat
  | Rename nat
  | Unlink nat bool
  | WritePid nat bool
  | Release nat
  | Die nat

definition move_to :: "nat \<Rightarrow> lock_phase \<Rightarrow> locks \<Rightarrow> locks" where
  "move_to p ph s = s\<lparr>lk_phase := (lk_phase s)(p \<mapsto> ph)\<rparr>"

text \<open>\<open>Inspect p old\<close>: the file was last changed at least an hour ago.\<close>

fun lock_step :: "lock_event \<Rightarrow> locks \<Rightarrow> locks option" where
  "lock_step (Begin p) s =
     (if p \<in> set (lk_alive s) \<and> lk_phase s p \<in> {None, Some Refused, Some Released}
      then Some (move_to p (Starting 2) s) else None)"
| "lock_step (Create p) s =
     (case lk_phase s p of
        Some (Starting 0) \<Rightarrow> Some (move_to p Refused s)
      | Some (Starting (Suc n)) \<Rightarrow>
          (case lk_file s of
             Some _ \<Rightarrow> Some (move_to p (Conflict n) s)
           | None \<Rightarrow> Some (move_to p (Opened (lk_next s))
                       (s\<lparr>lk_file := Some (lk_next s, []), lk_next := Suc (lk_next s)\<rparr>)))
      | _ \<Rightarrow> None)"
| "lock_step (Inspect p old) s =
     (case lk_phase s p of
        Some (Conflict n) \<Rightarrow>
          Some (move_to p (if lk_file s = None then Refused else Inspected n old) s)
      | _ \<Rightarrow> None)"
| "lock_step (ReadLock p) s =
     (case lk_phase s p of
        Some (Inspected n old) \<Rightarrow>
          Some (move_to p
            (case lk_file s of
               None \<Rightarrow> Refused
             | Some (_, contents) \<Rightarrow>
                 (case lock_owner contents of
                    Some q \<Rightarrow> Asking n q
                  | None \<Rightarrow> if old then Stale n else Refused)) s)
      | _ \<Rightarrow> None)"
| "lock_step (Probe p) s =
     (case lk_phase s p of
        Some (Asking n q) \<Rightarrow> Some (move_to p (if q \<in> set (lk_alive s) then Refused else Stale n) s)
      | _ \<Rightarrow> None)"
| "lock_step (Rename p) s =
     (case lk_phase s p of
        Some (Stale n) \<Rightarrow>
          (case lk_file s of
             None \<Rightarrow> Some (move_to p (Starting n) s)
           | Some _ \<Rightarrow> Some (move_to p (Quarantined n) (s\<lparr>lk_file := None\<rparr>)))
      | _ \<Rightarrow> None)"
| "lock_step (Unlink p ok) s =
     (case lk_phase s p of
        Some (Quarantined n) \<Rightarrow> Some (move_to p (if ok then Starting n else Refused) s)
      | _ \<Rightarrow> None)"
| "lock_step (WritePid p ok) s =
     (case lk_phase s p of
        Some (Opened i) \<Rightarrow>
          (if ok
           then Some (move_to p Holding
                  (case lk_file s of
                     Some (j, _) \<Rightarrow> if j = i then s\<lparr>lk_file := Some (i, lock_text p)\<rparr> else s
                   | None \<Rightarrow> s))
           else Some (move_to p Refused (s\<lparr>lk_file := None\<rparr>)))
      | _ \<Rightarrow> None)"
| "lock_step (Release p) s =
     (if lk_phase s p = Some Holding then Some (move_to p Released (s\<lparr>lk_file := None\<rparr>)) else None)"
| "lock_step (Die p) s =
     (if p \<in> set (lk_alive s)
      then Some (s\<lparr>lk_phase := (lk_phase s)(p := None), lk_alive := filter (\<lambda>q. q \<noteq> p) (lk_alive s)\<rparr>)
      else None)"

definition lock_moves :: "lock_event \<Rightarrow> locks \<Rightarrow> locks \<Rightarrow> bool" where
  "lock_moves e s t \<longleftrightarrow> lock_step e s = Some t"

definition idle :: "nat list \<Rightarrow> (nat \<times> string) option \<Rightarrow> locks" where
  "idle alive lock_file = \<lparr>lk_file = lock_file, lk_next = 1, lk_phase = (\<lambda>_. None), lk_alive = alive\<rparr>"

definition holds :: "locks \<Rightarrow> nat \<Rightarrow> bool" where
  "holds s p \<longleftrightarrow> lk_phase s p = Some Holding"

section \<open>Exclusion\<close>

text \<open>Nobody dies, and no lock file is an hour old when it is inspected.\<close>

fun calm :: "lock_event \<Rightarrow> bool" where
  "calm (Die _) = False"
| "calm (Inspect _ old) = (\<not> old)"
| "calm _ = True"

definition calm_moves :: "lock_event \<Rightarrow> locks \<Rightarrow> locks \<Rightarrow> bool" where
  "calm_moves e s t \<longleftrightarrow> calm e \<and> lock_moves e s t"

text \<open>What a process in some phase makes of the file.\<close>

fun fits :: "nat list \<Rightarrow> (nat \<times> string) option \<Rightarrow> nat \<Rightarrow> lock_phase \<Rightarrow> bool" where
  "fits alive f p (Opened i) \<longleftrightarrow> f = Some (i, [])"
| "fits alive f p Holding \<longleftrightarrow> (\<exists>i. f = Some (i, lock_text p))"
| "fits alive f p (Asking n q) \<longleftrightarrow> q \<in> set alive"
| "fits alive f p (Inspected n old) \<longleftrightarrow> \<not> old"
| "fits alive f p (Stale n) \<longleftrightarrow> False"
| "fits alive f p (Quarantined n) \<longleftrightarrow> False"
| "fits alive f p _ \<longleftrightarrow> True"

fun occupies :: "lock_phase \<Rightarrow> bool" where
  "occupies (Opened _) = True"
| "occupies Holding = True"
| "occupies _ = False"

definition lock_inv :: "locks \<Rightarrow> bool" where
  "lock_inv s \<longleftrightarrow>
     (\<forall>p \<in> set (lk_alive s). p \<le> U32_MAX)
     \<and> (\<forall>p ph. lk_phase s p = Some ph \<longrightarrow> p \<in> set (lk_alive s) \<and> fits (lk_alive s) (lk_file s) p ph)
     \<and> (\<forall>f. lk_file s = Some f \<longrightarrow> (\<exists>p ph. lk_phase s p = Some ph \<and> occupies ph))
     \<and> (\<forall>p q ph ph'. lk_phase s p = Some ph \<longrightarrow> lk_phase s q = Some ph' \<longrightarrow> occupies ph \<longrightarrow> occupies ph'
          \<longrightarrow> p = q)"

lemma lock_owner_text:
  assumes "p \<le> U32_MAX"
  shows "lock_owner (lock_text p) = Some p"
proof -
  have digits: "c \<in> set (show_nat p) \<Longrightarrow> is_digit c" for c by (rule show_nat_digit_in)
  have last: "is_digit (last (show_nat p))" "is_digit (hd (show_nat p))" by (auto intro: digits)
  have "CHR 0x0A \<notin> set (''pid='' @ show_nat p)" using digits[of "CHR 0x0A"] by (auto simp: is_digit_def byte_def)
  then have "split_char CHR 0x0A (lock_text p) = [''pid='' @ show_nat p, []]"
    using split_char_append[of "CHR 0x0A" "''pid='' @ show_nat p" "[]"] by (simp add: lock_text_def)
  moreover have "strip_suffix (''pid='' @ show_nat p) [CHR 0x0D] = None"
  proof -
    have "last (''pid='' @ show_nat p) \<noteq> CHR 0x0D" using last(1) by (auto simp: is_digit_def byte_def)
    then show ?thesis by (metis not_None_eq strip_suffix_Some_iff last_snoc)
  qed
  ultimately have "text_lines (lock_text p) = [''pid='' @ show_nat p]" by (simp add: text_lines_def)
  moreover have "trim (show_nat p) = show_nat p"
    using last by (intro trim_printable) (auto simp: printable_def is_digit_def)
  ultimately show ?thesis using assms
    by (simp add: lock_owner_def map_filter_simps strip_prefix_def starts_with_def parse_uint_show_nat)
qed

lemma fits_other:
  "\<not> occupies ph \<Longrightarrow> fits alive f p ph \<longleftrightarrow> fits alive g p ph"
  by (cases ph) auto

lemma occupies_file: "fits alive f p ph \<Longrightarrow> occupies ph \<Longrightarrow> f \<noteq> None"
  by (cases ph) auto

lemma lock_invI:
  assumes "\<And>p. p \<in> set (lk_alive s) \<Longrightarrow> p \<le> U32_MAX"
    and "\<And>p ph. lk_phase s p = Some ph \<Longrightarrow> p \<in> set (lk_alive s) \<and> fits (lk_alive s) (lk_file s) p ph"
    and "lk_file s \<noteq> None \<Longrightarrow> \<exists>p ph. lk_phase s p = Some ph \<and> occupies ph"
    and "\<And>p q ph ph'. lk_phase s p = Some ph \<Longrightarrow> lk_phase s q = Some ph' \<Longrightarrow> occupies ph \<Longrightarrow>
           occupies ph' \<Longrightarrow> p = q"
  shows "lock_inv s"
  using assms unfolding lock_inv_def by blast

lemma lock_invD:
  assumes "lock_inv s"
  shows "p \<in> set (lk_alive s) \<Longrightarrow> p \<le> U32_MAX"
    "lk_phase s p = Some ph \<Longrightarrow> p \<in> set (lk_alive s) \<and> fits (lk_alive s) (lk_file s) p ph"
    "lk_file s \<noteq> None \<Longrightarrow> \<exists>p ph. lk_phase s p = Some ph \<and> occupies ph"
    "lk_phase s p = Some ph \<Longrightarrow> lk_phase s q = Some ph' \<Longrightarrow> occupies ph \<Longrightarrow> occupies ph' \<Longrightarrow> p = q"
  using assms unfolding lock_inv_def by blast+

text \<open>A process that moves on without the file.\<close>

lemma inv_pass:
  assumes "lock_inv s" "p \<in> set (lk_alive s)" "\<not> occupies ph" "fits (lk_alive s) (lk_file s) p ph"
    and old: "\<And>old. lk_phase s p = Some old \<Longrightarrow> \<not> occupies old"
  shows "lock_inv (move_to p ph s)"
proof (rule lock_invI)
  assume "lk_file (move_to p ph s) \<noteq> None"
  then have "lk_file s \<noteq> None" by (simp add: move_to_def)
  from lock_invD(3)[OF assms(1) this] obtain q ph' where q: "lk_phase s q = Some ph'" "occupies ph'" by blast
  then have "q \<noteq> p" using old by auto
  then show "\<exists>q ph'. lk_phase (move_to p ph s) q = Some ph' \<and> occupies ph'"
    using q by (intro exI[of _ q] exI[of _ ph']) (simp add: move_to_def)
next
  fix q r ph1 ph2
  assume "lk_phase (move_to p ph s) q = Some ph1" "lk_phase (move_to p ph s) r = Some ph2"
    "occupies ph1" "occupies ph2"
  then show "q = r" using assms(3) lock_invD(4)[OF assms(1), of q ph1 r ph2]
    by (auto simp: move_to_def split: if_splits)
qed (use assms(2-4) lock_invD(1,2)[OF assms(1)] in \<open>auto simp: move_to_def split: if_splits\<close>)

text \<open>A process that changes the file, when no other process occupies it.\<close>

lemma inv_change:
  assumes inv: "lock_inv s" and alive: "p \<in> set (lk_alive s)"
    and alone: "\<And>q ph'. lk_phase s q = Some ph' \<Longrightarrow> occupies ph' \<Longrightarrow> q = p"
    and fits: "fits (lk_alive s) f p ph" and kept: "f = None \<or> occupies ph"
  shows "lock_inv (move_to p ph (s\<lparr>lk_file := f, lk_next := n\<rparr>))"
proof (rule lock_invI)
  fix q ph'
  assume "lk_phase (move_to p ph (s\<lparr>lk_file := f, lk_next := n\<rparr>)) q = Some ph'"
  then consider "q = p" "ph' = ph" | "q \<noteq> p" "lk_phase s q = Some ph'" by (auto simp: move_to_def split: if_splits)
  then show "q \<in> set (lk_alive (move_to p ph (s\<lparr>lk_file := f, lk_next := n\<rparr>)))
     \<and> fits (lk_alive (move_to p ph (s\<lparr>lk_file := f, lk_next := n\<rparr>)))
          (lk_file (move_to p ph (s\<lparr>lk_file := f, lk_next := n\<rparr>))) q ph'"
  proof cases
    case 1
    then show ?thesis using alive fits by (simp add: move_to_def)
  next
    case 2
    then have "\<not> occupies ph'" using alone by blast
    with lock_invD(2)[OF inv 2(2)] fits_other[of ph' "lk_alive s" "lk_file s" q f]
    show ?thesis by (simp add: move_to_def)
  qed
next
  assume "lk_file (move_to p ph (s\<lparr>lk_file := f, lk_next := n\<rparr>)) \<noteq> None"
  then show "\<exists>q ph'. lk_phase (move_to p ph (s\<lparr>lk_file := f, lk_next := n\<rparr>)) q = Some ph' \<and> occupies ph'"
    using kept by (intro exI[of _ p] exI[of _ ph]) (auto simp: move_to_def)
qed (use lock_invD(1)[OF inv] alone in \<open>auto simp: move_to_def split: if_splits\<close>)

lemma inv_free: "lock_inv s \<Longrightarrow> lk_file s = None \<Longrightarrow> lk_phase s q = Some ph \<Longrightarrow> \<not> occupies ph"
  using lock_invD(2)[of s q ph] occupies_file by blast

lemma inv_owner:
  "lock_inv s \<Longrightarrow> lk_phase s p = Some ph \<Longrightarrow> occupies ph \<Longrightarrow> lk_phase s q = Some ph' \<Longrightarrow> occupies ph' \<Longrightarrow> q = p"
  using lock_invD(4) by blast

text \<open>The name in the file is that of a living process.\<close>

lemma inv_named:
  assumes "lock_inv s" "lk_file s = Some (i, contents)" "lock_owner contents = Some q"
  shows "q \<in> set (lk_alive s)"
proof -
  from lock_invD(3)[OF assms(1)] assms(2) obtain p ph where p: "lk_phase s p = Some ph" "occupies ph" by auto
  with lock_invD(2)[OF assms(1) p(1)] have alive: "p \<in> set (lk_alive s)"
    and fits: "fits (lk_alive s) (lk_file s) p ph" by auto
  have "lock_owner [] = None" by (simp add: lock_owner_def text_lines_def map_filter_simps)
  with fits p(2) assms(2,3) have "contents = lock_text p" by (cases ph) auto
  then show ?thesis using assms(3) lock_owner_text[OF lock_invD(1)[OF assms(1) alive]] alive by simp
qed

lemma calm_inv:
  assumes inv: "lock_inv s" and move: "calm_moves e s t"
  shows "lock_inv t"
proof -
  from move have calm: "calm e" and step: "lock_step e s = Some t"
    by (auto simp: calm_moves_def lock_moves_def)
  note pass = inv_pass[OF inv]
  show ?thesis
  proof (cases e)
    case (Begin p)
    then show ?thesis using step by (auto split: if_splits intro!: pass)
  next
    case (Create p)
    with step obtain n where ph: "lk_phase s p = Some (Starting n)"
      by (auto split: option.splits lock_phase.splits)
    note p = lock_invD(2)[OF inv ph]
    show ?thesis
    proof (cases n)
      case 0
      then show ?thesis using step Create ph p by (auto intro!: pass)
    next
      case (Suc k)
      show ?thesis
      proof (cases "lk_file s")
        case None
        have "lock_inv (move_to p (Opened (lk_next s))
                (s\<lparr>lk_file := Some (lk_next s, []), lk_next := Suc (lk_next s)\<rparr>))"
          by (rule inv_change[OF inv]) (use p inv_free[OF inv None] in auto)
        then show ?thesis using step Create ph Suc None by simp
      next
        case (Some f)
        then show ?thesis using step Create ph p Suc by (auto intro!: pass)
      qed
    qed
  next
    case (Inspect p old)
    with step obtain n where ph: "lk_phase s p = Some (Conflict n)"
      by (auto split: option.splits lock_phase.splits)
    show ?thesis using step Inspect ph calm lock_invD(2)[OF inv ph] by (auto intro!: pass split: if_splits)
  next
    case (ReadLock p)
    with step obtain n old where ph: "lk_phase s p = Some (Inspected n old)"
      by (auto split: option.splits lock_phase.splits)
    show ?thesis using step ReadLock ph lock_invD(2)[OF inv ph] inv_named[OF inv]
      by (auto split: option.splits intro!: pass)
  next
    case (Probe p)
    with step obtain n q where ph: "lk_phase s p = Some (Asking n q)"
      by (auto split: option.splits lock_phase.splits)
    show ?thesis using step Probe ph lock_invD(2)[OF inv ph] by (auto intro!: pass)
  next
    case (Rename p)
    with step obtain n where ph: "lk_phase s p = Some (Stale n)"
      by (auto split: option.splits lock_phase.splits)
    then show ?thesis using lock_invD(2)[OF inv ph] by simp
  next
    case (Unlink p ok)
    with step obtain n where ph: "lk_phase s p = Some (Quarantined n)"
      by (auto split: option.splits lock_phase.splits)
    then show ?thesis using lock_invD(2)[OF inv ph] by simp
  next
    case (WritePid p ok)
    with step obtain i where ph: "lk_phase s p = Some (Opened i)"
      by (auto split: option.splits lock_phase.splits)
    note p = lock_invD(2)[OF inv ph] and alone = inv_owner[OF inv ph]
    have same: "s\<lparr>lk_file := f\<rparr> = s\<lparr>lk_file := f, lk_next := lk_next s\<rparr>" for f by simp
    show ?thesis
    proof (cases ok)
      case True
      have "lock_inv (move_to p Holding (s\<lparr>lk_file := Some (i, lock_text p), lk_next := lk_next s\<rparr>))"
        by (rule inv_change[OF inv]) (use p alone in auto)
      then show ?thesis using step WritePid ph p True by simp
    next
      case False
      have "lock_inv (move_to p Refused (s\<lparr>lk_file := None, lk_next := lk_next s\<rparr>))"
        by (rule inv_change[OF inv]) (use p alone in auto)
      then show ?thesis using step WritePid ph False by simp
    qed
  next
    case (Release p)
    with step have ph: "lk_phase s p = Some Holding" by (auto split: if_splits)
    have "lock_inv (move_to p Released (s\<lparr>lk_file := None, lk_next := lk_next s\<rparr>))"
      by (rule inv_change[OF inv]) (use lock_invD(2)[OF inv ph] inv_owner[OF inv ph] in auto)
    then show ?thesis using step Release ph by simp
  next
    case (Die p)
    then show ?thesis using calm by simp
  qed
qed

interpretation recipe_lock: event_system calm_moves lock_inv
  by unfold_locales (rule calm_inv)

section \<open>Properties\<close>

lemma idle_inv: "\<forall>p \<in> set alive. p \<le> U32_MAX \<Longrightarrow> lock_inv (idle alive None)"
  by (rule lock_invI) (auto simp: idle_def)

definition lock_run :: "lock_event list \<Rightarrow> locks \<Rightarrow> locks option" where
  "lock_run events s = fold (\<lambda>e r. Option.bind r (lock_step e)) events (Some s)"

text \<open>Running a list of events is reaching a state.\<close>

lemma fold_None: "fold (\<lambda>e r. Option.bind r (lock_step e)) events None = None"
  by (induction events) auto

lemma reaches_trans_step:
  "step e s t \<Longrightarrow> reaches step t u \<Longrightarrow> reaches step s u"
  by (rotate_tac) (induction rule: reaches.induct, auto intro: reaches.intros)

lemma lock_run_reaches: "lock_run events s = Some t \<Longrightarrow> reaches lock_moves s t"
proof (induction events arbitrary: s)
  case Nil
  then show ?case by (simp add: lock_run_def reaches_refl)
next
  case (Cons e events)
  then obtain u where u: "lock_step e s = Some u" "lock_run events u = Some t"
    by (cases "lock_step e s") (auto simp: lock_run_def fold_None)
  have "lock_moves e s u" using u(1) by (simp add: lock_moves_def)
  then show ?case by (rule reaches_trans_step) (rule Cons.IH[OF u(2)])
qed

lemma calm_run_reaches:
  "list_all calm events \<Longrightarrow> lock_run events s = Some t \<Longrightarrow> reaches calm_moves s t"
proof (induction events arbitrary: s)
  case Nil
  then show ?case by (simp add: lock_run_def reaches_refl)
next
  case (Cons e events)
  then obtain u where u: "lock_step e s = Some u" "lock_run events u = Some t"
    by (cases "lock_step e s") (auto simp: lock_run_def fold_None)
  have "calm_moves e s u" using u(1) Cons.prems(1) by (simp add: calm_moves_def lock_moves_def)
  then show ?case by (rule reaches_trans_step) (rule Cons.IH[OF _ u(2)], use Cons.prems(1) in simp)
qed

lemmas lock_run_defs = lock_run_def idle_def holds_def move_to_def lock_owner_text U32_MAX_def
  numeral_eq_Suc[of "Num.Bit0 num.One"]

text \<open>
  Taking over a lock left behind is not atomic: when two processes have both seen that its
  owner is gone, the slower one renames away the lock the faster one has meanwhile made, and
  both hold it.
\<close>

definition takeover :: "lock_event list" where
  "takeover =
     [Begin 1, Begin 2, Create 1, Create 2, Inspect 1 False, Inspect 2 False, ReadLock 1, ReadLock 2,
      Probe 1, Probe 2, Rename 1, Unlink 1 True, Create 1, WritePid 1 True,
      Rename 2, Unlink 2 True, Create 2, WritePid 2 True]"

lemma stale_lock_shared:
  "\<exists>s. reaches lock_moves (idle [1, 2] (Some (0, lock_text 9))) s \<and> holds s 1 \<and> holds s 2"
proof -
  have "case lock_run takeover (idle [1, 2] (Some (0, lock_text 9))) of
          Some s \<Rightarrow> holds s 1 \<and> holds s 2 | None \<Rightarrow> False"
    by (simp add: lock_run_defs takeover_def)
  then obtain s where "lock_run takeover (idle [1, 2] (Some (0, lock_text 9))) = Some s"
    "holds s 1" "holds s 2" by (auto split: option.splits)
  then show ?thesis using lock_run_reaches by blast
qed

definition quiet_lock :: "lock_event list" where
  "quiet_lock = [Begin 1, Begin 2, Create 1, WritePid 1 True, Create 2, Inspect 2 False, ReadLock 2, Probe 2]"



end
