(* ===== verification/Workspace.thy ===== *)
theory Workspace
  imports AgentRequests FileTrees Interfaces
begin

text \<open>
  The agent as the first process of an image-based box
  (\<open>crates/pbox-agent/src/workspace.rs\<close>): what the image's configuration adds to a
  request, the identity a command runs under, and the supervision of its services when the
  image brings no systemd. The account database, the parsed
  image configuration and the clock are arguments.
\<close>

section \<open>The image configuration\<close>

datatype json = Text string | Items "json list" | Other

type_synonym oci_config = "(string \<times> json) list"

definition as_text :: "oci_config \<Rightarrow> string \<Rightarrow> string option" where
  "as_text config key = (case map_of config key of Some (Text s) \<Rightarrow> Some s | _ \<Rightarrow> None)"

definition image_strings :: "oci_config \<Rightarrow> string \<Rightarrow> string list" where
  "image_strings config key =
     (case map_of config key of
        Some (Items items) \<Rightarrow> List.map_filter (\<lambda>j. case j of Text s \<Rightarrow> Some s | _ \<Rightarrow> None) items
      | _ \<Rightarrow> [])"

definition text_or :: "oci_config \<Rightarrow> string \<Rightarrow> string \<Rightarrow> string" where
  "text_or config key otherwise =
     (case as_text config key of Some s \<Rightarrow> if s = [] then otherwise else s | None \<Rightarrow> otherwise)"

section \<open>Accounts\<close>

record account =
  ac_name :: string
  ac_uid :: nat
  ac_gid :: nat
  ac_dir :: string
  ac_shell :: string

text \<open>A lookup can fail, or find nobody.\<close>

record accounts =
  as_by_uid :: "nat \<Rightarrow> (string, account option) result"
  as_by_name :: "string \<Rightarrow> (string, account option) result"
  as_group :: "string \<Rightarrow> (string, nat option) result"
  as_groups :: "string \<Rightarrow> nat \<Rightarrow> (string, nat list) result"

record identity =
  id_uid :: nat
  id_gid :: nat
  id_name :: "string option"
  id_home :: string
  id_shell :: string

definition group_id :: "accounts \<Rightarrow> string option \<Rightarrow> account option \<Rightarrow> (string, nat) result" where
  "group_id db grp user =
     (case grp of
        Some g \<Rightarrow>
          (case parse_u32 g of
             Some gid \<Rightarrow> Inr gid
           | None \<Rightarrow> and_then (as_group db g) (ok_or ''image group does not exist''))
      | None \<Rightarrow> Inr (case user of Some u \<Rightarrow> ac_gid u | None \<Rightarrow> 0))"

definition identity_of :: "accounts \<Rightarrow> string \<Rightarrow> (string, identity) result" where
  "identity_of db reference =
     (let (name, grp) = (case split_once reference '':'' of Some (u, g) \<Rightarrow> (u, Some g) | None \<Rightarrow> (reference, None));
          numeric = parse_u32 name
      in and_then (case numeric of Some uid \<Rightarrow> as_by_uid db uid | None \<Rightarrow> as_by_name db name) (\<lambda>user.
         and_then (ensure (user \<noteq> None \<or> numeric \<noteq> None) (''image user does not exist: '' @ name)) (\<lambda>_.
         and_then (group_id db grp user) (\<lambda>gid.
           Inr (case user of
                  Some u \<Rightarrow> \<lparr>id_uid = ac_uid u, id_gid = gid, id_name = Some (ac_name u),
                             id_home = to_string_lossy (ac_dir u), id_shell = to_string_lossy (ac_shell u)\<rparr>
                | None \<Rightarrow> \<lparr>id_uid = the numeric, id_gid = gid, id_name = None,
                           id_home = ''/'', id_shell = ''/bin/sh''\<rparr>)))))"

section \<open>Filling in a request\<close>

type_synonym environment = "(string \<times> string) list"

definition or_insert :: "string \<Rightarrow> string \<Rightarrow> environment \<Rightarrow> environment" where
  "or_insert k v env = (if map_of env k = None then env @ [(k, v)] else env)"

definition set_env :: "string \<Rightarrow> string \<Rightarrow> environment \<Rightarrow> environment" where
  "set_env k v env = (k, v) # filter (\<lambda>e. fst e \<noteq> k) env"

fun add_image_env :: "string list \<Rightarrow> environment \<Rightarrow> environment" where
  "add_image_env [] env = env"
| "add_image_env (e # es) env =
     add_image_env es (case split_once e ''='' of Some (k, v) \<Rightarrow> or_insert k v env | None \<Rightarrow> env)"

text \<open>The name of the file a path ends in; the last component must be one.\<close>

definition file_name :: "string \<Rightarrow> string option" where
  "file_name path =
     (case rev (components path) of [] \<Rightarrow> None | c # _ \<Rightarrow> if c \<in> {''.'', ''..''} then None else Some c)"

definition shell_command :: "string list \<Rightarrow> bool" where
  "shell_command argv \<longleftrightarrow>
     (case argv of
        [p] \<Rightarrow> (case file_name p of
                  Some n \<Rightarrow> n \<in> {''sh'', ''bash'', ''zsh'', ''fish'', ''ash'', ''dash'', ''ksh''}
                | None \<Rightarrow> False)
      | _ \<Rightarrow> False)"

definition development_image :: "bool \<Rightarrow> oci_config \<Rightarrow> bool" where
  "development_image default_user_file config \<longleftrightarrow>
     default_user_file
     \<and> (case as_text config ''User'' of Some u \<Rightarrow> u | None \<Rightarrow> []) \<in> {[], ''root'', ''0'', ''0:0'', ''root:root''}"

text \<open>The steps of \<open>resolve\<close> on the environment; \<open>dev\<close>: the default user of a development image.\<close>

definition resolve_env :: "bool \<Rightarrow> bool \<Rightarrow> identity \<Rightarrow> oci_config \<Rightarrow> environment \<Rightarrow> environment" where
  "resolve_env dev pty user config env =
     (let env = (if pty then or_insert ''TERM'' ''xterm-256color'' env else env);
          explicit_home = (map_of env ''HOME'' \<noteq> None);
          env = add_image_env (image_strings config ''Env'') env;
          env = (if dev
                 then set_env ''LOGNAME'' ''pbox'' (set_env ''USER'' ''pbox''
                        (if explicit_home then env else set_env ''HOME'' (id_home user) env))
                 else env);
          env = or_insert ''HOME'' (id_home user) env
      in or_insert ''USER'' (case id_name user of Some n \<Rightarrow> n | None \<Rightarrow> show_nat (id_uid user)) env)"

definition DEFAULT_COMMAND :: "string list" where "DEFAULT_COMMAND = [''pbox:default'']"

definition resolve_argv :: "identity \<Rightarrow> oci_config \<Rightarrow> string list \<Rightarrow> (string, string list) result" where
  "resolve_argv user config argv =
     (if argv = DEFAULT_COMMAND
      then let argv = image_strings config ''Entrypoint'' @ image_strings config ''Cmd'';
               argv = (if shell_command argv then argv else [id_shell user, ''-i''])
           in if hd argv = [] then Inl ''image user has no shell; provide a command'' else Inr argv
      else Inr argv)"

definition resolve_image :: "accounts \<Rightarrow> bool \<Rightarrow> oci_config \<Rightarrow> exec_request \<Rightarrow> (string, exec_request) result" where
  "resolve_image db default_user_file config r =
     (let dev = (xr_user r = [] \<and> development_image default_user_file config);
          name = (if dev then ''pbox'' else if xr_user r = [] then text_or config ''User'' ''root'' else xr_user r)
      in and_then (identity_of db name) (\<lambda>user.
         let cwd = (if xr_cwd r \<noteq> [] then xr_cwd r
                    else let dir = text_or config ''WorkingDir'' ''/''
                         in if dev \<and> dir = ''/'' then ''/home/pbox'' else dir)
         in and_then (resolve_argv user config (xr_argv r)) (\<lambda>argv.
              Inr (r\<lparr>xr_user := name, xr_cwd := cwd, xr_argv := argv,
                     xr_env := resolve_env dev (xr_pty r) user config (xr_env r)\<rparr>))))"

text \<open>The image file: none, unreadable with a message, or its text; \<open>parse\<close> reads JSON.\<close>

definition resolve_request ::
  "accounts \<Rightarrow> bool \<Rightarrow> (string \<Rightarrow> (string, oci_config) result) \<Rightarrow> (string, string) result option
     \<Rightarrow> exec_request \<Rightarrow> (status, exec_request) result" where
  "resolve_request db default_user_file parse contents r =
     (case contents of
        None \<Rightarrow> Inr (if xr_cwd r = [] then r\<lparr>xr_cwd := ''/home/pbox''\<rparr> else r)
      | Some reading \<Rightarrow>
          and_then (map_err (St Internal) (and_then reading parse)) (\<lambda>config.
            map_err (St InvalidArgument) (resolve_image db default_user_file config r)))"

text \<open>The process a resolved request becomes.\<close>

record workspace_command =
  wc_program :: string
  wc_args :: "string list"
  wc_env :: environment
  wc_cwd :: string
  wc_uid :: nat
  wc_gid :: nat
  wc_groups :: "nat list"

definition workspace_command_for :: "accounts \<Rightarrow> exec_request \<Rightarrow> (string, workspace_command) result" where
  "workspace_command_for db r =
     and_then (identity_of db (xr_user r)) (\<lambda>user.
     and_then (case id_name user of
                 None \<Rightarrow> Inr []
               | Some name \<Rightarrow>
                   if CHR 0x00 \<in> set name then Inl ''nul byte found in provided data''
                   else as_groups db name (id_gid user)) (\<lambda>groups.
       Inr \<lparr>wc_program = hd (xr_argv r), wc_args = tl (xr_argv r), wc_env = xr_env r, wc_cwd = xr_cwd r,
            wc_uid = id_uid user, wc_gid = id_gid user, wc_groups = groups\<rparr>))"

definition image_application ::
  "accounts \<Rightarrow> bool \<Rightarrow> oci_config \<Rightarrow> (string, exec_request option) result" where
  "image_application db default_user_file config =
     (let argv = image_strings config ''Entrypoint'' @ image_strings config ''Cmd''
      in if argv = [] \<or> shell_command argv then Inr None
         else and_then (resolve_image db default_user_file config
                (default_exec_request\<lparr>xr_argv := argv, xr_user := text_or config ''User'' ''root'',
                   xr_cwd := text_or config ''WorkingDir'' ''/''\<rparr>))
                (\<lambda>r. Inr (Some r)))"

section \<open>Properties of a resolved request\<close>

lemma map_of_or_insert:
  "map_of (or_insert k v env) x = (if x = k \<and> map_of env k = None then Some v else map_of env x)"
  by (auto simp: or_insert_def map_add_def split: option.splits)

lemma map_of_set_env: "map_of (set_env k v env) x = (if x = k then Some v else map_of env x)"
proof -
  have "x \<noteq> k \<Longrightarrow> map_of (filter (\<lambda>e. fst e \<noteq> k) env) x = map_of env x"
    by (induction env) auto
  then show ?thesis by (simp add: set_env_def)
qed

text \<open>The first of several sources that has something.\<close>

fun first_some :: "'a option list \<Rightarrow> 'a option" where
  "first_some [] = None"
| "first_some (Some x # _) = Some x"
| "first_some (None # xs) = first_some xs"

text \<open>What an image's list of settings says of a variable: its first mention counts.\<close>

fun image_value :: "string list \<Rightarrow> string \<Rightarrow> string option" where
  "image_value [] x = None"
| "image_value (e # es) x =
     (case split_once e ''='' of
        Some (k, v) \<Rightarrow> if k = x then Some v else image_value es x
      | None \<Rightarrow> image_value es x)"

lemma map_of_image_env:
  "map_of (add_image_env es env) x = first_some [map_of env x, image_value es x]"
proof (induction es arbitrary: env)
  case Nil
  then show ?case by (cases "map_of env x") simp_all
next
  case (Cons e es)
  show ?case
  proof (cases "split_once e ''=''")
    case (Some kv)
    then show ?thesis
      by (cases kv; cases "map_of env x") (auto simp: Cons map_of_or_insert)
  qed (simp add: Cons)
qed

text \<open>The sources of a variable, in the order in which they count.\<close>

definition env_sources ::
  "bool \<Rightarrow> bool \<Rightarrow> identity \<Rightarrow> oci_config \<Rightarrow> environment \<Rightarrow> string \<Rightarrow> string option list" where
  "env_sources dev pty user config env x =
     [if dev \<and> (x = ''USER'' \<or> x = ''LOGNAME'') then Some ''pbox'' else None,
      map_of env x,
      if dev \<and> x = ''HOME'' then Some (id_home user) else None,
      if pty \<and> x = ''TERM'' then Some ''xterm-256color'' else None,
      image_value (image_strings config ''Env'') x,
      if x = ''HOME'' then Some (id_home user) else None,
      if x = ''USER'' then Some (case id_name user of Some n \<Rightarrow> n | None \<Rightarrow> show_nat (id_uid user)) else None]"

lemma resolved_env:
  "map_of (resolve_env dev pty user config env) x = first_some (env_sources dev pty user config env x)"
  unfolding resolve_env_def env_sources_def Let_def
  by (cases "map_of env x"; cases "image_value (image_strings config ''Env'') x"; cases "x = ''HOME''";
      cases "x = ''USER''"; cases "x = ''LOGNAME''"; cases "x = ''TERM''")
    (simp_all add: map_of_or_insert map_of_set_env map_of_image_env)

section \<open>Supervision\<close>

datatype service = Terminals | Agent | Network

text \<open>
  One running process per service, and when the next may be started; \<open>sv_children\<close> is what
  the system knows: the processes that were started and not yet waited for. The log notes
  when a service was started and when its end was noticed.
\<close>

record supervisor =
  sv_running :: "service \<Rightarrow> nat option"
  sv_next :: "service \<Rightarrow> nat"
  sv_application :: "nat option"
  sv_stop :: bool
  sv_children :: "nat \<Rightarrow> service option"
  sv_log :: "(service \<times> bool \<times> nat) list"

text \<open>Times are in milliseconds.\<close>

definition RESTART_DELAY :: nat where "RESTART_DELAY = 2000"

text \<open>\<open>spawned\<close>: the process the system starts, or nothing when it cannot.\<close>

definition start_service ::
  "service \<Rightarrow> nat \<Rightarrow> nat option \<Rightarrow> supervisor \<Rightarrow> (string, supervisor) result" where
  "start_service v now spawned s =
     (if sv_running s v = None \<and> sv_next s v \<le> now
      then case spawned of
             None \<Rightarrow> Inl ''spawn''
           | Some pid \<Rightarrow>
               Inr (s\<lparr>sv_running := (sv_running s)(v \<mapsto> pid), sv_children := (sv_children s)(pid \<mapsto> v),
                      sv_log := sv_log s @ [(v, True, now)]\<rparr>)
      else Inr s)"

definition forget_service :: "service \<Rightarrow> nat \<Rightarrow> nat \<Rightarrow> supervisor \<Rightarrow> supervisor" where
  "forget_service v pid now s =
     (if sv_running s v = Some pid
      then s\<lparr>sv_running := (sv_running s)(v := None), sv_next := (sv_next s)(v := now + RESTART_DELAY),
             sv_log := sv_log s @ [(v, False, now)]\<rparr>
      else s)"

definition reap :: "nat \<Rightarrow> nat \<Rightarrow> supervisor \<Rightarrow> supervisor" where
  "reap pid now s =
     (let s = s\<lparr>sv_children := (sv_children s)(pid := None)\<rparr>;
          s = forget_service Network pid now (forget_service Agent pid now (forget_service Terminals pid now s))
      in if sv_application s = Some pid then s\<lparr>sv_stop := True\<rparr> else s)"

text \<open>One turn of the loop: the clock and the processes at each start, and who is waited for when.\<close>

record supervise_turn =
  vt_terminals :: "nat \<times> nat option"
  vt_agent :: "nat \<times> nat option"
  vt_network :: "nat \<times> nat option"
  vt_reaped :: "(nat \<times> nat) list"

definition take_turn :: "supervise_turn \<Rightarrow> supervisor \<Rightarrow> (string, supervisor) result" where
  "take_turn u s =
     and_then (start_service Terminals (fst (vt_terminals u)) (snd (vt_terminals u)) s) (\<lambda>s.
     and_then (start_service Agent (fst (vt_agent u)) (snd (vt_agent u)) s) (\<lambda>s.
     and_then (start_service Network (fst (vt_network u)) (snd (vt_network u)) s) (\<lambda>s.
       Inr (fold (\<lambda>(pid, now). reap pid now) (vt_reaped u) s))))"

fun supervise :: "supervise_turn list \<Rightarrow> supervisor \<Rightarrow> (string, supervisor) result" where
  "supervise [] s = Inr s"
| "supervise (u # us) s = (if sv_stop s then Inr s else and_then (take_turn u s) (supervise us))"

definition supervisor_start :: "nat \<Rightarrow> nat option \<Rightarrow> supervisor" where
  "supervisor_start now application =
     \<lparr>sv_running = (\<lambda>_. None), sv_next = (\<lambda>_. now), sv_application = application, sv_stop = False,
      sv_children = (\<lambda>_. None), sv_log = []\<rparr>"

text \<open>
  How a log of one service may look: started and ended in turns, and not started again
  before the delay after an end has passed. The state is whether it runs and from when it
  may be started.
\<close>

definition pace_step :: "bool \<times> nat \<Rightarrow> bool \<times> nat \<Rightarrow> (bool \<times> nat) option" where
  "pace_step st e =
     (if fst e
      then if \<not> fst st \<and> snd st \<le> snd e then Some (True, snd st) else None
      else if fst st then Some (False, snd e + RESTART_DELAY) else None)"

fun pace :: "bool \<times> nat \<Rightarrow> (bool \<times> nat) list \<Rightarrow> (bool \<times> nat) option" where
  "pace st [] = Some st"
| "pace st (e # es) = Option.bind (pace_step st e) (\<lambda>st. pace st es)"

lemma pace_append: "pace st (xs @ [e]) = Option.bind (pace st xs) (\<lambda>st. pace_step st e)"
proof (induction xs arbitrary: st)
  case (Cons x xs)
  then show ?case by (cases "pace_step st x") simp_all
next
  case Nil
  show ?case by (cases "pace_step st e") simp_all
qed

definition events_of :: "service \<Rightarrow> (service \<times> bool \<times> nat) list \<Rightarrow> (bool \<times> nat) list" where
  "events_of v log = map snd (filter (\<lambda>e. fst e = v) log)"

lemma events_of_append: "events_of v (log @ [(w, e)]) = (if v = w then events_of v log @ [e] else events_of v log)"
  by (simp add: events_of_def)

definition supervisor_inv :: "nat \<Rightarrow> supervisor \<Rightarrow> bool" where
  "supervisor_inv now s \<longleftrightarrow>
     (\<forall>v. pace (False, now) (events_of v (sv_log s)) = Some (sv_running s v \<noteq> None, sv_next s v))
     \<and> (\<forall>v p. sv_children s p = Some v \<longleftrightarrow> sv_running s v = Some p)"

lemma start_inv:
  assumes "supervisor_inv n s" "start_service v now spawned s = Inr t"
    "\<And>pid. spawned = Some pid \<Longrightarrow> sv_children s pid = None"
  shows "supervisor_inv n t \<and> dom (sv_children t) \<subseteq> dom (sv_children s) \<union> set_option spawned"
proof (cases "sv_running s v = None \<and> sv_next s v \<le> now")
  case True
  then obtain pid where pid: "spawned = Some pid"
    "t = s\<lparr>sv_running := (sv_running s)(v \<mapsto> pid), sv_children := (sv_children s)(pid \<mapsto> v),
           sv_log := sv_log s @ [(v, True, now)]\<rparr>"
    using assms(2) by (auto simp: start_service_def split: option.splits)
  have "sv_running s w \<noteq> Some pid" for w
    using assms(1,3) pid(1) unfolding supervisor_inv_def by force
  then show ?thesis using assms(1) True pid
    by (auto simp: supervisor_inv_def events_of_append pace_append pace_step_def)
next
  case False
  then show ?thesis using assms by (auto simp: start_service_def)
qed

text \<open>Between the removal of a child and the services that are told, the second clause lags.\<close>

definition lagging_inv :: "nat \<Rightarrow> nat \<Rightarrow> service set \<Rightarrow> supervisor \<Rightarrow> bool" where
  "lagging_inv now pid told s \<longleftrightarrow>
     (\<forall>v. pace (False, now) (events_of v (sv_log s)) = Some (sv_running s v \<noteq> None, sv_next s v))
     \<and> sv_children s pid = None
     \<and> (\<forall>v p. p \<noteq> pid \<longrightarrow> (sv_children s p = Some v \<longleftrightarrow> sv_running s v = Some p))
     \<and> (\<forall>v \<in> told. sv_running s v \<noteq> Some pid)"

lemma forget_lagging:
  "lagging_inv n pid told s \<Longrightarrow> lagging_inv n pid (insert v told) (forget_service v pid now s)"
  by (auto simp: lagging_inv_def forget_service_def events_of_append pace_append pace_step_def)

lemma lagging_done: "lagging_inv n pid UNIV s \<Longrightarrow> supervisor_inv n s"
  unfolding lagging_inv_def supervisor_inv_def by (metis UNIV_I option.distinct(1))

lemma all_services: "insert Network (insert Agent (insert Terminals {})) = UNIV"
  using service.exhaust by auto

lemma reap_inv:
  assumes "supervisor_inv n s"
  shows "supervisor_inv n (reap pid now s)"
proof -
  let ?s = "s\<lparr>sv_children := (sv_children s)(pid := None)\<rparr>"
  let ?t = "forget_service Network pid now (forget_service Agent pid now (forget_service Terminals pid now ?s))"
  have "lagging_inv n pid {} ?s" using assms by (auto simp: lagging_inv_def supervisor_inv_def)
  then have "lagging_inv n pid (insert Network (insert Agent (insert Terminals {}))) ?t"
    by (intro forget_lagging)
  then have "lagging_inv n pid UNIV ?t" by (simp only: all_services)
  then have "supervisor_inv n ?t" by (rule lagging_done)
  then show ?thesis by (auto simp: reap_def Let_def supervisor_inv_def)
qed

text \<open>The system gives a new process a number no child has.\<close>

definition fresh_turn :: "supervise_turn \<Rightarrow> supervisor \<Rightarrow> bool" where
  "fresh_turn u s \<longleftrightarrow>
     (let pids = List.map_filter (\<lambda>p. p) [snd (vt_terminals u), snd (vt_agent u), snd (vt_network u)]
      in distinct pids \<and> list_all (\<lambda>p. sv_children s p = None) pids)"

definition supervise_moves :: "supervise_turn \<Rightarrow> supervisor \<Rightarrow> supervisor \<Rightarrow> bool" where
  "supervise_moves u s t \<longleftrightarrow> \<not> sv_stop s \<and> fresh_turn u s \<and> take_turn u s = Inr t"

lemma fold_reap_inv: "supervisor_inv n s \<Longrightarrow> supervisor_inv n (fold (\<lambda>(pid, now). reap pid now) rs s)"
  by (induction rs arbitrary: s) (auto intro: reap_inv)

lemma turn_inv:
  assumes inv: "supervisor_inv n s" and move: "supervise_moves u s t"
  shows "supervisor_inv n t"
proof -
  let ?p1 = "snd (vt_terminals u)" and ?p2 = "snd (vt_agent u)" and ?p3 = "snd (vt_network u)"
  from move obtain s1 s2 s3 where
    s1: "start_service Terminals (fst (vt_terminals u)) ?p1 s = Inr s1"
    and s2: "start_service Agent (fst (vt_agent u)) ?p2 s1 = Inr s2"
    and s3: "start_service Network (fst (vt_network u)) ?p3 s2 = Inr s3"
    and t: "t = fold (\<lambda>(pid, now). reap pid now) (vt_reaped u) s3"
    by (auto simp: supervise_moves_def take_turn_def res_simps)
  have fresh: "\<And>p. ?p1 = Some p \<Longrightarrow> sv_children s p = None" "\<And>p. ?p2 = Some p \<Longrightarrow> sv_children s p = None"
    "\<And>p. ?p3 = Some p \<Longrightarrow> sv_children s p = None"
    and apart: "\<And>p. ?p2 = Some p \<Longrightarrow> ?p1 \<noteq> Some p" "\<And>p. ?p3 = Some p \<Longrightarrow> ?p1 \<noteq> Some p"
    "\<And>p. ?p3 = Some p \<Longrightarrow> ?p2 \<noteq> Some p"
    using move
    by (cases ?p1; cases ?p2; cases ?p3; simp add: supervise_moves_def fresh_turn_def Let_def map_filter_simps)+
  note i1 = start_inv[OF inv s1 fresh(1)]
  have "sv_children s1 p = None" if "?p2 = Some p" for p
  proof -
    have "p \<notin> dom (sv_children s1)" using i1 fresh(2)[OF that] apart(1)[OF that] by (auto dest: subsetD)
    then show ?thesis by blast
  qed
  note i2 = start_inv[OF conjunct1[OF i1] s2 this]
  have "sv_children s2 p = None" if "?p3 = Some p" for p
  proof -
    have "p \<notin> dom (sv_children s) \<union> set_option ?p1 \<union> set_option ?p2"
      using fresh(3)[OF that] apart(2,3)[OF that] by auto
    then have "p \<notin> dom (sv_children s2)" using i1 i2 by (meson UnCI UnE subsetD)
    then show ?thesis by blast
  qed
  from start_inv[OF conjunct1[OF i2] s3 this] show ?thesis unfolding t by (intro fold_reap_inv) blast
qed

interpretation supervision: event_system supervise_moves "supervisor_inv n" for n
  by unfold_locales (rule turn_inv)

lemma supervisor_start_inv: "supervisor_inv now (supervisor_start now application)"
  by (simp add: supervisor_inv_def supervisor_start_def events_of_def)

section \<open>Properties\<close>

definition example_accounts :: accounts where
  "example_accounts =
     \<lparr>as_by_uid = (\<lambda>_. Inr None),
      as_by_name = (\<lambda>n. Inr (if n = ''dev''
         then Some \<lparr>ac_name = ''dev'', ac_uid = 7, ac_gid = 7, ac_dir = ''/h'', ac_shell = ''/bin/sh''\<rparr> else None)),
      as_group = (\<lambda>_. Inr None), as_groups = (\<lambda>_ _. Inr [])\<rparr>"

definition example_image :: oci_config where
  "example_image =
     [(''User'', Text ''dev''), (''WorkingDir'', Text ''/w''), (''Env'', Items [Text ''A=1'', Text ''B=2'']),
      (''Cmd'', Items [Text ''/bin/bash''])]"

definition example_resolved :: "exec_request \<Rightarrow> exec_request" where
  "example_resolved r = (case resolve_image example_accounts True example_image r of Inr x \<Rightarrow> x | Inl _ \<Rightarrow> r)"


definition example_request :: exec_request where
  "example_request = default_exec_request\<lparr>xr_env := [(''A'', ''9'')]\<rparr>"

lemma example_identity:
  "identity_of example_accounts ''dev'' =
     Inr \<lparr>id_uid = 7, id_gid = 7, id_name = Some ''dev'', id_home = ''/h'', id_shell = ''/bin/sh''\<rparr>"
proof -
  have texts: "to_string_lossy ''/h'' = ''/h''" "to_string_lossy ''/bin/sh'' = ''/bin/sh''" by code_simp+
  have split: "split_once ''dev'' '':'' = None" by code_simp
  have "parse_u32 ''dev'' = None"
    by (simp add: parse_uint_def parse_digits_def strip_prefix_def starts_with_def is_digit_def byte_def)
  then show ?thesis
    by (simp add: identity_of_def split example_accounts_def group_id_def texts ensure_def)
qed

lemma resolved_example:
  "resolve_image example_accounts True example_image example_request = Inr (example_resolved example_request)"
  by (simp add: example_resolved_def resolve_image_def example_identity example_request_def default_exec_request_def
      development_image_def as_text_def text_or_def example_image_def resolve_argv_def DEFAULT_COMMAND_def Let_def)


text \<open>
  C38: The supervisor of a box keeps one process of each of its services: whatever processes
  end, in whatever order and however slow its loop turns, the processes the system knows for
  a service are exactly the one it counts as running, and the log of each service shows
  starts and ends in turns, no start within two seconds of the end before it.
\<close>

theorem services_supervised:
  assumes "reaches supervise_moves (supervisor_start now application) s"
  shows "(\<forall>v p. sv_children s p = Some v \<longleftrightarrow> sv_running s v = Some p)
    \<and> (\<forall>v. pace (False, now) (events_of v (sv_log s)) = Some (sv_running s v \<noteq> None, sv_next s v))"
  using supervision.reaches_inv[OF assms supervisor_start_inv] by (simp add: supervisor_inv_def)

definition example_turn :: supervise_turn where
  "example_turn =
     \<lparr>vt_terminals = (5, Some 11), vt_agent = (5, Some 12), vt_network = (5, Some 13), vt_reaped = [(12, 9)]\<rparr>"

lemma example_supervision:
  "\<exists>s. reaches supervise_moves (supervisor_start 5 None) s \<and> sv_running s Agent = None
     \<and> sv_running s Network = Some 13"
proof -
  have fresh: "fresh_turn example_turn (supervisor_start 5 None)"
    by (simp add: fresh_turn_def example_turn_def supervisor_start_def map_filter_simps)
  have "case take_turn example_turn (supervisor_start 5 None) of
          Inr s \<Rightarrow> sv_running s Agent = None \<and> sv_running s Network = Some 13 | Inl _ \<Rightarrow> False"
    by (simp add: take_turn_def example_turn_def supervisor_start_def start_service_def reap_def
        forget_service_def Let_def)
  then obtain s where s: "take_turn example_turn (supervisor_start 5 None) = Inr s"
    "sv_running s Agent = None" "sv_running s Network = Some 13" by (auto split: sum.splits)
  have "supervise_moves example_turn (supervisor_start 5 None) s"
    using s(1) fresh by (simp add: supervise_moves_def supervisor_start_def)
  with reaches_refl have "reaches supervise_moves (supervisor_start 5 None) s" by (rule reaches_step)
  then show ?thesis using s(2,3) by (intro exI[of _ s] conjI)
qed

lemma services_supervised_witness:
  "\<exists>s. sv_children s 13 = Some Network \<and> reaches supervise_moves (supervisor_start 5 None) s"
proof -
  from example_supervision obtain s where s: "reaches supervise_moves (supervisor_start 5 None) s"
    "sv_running s Network = Some 13" by blast
  from conjunct1[OF services_supervised[OF s(1)]] s(2) have "sv_children s 13 = Some Network" by metis
  with s(1) show ?thesis by blast
qed

end
