(* ===== verification/ReverseForward.thy ===== *)
theory ReverseForward
  imports AgentRequests Interfaces "HOL-Library.Sublist"
begin

text \<open>
  Reverse forwarding: connections made to a port inside the guest are carried to an address
  near the client, all over one stream
  (\<open>crates/pbox-agent/src/reverse.rs\<close> and \<open>crates/pbox-agent-client/src/reverse.rs\<close>).
  Each connection has a bridge at either end, a task between a socket and the stream; the two
  loops take messages off the stream and hand them to the bridges. What tasks do interleaves
  in any order. Waiting for room in a queue is not a step, so queues have no bound here.
\<close>

section \<open>Starting\<close>

text \<open>What the first message must be, and the address it asks to listen on.\<close>

datatype reverse_message =
    Listen nat string nat
  | Ready string
  | Connected bool
  | Payload string
  | Close nat bool

definition reverse_open :: "reverse_message option received \<Rightarrow> (status, string \<times> nat) result" where
  "reverse_open first =
     (case first of
        Late \<Rightarrow> Inl (St DeadlineExceeded ''reverse forward handshake timed out'')
      | Fault e \<Rightarrow> Inl e
      | Got (Some (Listen version host port)) \<Rightarrow>
          if version \<noteq> PROTOCOL_VERSION then Inl version_error
          else if host = [] \<or> CHR 0x00 \<in> set host \<or> port = 0 \<or> port > U16_MAX
          then Inl (St InvalidArgument ''invalid reverse listen address'')
          else Inr (host, port)
      | Got _ \<Rightarrow> Inl (St InvalidArgument ''reverse forward requires a listen event''))"

definition reverse_request :: "string \<Rightarrow> nat \<Rightarrow> string \<Rightarrow> nat \<Rightarrow> (client_error, reverse_message) result" where
  "reverse_request listen_host listen_port target_host target_port =
     and_then (validate_forward_target listen_host listen_port) (\<lambda>_.
     and_then (validate_forward_target target_host target_port) (\<lambda>_.
       Inr (Listen PROTOCOL_VERSION listen_host listen_port)))"

definition reverse_started :: "reverse_message option received \<Rightarrow> (status, string) result" where
  "reverse_started first =
     (case first of
        Fault e \<Rightarrow> Inl e
      | Got (Some (Ready address)) \<Rightarrow> Inr address
      | Got None \<Rightarrow> Inl (St Unknown ''guest listener closed before ready'')
      | _ \<Rightarrow> Inl (St InvalidArgument ''guest listener did not report ready''))"

section \<open>Bridges\<close>

text \<open>
  \<open>br_known\<close>: the loop still has the bridge in its table. \<open>br_sent\<close>: what was read
  from the socket and put on the stream; \<open>br_written\<close>: what was written to the socket.
\<close>

datatype bridge_phase = Connecting | Running | Finished

record bridge =
  br_phase :: bridge_phase
  br_known :: bool
  br_inbox :: "reverse_message list"
  br_read_closed :: bool
  br_write_closed :: bool
  br_sent :: string
  br_written :: string

definition new_bridge :: "bridge_phase \<Rightarrow> bridge" where
  "new_bridge phase =
     \<lparr>br_phase = phase, br_known = True, br_inbox = [], br_read_closed = False, br_write_closed = False,
      br_sent = [], br_written = []\<rparr>"

text \<open>What the socket of a bridge did, or what became of writing to it.\<close>

datatype bridge_event =
    Connects bool
  | Reads string
  | ReadsEnd
  | ReadFails
  | Takes
  | TakeFails nat
  | SendFails
  | Ends

abbreviation half_close :: reverse_message where "half_close \<equiv> Close 0 True"
abbreviation full_close :: reverse_message where "full_close \<equiv> Close 0 False"

definition finish :: "bridge \<Rightarrow> bridge \<times> reverse_message list" where
  "finish b = (b\<lparr>br_phase := Finished\<rparr>, [full_close])"

text \<open>
  One pass of a bridge's loop: its new state and what it puts on the stream.
  \<open>TakeFails n\<close>: writing fails after \<open>n\<close> bytes. \<open>SendFails\<close>: the stream is gone.
\<close>

definition takes :: "bridge \<Rightarrow> (bridge \<times> reverse_message list) option" where
  "takes b =
     (case br_inbox b of
        Payload d # rest \<Rightarrow> Some (b\<lparr>br_inbox := rest, br_written := br_written b @ d\<rparr>, [])
      | m # rest \<Rightarrow>
          if m = half_close then Some (b\<lparr>br_inbox := rest, br_write_closed := True\<rparr>, [])
          else Some (finish (b\<lparr>br_inbox := rest\<rparr>))
      | [] \<Rightarrow> if br_known b then None else Some (finish b))"

definition take_fails :: "nat \<Rightarrow> bridge \<Rightarrow> (bridge \<times> reverse_message list) option" where
  "take_fails n b =
     (case br_inbox b of
        Payload d # rest \<Rightarrow> Some (finish (b\<lparr>br_inbox := rest, br_written := br_written b @ take n d\<rparr>))
      | m # rest \<Rightarrow> if m = half_close then Some (finish (b\<lparr>br_inbox := rest\<rparr>)) else None
      | [] \<Rightarrow> None)"

fun bridge_step :: "bridge_event \<Rightarrow> bridge \<Rightarrow> (bridge \<times> reverse_message list) option" where
  "bridge_step (Connects ok) b =
     (if br_phase b = Connecting
      then Some (if ok then (b\<lparr>br_phase := Running\<rparr>, []) else (b\<lparr>br_phase := Finished\<rparr>, [Close 1 False]))
      else None)"
| "bridge_step (Reads d) b =
     (if br_phase b = Running \<and> \<not> br_read_closed b \<and> d \<noteq> [] \<and> length d \<le> 8192
      then Some (b\<lparr>br_sent := br_sent b @ d\<rparr>, [Payload d]) else None)"
| "bridge_step ReadsEnd b =
     (if br_phase b = Running \<and> \<not> br_read_closed b
      then Some (b\<lparr>br_read_closed := True\<rparr>, [half_close]) else None)"
| "bridge_step ReadFails b =
     (if br_phase b = Running \<and> \<not> br_read_closed b then Some (finish b) else None)"
| "bridge_step Takes b = (if br_phase b = Running \<and> \<not> br_write_closed b then takes b else None)"
| "bridge_step (TakeFails n) b =
     (if br_phase b = Running \<and> \<not> br_write_closed b then take_fails n b else None)"
| "bridge_step SendFails b =
     (if br_phase b \<noteq> Finished then Some (b\<lparr>br_phase := Finished\<rparr>, []) else None)"
| "bridge_step Ends b =
     (if br_phase b = Running \<and> br_read_closed b \<and> br_write_closed b then Some (finish b) else None)"

section \<open>The stream and its loops\<close>

datatype side = Guest | Near

fun opposite :: "side \<Rightarrow> side" where
  "opposite Guest = Near"
| "opposite Near = Guest"

text \<open>\<open>rv_wire d\<close>: the messages the side \<open>d\<close> has sent and the other has not taken yet.\<close>

record reverse =
  rv_last :: nat
  rv_bridges :: "side \<Rightarrow> nat \<Rightarrow> bridge option"
  rv_wire :: "side \<Rightarrow> (nat \<times> reverse_message) list"
  rv_loop :: "side \<Rightarrow> bool"

text \<open>
  \<open>TurnAway\<close>: no slot is left for an accepted connection. \<open>AcceptLost\<close>: it cannot be
  announced. The numbers of connections are unbounded here; they are 64 bits wide in the code.
\<close>

datatype reverse_event =
    Accept
  | TurnAway
  | AcceptLost
  | Bridge side nat bridge_event
  | Deliver side
  | LoopEnds side

definition set_bridge :: "side \<Rightarrow> nat \<Rightarrow> bridge \<Rightarrow> reverse \<Rightarrow> reverse" where
  "set_bridge d i b s = s\<lparr>rv_bridges := (rv_bridges s)(d := (rv_bridges s d)(i \<mapsto> b))\<rparr>"

definition send_on :: "side \<Rightarrow> nat \<Rightarrow> reverse_message list \<Rightarrow> reverse \<Rightarrow> reverse" where
  "send_on d i ms s = s\<lparr>rv_wire := (rv_wire s)(d := rv_wire s d @ map (Pair i) ms)\<rparr>"

text \<open>A message for a bridge the loop knows; one that has finished is not kept in the table.\<close>

definition hand_over :: "side \<Rightarrow> nat \<Rightarrow> reverse_message \<Rightarrow> reverse \<Rightarrow> reverse" where
  "hand_over d i m s =
     (case rv_bridges s d i of
        None \<Rightarrow> s
      | Some b \<Rightarrow>
          if \<not> br_known b \<or> br_phase b = Finished then set_bridge d i (b\<lparr>br_known := False\<rparr>) s
          else set_bridge d i (b\<lparr>br_inbox := br_inbox b @ [m],
                 br_known := (d = Guest \<or> (case m of Close _ half \<Rightarrow> half | _ \<Rightarrow> True))\<rparr>) s)"

definition loop_ends :: "side \<Rightarrow> reverse \<Rightarrow> reverse" where
  "loop_ends d s =
     s\<lparr>rv_loop := (rv_loop s)(d := False),
       rv_bridges := (rv_bridges s)(d := (\<lambda>i. map_option (\<lambda>b. b\<lparr>br_known := False\<rparr>) (rv_bridges s d i)))\<rparr>"

text \<open>A loop takes the next message of the other side; one it does not expect ends it.\<close>

definition deliver :: "side \<Rightarrow> nat \<Rightarrow> reverse_message \<Rightarrow> reverse \<Rightarrow> reverse" where
  "deliver d i m s =
     (case m of
        Payload _ \<Rightarrow> hand_over d i m s
      | Close _ _ \<Rightarrow> hand_over d i m s
      | Connected yes \<Rightarrow>
          if d = Near \<and> yes \<and> i \<noteq> 0 then set_bridge Near i (new_bridge Connecting) s else loop_ends d s
      | _ \<Rightarrow> loop_ends d s)"

fun reverse_step :: "reverse_event \<Rightarrow> reverse \<Rightarrow> reverse option" where
  "reverse_step Accept s =
     (if rv_loop s Guest
      then let i = Suc (rv_last s)
           in Some (send_on Guest i [Connected True]
                (set_bridge Guest i (new_bridge Running) (s\<lparr>rv_last := i\<rparr>)))
      else None)"
| "reverse_step TurnAway s = (if rv_loop s Guest then Some s else None)"
| "reverse_step AcceptLost s =
     (if rv_loop s Guest then Some (loop_ends Guest (s\<lparr>rv_last := Suc (rv_last s)\<rparr>)) else None)"
| "reverse_step (Bridge d i e) s =
     (case rv_bridges s d i of
        None \<Rightarrow> None
      | Some b \<Rightarrow> map_option (\<lambda>(b', ms). send_on d i ms (set_bridge d i b' s)) (bridge_step e b))"
| "reverse_step (Deliver d) s =
     (case rv_wire s (opposite d) of
        (i, m) # rest \<Rightarrow>
          if rv_loop s d
          then Some (deliver d i m (s\<lparr>rv_wire := (rv_wire s)(opposite d := rest)\<rparr>))
          else None
      | [] \<Rightarrow> None)"
| "reverse_step (LoopEnds d) s = (if rv_loop s d then Some (loop_ends d s) else None)"

definition reverse_moves :: "reverse_event \<Rightarrow> reverse \<Rightarrow> reverse \<Rightarrow> bool" where
  "reverse_moves e s t \<longleftrightarrow> reverse_step e s = Some t"

definition reverse_start :: reverse where
  "reverse_start =
     \<lparr>rv_last = 0, rv_bridges = (\<lambda>_ _. None), rv_wire = (\<lambda>_. []), rv_loop = (\<lambda>_. True)\<rparr>"

section \<open>What is under way\<close>

fun payload :: "reverse_message list \<Rightarrow> string" where
  "payload [] = []"
| "payload (Payload d # ms) = d @ payload ms"
| "payload (_ # ms) = payload ms"

lemma payload_of_append [simp]: "payload (xs @ ys) = payload xs @ payload ys"
  by (induction xs rule: payload.induct) auto

text \<open>Data first, then at most the end of the data, then at most the end of the connection.\<close>

fun data_message :: "reverse_message \<Rightarrow> bool" where
  "data_message (Payload _) = True"
| "data_message (Close _ _) = True"
| "data_message _ = False"

fun shape :: "reverse_message list \<Rightarrow> bool" where
  "shape [] \<longleftrightarrow> True"
| "shape (Payload d # ms) \<longleftrightarrow> shape ms"
| "shape (Close c half # ms) \<longleftrightarrow>
     (if half then c = 0 \<and> (ms = [] \<or> (\<exists>k. ms = [Close k False])) else ms = [])"
| "shape (_ # ms) \<longleftrightarrow> False"

definition open_ended :: "reverse_message list \<Rightarrow> bool" where
  "open_ended ms \<longleftrightarrow> (\<forall>c. Close c False \<notin> set ms)"

definition lawful :: "bridge \<Rightarrow> reverse_message list \<Rightarrow> bool" where
  "lawful a ms \<longleftrightarrow>
     shape ms \<and> (br_phase a \<noteq> Finished \<longrightarrow> open_ended ms) \<and> (\<not> br_read_closed a \<longrightarrow> half_close \<notin> set ms)"

lemma shape_tail: "shape (m # ms) \<Longrightarrow> shape ms"
  by (cases m) (auto split: if_splits)

lemma shape_suffix: "shape (xs @ ys) \<Longrightarrow> shape ys"
  by (induction xs) (auto dest: shape_tail)

lemma shape_data: "shape ms \<Longrightarrow> list_all data_message ms"
  by (induction ms rule: shape.induct) (auto split: if_splits)

lemma shape_no_half: "shape ms \<Longrightarrow> half_close \<notin> set ms \<Longrightarrow> Close c True \<notin> set ms"
  by (induction ms rule: shape.induct) (auto split: if_splits)

lemma shape_add_payload:
  "shape ms \<Longrightarrow> open_ended ms \<Longrightarrow> half_close \<notin> set ms \<Longrightarrow> shape (ms @ [Payload d])"
  by (induction ms rule: shape.induct) (auto simp: open_ended_def split: if_splits)

lemma shape_add_half:
  "shape ms \<Longrightarrow> open_ended ms \<Longrightarrow> half_close \<notin> set ms \<Longrightarrow> shape (ms @ [half_close])"
  by (induction ms rule: shape.induct) (auto simp: open_ended_def split: if_splits)

lemma shape_add_full: "shape ms \<Longrightarrow> open_ended ms \<Longrightarrow> shape (ms @ [Close c False])"
  by (induction ms rule: shape.induct) (auto simp: open_ended_def split: if_splits)

lemma shape_after_half: "shape (half_close # ms) \<Longrightarrow> payload ms = []"
  by auto

lemma lawful_tail: "lawful a (m # ms) \<Longrightarrow> lawful a ms"
  using shape_tail by (auto simp: lawful_def open_ended_def)

text \<open>
  One direction of one connection: the bridge that reads, the bridge that writes, and what is
  on the stream between them. \<open>looping\<close>: the loop at the writing side still runs.
\<close>

definition arriving :: "bool \<Rightarrow> bridge \<Rightarrow> bridge \<Rightarrow> reverse_message list \<Rightarrow> bool" where
  "arriving looping a b w \<longleftrightarrow>
     (br_phase b \<noteq> Finished \<longrightarrow>
        lawful a (br_inbox b @ w) \<and> br_sent a = br_written b @ payload (br_inbox b @ w)
        \<and> (br_known b \<or> \<not> looping \<or> w = [] \<and> br_phase a = Finished))
     \<and> list_all data_message w \<and> prefix (br_written b) (br_sent a)
     \<and> (br_write_closed b \<longrightarrow> br_written b = br_sent a \<and> br_read_closed a)"

definition flow :: "bool \<Rightarrow> bridge option \<Rightarrow> bridge option \<Rightarrow> reverse_message list \<Rightarrow> bool" where
  "flow looping source sink w \<longleftrightarrow>
     (case source of
        None \<Rightarrow> w = [] \<and> (case sink of None \<Rightarrow> True
                             | Some b \<Rightarrow> br_inbox b = [] \<and> br_written b = [] \<and> \<not> br_write_closed b
                                \<and> (br_known b \<or> \<not> looping \<or> br_phase b = Finished))
      | Some a \<Rightarrow>
          (case sink of
             None \<Rightarrow> (\<exists>ms. w = Connected True # ms \<and> lawful a ms \<and> payload ms = br_sent a)
           | Some b \<Rightarrow> arriving looping a b w))"

text \<open>What a pass of a bridge does to the direction it reads for.\<close>

lemma step_source_lawful:
  assumes "lawful a ms" "bridge_step e a = Some (a', new)"
  shows "lawful a' (ms @ new) \<and> br_sent a' = br_sent a @ payload new"
proof (cases e)
  case Takes
  then show ?thesis using assms
    by (auto simp: takes_def finish_def lawful_def open_ended_def intro: shape_add_full
        split: if_splits list.splits reverse_message.splits)
next
  case (TakeFails n)
  then show ?thesis using assms
    by (auto simp: take_fails_def finish_def lawful_def open_ended_def intro: shape_add_full
        split: if_splits list.splits reverse_message.splits)
qed (use assms in \<open>auto simp: lawful_def open_ended_def finish_def intro!: shape_add_payload shape_add_half shape_add_full split: if_splits\<close>)

lemma step_read_closed:
  "bridge_step e a = Some (a', new) \<Longrightarrow> br_read_closed a \<Longrightarrow> br_read_closed a' \<and> br_sent a' = br_sent a"
  by (cases e)
    (auto simp: takes_def take_fails_def finish_def split: if_splits list.splits reverse_message.splits)

lemma step_sent_grows: "bridge_step e a = Some (a', new) \<Longrightarrow> prefix (br_sent a) (br_sent a')"
  by (cases e)
    (auto simp: takes_def take_fails_def finish_def split: if_splits list.splits reverse_message.splits)

lemma step_known: "bridge_step e b = Some (b', new) \<Longrightarrow> br_known b' = br_known b"
  by (cases e)
    (auto simp: takes_def take_fails_def finish_def split: if_splits list.splits reverse_message.splits)

lemma step_messages: "bridge_step e a = Some (a', new) \<Longrightarrow> list_all data_message new"
  by (cases e)
    (auto simp: takes_def take_fails_def finish_def split: if_splits list.splits reverse_message.splits)

lemma finished_stuck: "bridge_step e b = Some r \<Longrightarrow> br_phase b \<noteq> Finished"
  by (cases e) (auto split: if_splits)

lemma arriving_source:
  assumes "arriving looping a b w" "bridge_step e a = Some (a', new)"
  shows "arriving looping a' b (w @ new)"
proof -
  have "lawful a' ((br_inbox b @ w) @ new) \<and> br_sent a' = br_sent a @ payload new"
    if "br_phase b \<noteq> Finished"
    using assms that by (intro step_source_lawful) (simp_all add: arriving_def)
  moreover have "br_phase a \<noteq> Finished" by (rule finished_stuck[OF assms(2)])
  moreover have "list_all data_message new" by (rule step_messages[OF assms(2)])
  moreover have "prefix (br_written b) (br_sent a')"
    using assms(1) step_sent_grows[OF assms(2)] prefix_order.trans by (auto simp: arriving_def)
  moreover have "br_write_closed b \<Longrightarrow> br_written b = br_sent a' \<and> br_read_closed a'"
    using assms(1) step_read_closed[OF assms(2)] by (auto simp: arriving_def)
  ultimately show ?thesis using assms(1) by (auto simp: arriving_def)
qed

lemma arriving_finished:
  assumes "arriving looping a b w" "br_written b' = br_written b @ d" "br_phase b' = Finished"
    "br_phase b \<noteq> Finished" "\<not> br_write_closed b'" "prefix d (payload (br_inbox b @ w))"
  shows "arriving looping a b' w"
  using assms by (auto simp: arriving_def)

lemma arriving_takes:
  assumes "arriving looping a b w" "br_phase b = Running" "\<not> br_write_closed b" "takes b = Some (b', new)"
  shows "arriving looping a b' w"
proof (cases "br_inbox b")
  case Nil
  then show ?thesis using assms
    by (intro arriving_finished[of looping a b w b' "[]"]) (auto simp: takes_def finish_def split: if_splits)
next
  case (Cons m rest)
  from assms(1,2) Cons have eqs: "lawful a (m # rest @ w)" "br_sent a = br_written b @ payload (m # rest @ w)"
    by (auto simp: arriving_def)
  show ?thesis
  proof (cases "\<exists>d. m = Payload d")
    case True
    then show ?thesis using assms Cons eqs lawful_tail[OF eqs(1)] by (auto simp: takes_def arriving_def)
  next
    case False
    show ?thesis
    proof (cases "m = half_close")
      case True
      then have "payload (rest @ w) = []" "br_read_closed a"
        using eqs(1) shape_after_half[of "rest @ w"] by (auto simp: lawful_def)
      then show ?thesis using assms Cons eqs True lawful_tail[OF eqs(1)]
        by (auto simp: takes_def arriving_def)
    next
      case other: False
      with False Cons assms(4) have "b' = b\<lparr>br_inbox := rest, br_phase := Finished\<rparr>"
        by (cases m) (auto simp: takes_def finish_def split: if_splits)
      then show ?thesis using assms
        by (intro arriving_finished[of looping a b w b' "[]"]) auto
    qed
  qed
qed

lemma arriving_take_fails:
  assumes "arriving looping a b w" "br_phase b = Running" "\<not> br_write_closed b"
    "take_fails n b = Some (b', new)"
  shows "arriving looping a b' w"
proof (cases "br_inbox b")
  case Nil
  then show ?thesis using assms by (simp add: take_fails_def)
next
  case (Cons m rest)
  show ?thesis
  proof (cases "\<exists>d. m = Payload d")
    case True
    then obtain d where "m = Payload d" by blast
    then show ?thesis using assms Cons
      by (intro arriving_finished[of looping a b w b' "take n d"])
        (auto simp: take_fails_def finish_def take_is_prefix intro: prefix_order.trans)
  next
    case False
    then have "b' = b\<lparr>br_inbox := rest, br_phase := Finished\<rparr>" using assms(4) Cons
      by (cases m) (auto simp: take_fails_def finish_def split: if_splits)
    then show ?thesis using assms
      by (intro arriving_finished[of looping a b w b' "[]"]) auto
  qed
qed

lemma arriving_same_sink:
  assumes "arriving looping a b w" "br_inbox b' = br_inbox b" "br_written b' = br_written b"
    "br_write_closed b' = br_write_closed b" "br_known b' = br_known b" "br_phase b \<noteq> Finished"
  shows "arriving looping a b' w"
  using assms(1,6) unfolding arriving_def assms(2-5) by blast

lemma arriving_sink:
  assumes "arriving looping a b w" "bridge_step e b = Some (b', new)"
  shows "arriving looping a b' w"
proof (cases e)
  case Takes
  then show ?thesis using assms by (auto intro: arriving_takes split: if_splits)
next
  case (TakeFails n)
  then show ?thesis using assms by (auto intro: arriving_take_fails split: if_splits)
qed (use assms in \<open>auto simp: finish_def intro!: arriving_same_sink[OF assms(1)] split: if_splits\<close>)

lemma arriving_handed:
  assumes "arriving True a b (m # w)" "br_known b" "br_phase b \<noteq> Finished"
    "known \<or> (\<exists>c. m = Close c False)"
  shows "arriving True a (b\<lparr>br_inbox := br_inbox b @ [m], br_known := known\<rparr>) w"
proof -
  have eqs: "lawful a (br_inbox b @ m # w)" "br_sent a = br_written b @ payload (br_inbox b @ m # w)"
    using assms(1,3) by (auto simp: arriving_def)
  have "known \<or> w = [] \<and> br_phase a = Finished"
  proof (rule ccontr)
    assume not: "\<not> (known \<or> w = [] \<and> br_phase a = Finished)"
    with assms(4) obtain c where m: "m = Close c False" by blast
    have "shape (m # w)" using eqs(1) shape_suffix by (auto simp: lawful_def)
    then have "w = []" using m by simp
    moreover have "br_phase a = Finished" using eqs(1) m by (auto simp: lawful_def open_ended_def)
    ultimately show False using not by blast
  qed
  then show ?thesis using assms eqs by (auto simp: arriving_def)
qed

section \<open>Every interleaving\<close>

definition wire_of :: "reverse \<Rightarrow> side \<Rightarrow> nat \<Rightarrow> reverse_message list" where
  "wire_of s d i = map snd (filter (\<lambda>m. fst m = i) (rv_wire s d))"

definition reverse_inv :: "reverse \<Rightarrow> bool" where
  "reverse_inv s \<longleftrightarrow>
     (\<forall>d i. flow (rv_loop s (opposite d)) (rv_bridges s d i) (rv_bridges s (opposite d) i) (wire_of s d i))
     \<and> (\<forall>i. rv_bridges s Guest i = None \<longrightarrow> rv_bridges s Near i = None)
     \<and> (\<forall>i. rv_bridges s Guest i \<noteq> None \<longrightarrow> i \<noteq> 0 \<and> i \<le> rv_last s)"

lemma opposite_opposite [simp]: "opposite (opposite d) = d"
  by (cases d) simp_all

lemma opposite_neq [simp]: "opposite d \<noteq> d" "d \<noteq> opposite d"
  by (cases d; simp)+

lemma side_eq_opposite: "e \<noteq> d \<longleftrightarrow> e = opposite d"
  by (cases d; cases e) simp_all

lemma flow_source:
  assumes "flow looping (Some a) sink w" "bridge_step e a = Some (a', new)"
  shows "flow looping (Some a') sink (w @ new)"
proof (cases sink)
  case None
  with assms(1) obtain ms where ms: "w = Connected True # ms" "lawful a ms" "payload ms = br_sent a"
    by (auto simp: flow_def)
  with step_source_lawful[OF ms(2) assms(2)] None show ?thesis by (auto simp: flow_def)
next
  case (Some b)
  then show ?thesis using assms arriving_source by (auto simp: flow_def)
qed

lemma step_unfed:
  "bridge_step e b = Some (b', new) \<Longrightarrow> br_inbox b = [] \<Longrightarrow>
     br_inbox b' = [] \<and> br_written b' = br_written b \<and> br_write_closed b' = br_write_closed b
     \<and> (br_phase b = Finished \<longrightarrow> br_phase b' = Finished)"
  by (cases e) (auto simp: takes_def take_fails_def finish_def split: if_splits)

lemma flow_sink:
  assumes "flow looping source (Some b) w" "bridge_step e b = Some (b', new)"
  shows "flow looping source (Some b') w"
proof (cases source)
  case None
  then show ?thesis using assms(1) step_unfed[OF assms(2)] step_known[OF assms(2)]
    by (auto simp: flow_def)
next
  case (Some a)
  then show ?thesis using assms arriving_sink by (auto simp: flow_def)
qed

lemma flow_loop_ends:
  "flow looping source sink w \<Longrightarrow> flow False source (map_option (\<lambda>b. b\<lparr>br_known := False\<rparr>) sink) w"
  "flow looping source sink w \<Longrightarrow> flow looping (map_option (\<lambda>b. b\<lparr>br_known := False\<rparr>) source) sink w"
  by (auto simp: flow_def arriving_def lawful_def split: option.splits)

lemma flow_data_head:
  assumes "flow looping source sink (m # w)" "sink \<noteq> None"
  shows "data_message m"
  using assms by (auto simp: flow_def arriving_def split: option.splits)

lemma flow_handed:
  assumes "flow True source (Some b) (m # w)"
  shows "flow True source
     (Some (if \<not> br_known b \<or> br_phase b = Finished then b\<lparr>br_known := False\<rparr>
            else b\<lparr>br_inbox := br_inbox b @ [m], br_known := (d = Guest \<or> (case m of Close _ half \<Rightarrow> half | _ \<Rightarrow> True))\<rparr>)) w"
proof (cases source)
  case None
  then show ?thesis using assms by (simp add: flow_def)
next
  case (Some a)
  with assms have arr: "arriving True a b (m # w)" by (simp add: flow_def)
  show ?thesis
  proof (cases "\<not> br_known b \<or> br_phase b = Finished")
    case True
    with arr have "br_phase b = Finished" by (auto simp: arriving_def)
    then show ?thesis using arr Some True by (auto simp: flow_def arriving_def)
  next
    case False
    have kept: "(d = Guest \<or> (case m of Close _ half \<Rightarrow> half | _ \<Rightarrow> True)) \<or> (\<exists>c. m = Close c False)"
      by (cases m) auto
    show ?thesis using arriving_handed[OF arr _ _ kept] Some False by (simp add: flow_def)
  qed
qed

lemma flow_connected:
  assumes "flow looping (Some a) None (m # w)"
  shows "m = Connected True \<and> flow looping (Some a) (Some (new_bridge Connecting)) w"
  using assms
  by (auto simp: flow_def arriving_def new_bridge_def lawful_def list_all_iff dest!: shape_data)

lemma wire_sent [simp]:
  "wire_of (send_on d i ms s) e j = wire_of s e j @ (if e = d \<and> i = j then ms else [])"
proof -
  have "map snd (filter (\<lambda>m. fst m = j) (map (Pair i) ms)) = (if i = j then ms else [])"
    by (induction ms) auto
  then show ?thesis by (auto simp: wire_of_def send_on_def simp del: filter_map map_map)
qed

lemma fields [simp]:
  "rv_bridges (set_bridge d i b s) e j = (if e = d \<and> j = i then Some b else rv_bridges s e j)"
  "rv_loop (set_bridge d i b s) = rv_loop s"
  "rv_last (set_bridge d i b s) = rv_last s"
  "wire_of (set_bridge d i b s) e j = wire_of s e j"
  "rv_bridges (send_on d i ms s) = rv_bridges s"
  "rv_loop (send_on d i ms s) = rv_loop s"
  "rv_last (send_on d i ms s) = rv_last s"
  "wire_of (s\<lparr>rv_last := n\<rparr>) e j = wire_of s e j"
  by (auto simp: set_bridge_def send_on_def wire_of_def)

lemma reverse_invI:
  assumes "\<And>d i. flow (rv_loop s (opposite d)) (rv_bridges s d i) (rv_bridges s (opposite d) i) (wire_of s d i)"
    and "\<And>i. rv_bridges s Guest i = None \<Longrightarrow> rv_bridges s Near i = None"
    and "\<And>i. rv_bridges s Guest i \<noteq> None \<Longrightarrow> i \<noteq> 0 \<and> i \<le> rv_last s"
  shows "reverse_inv s"
  using assms unfolding reverse_inv_def by blast

lemma inv_flow:
  "reverse_inv s \<Longrightarrow> flow (rv_loop s (opposite d)) (rv_bridges s d i) (rv_bridges s (opposite d) i) (wire_of s d i)"
  by (simp add: reverse_inv_def)

lemma inv_guest:
  "reverse_inv s \<Longrightarrow> rv_bridges s Near i \<noteq> None \<Longrightarrow> rv_bridges s Guest i \<noteq> None"
  "reverse_inv s \<Longrightarrow> rv_bridges s Guest i \<noteq> None \<Longrightarrow> i \<noteq> 0 \<and> i \<le> rv_last s"
  by (auto simp: reverse_inv_def)

lemma inv_near: "reverse_inv s \<Longrightarrow> rv_bridges s Guest i = None \<Longrightarrow> rv_bridges s Near i = None"
  by (simp add: reverse_inv_def)

lemma reverse_start_inv: "reverse_inv reverse_start"
  by (simp add: reverse_inv_def reverse_start_def flow_def wire_of_def)

lemma bridge_inv:
  assumes inv: "reverse_inv s" and b: "rv_bridges s d i = Some b" and step: "bridge_step e b = Some (b', ms)"
  shows "reverse_inv (send_on d i ms (set_bridge d i b' s))"
proof (rule reverse_invI)
  fix e' j
  have here: "flow (rv_loop s (opposite e')) (rv_bridges s e' j) (rv_bridges s (opposite e') j) (wire_of s e' j)"
    by (rule inv_flow[OF inv])
  show "flow (rv_loop (send_on d i ms (set_bridge d i b' s)) (opposite e'))
     (rv_bridges (send_on d i ms (set_bridge d i b' s)) e' j)
     (rv_bridges (send_on d i ms (set_bridge d i b' s)) (opposite e') j)
     (wire_of (send_on d i ms (set_bridge d i b' s)) e' j)"
  proof (cases "j = i")
    case False
    then show ?thesis using here by simp
  next
    case True
    show ?thesis
    proof (cases "e' = d")
      case e: True
      show ?thesis using flow_source[OF here[unfolded e True b] step] e True by simp
    next
      case False
      then have o: "opposite e' = d" using side_eq_opposite by (cases e'; cases d) auto
      show ?thesis using flow_sink[OF here[unfolded o True b] step] o True False by simp
    qed
  qed
next
  fix j
  assume none: "rv_bridges (send_on d i ms (set_bridge d i b' s)) Guest j = None"
  then have "rv_bridges s Guest j = None" by (simp split: if_splits)
  then have "rv_bridges s Near j = None" by (rule inv_near[OF inv])
  then show "rv_bridges (send_on d i ms (set_bridge d i b' s)) Near j = None"
    using none b by auto
next
  fix j
  assume "rv_bridges (send_on d i ms (set_bridge d i b' s)) Guest j \<noteq> None"
  then have "rv_bridges s Guest j \<noteq> None" using b by (auto split: if_splits)
  then show "j \<noteq> 0 \<and> j \<le> rv_last (send_on d i ms (set_bridge d i b' s))"
    using inv_guest(2)[OF inv] by simp
qed

lemma loop_ends_inv:
  assumes inv: "reverse_inv s"
  shows "reverse_inv (loop_ends d s)"
proof (rule reverse_invI)
  fix e' j
  have here: "flow (rv_loop s (opposite e')) (rv_bridges s e' j) (rv_bridges s (opposite e') j) (wire_of s e' j)"
    by (rule inv_flow[OF inv])
  show "flow (rv_loop (loop_ends d s) (opposite e')) (rv_bridges (loop_ends d s) e' j)
     (rv_bridges (loop_ends d s) (opposite e') j) (wire_of (loop_ends d s) e' j)"
  proof (cases "e' = d")
    case True
    then show ?thesis using flow_loop_ends(2)[OF here] by (simp add: loop_ends_def wire_of_def)
  next
    case False
    then have "opposite e' = d" using side_eq_opposite by (cases e'; cases d) auto
    then show ?thesis using flow_loop_ends(1)[OF here] False by (simp add: loop_ends_def wire_of_def)
  qed
qed (use inv_near[OF inv] inv_guest(2)[OF inv] in \<open>auto simp: loop_ends_def split: if_splits\<close>)

lemma accept_inv:
  assumes inv: "reverse_inv s"
  shows "reverse_inv (send_on Guest (Suc (rv_last s)) [Connected True]
     (set_bridge Guest (Suc (rv_last s)) (new_bridge Running) (s\<lparr>rv_last := Suc (rv_last s)\<rparr>)))"
    (is "reverse_inv ?t")
proof (rule reverse_invI)
  fix e' j
  have here: "flow (rv_loop s (opposite e')) (rv_bridges s e' j) (rv_bridges s (opposite e') j) (wire_of s e' j)"
    by (rule inv_flow[OF inv])
  have none: "rv_bridges s Guest (Suc (rv_last s)) = None"
    using inv_guest(2)[OF inv, of "Suc (rv_last s)"] by (cases "rv_bridges s Guest (Suc (rv_last s))") auto
  then have none': "rv_bridges s Near (Suc (rv_last s)) = None" by (rule inv_near[OF inv])
  show "flow (rv_loop ?t (opposite e')) (rv_bridges ?t e' j) (rv_bridges ?t (opposite e') j) (wire_of ?t e' j)"
  proof (cases "j = Suc (rv_last s)")
    case False
    then show ?thesis using here by simp
  next
    case True
    show ?thesis using here none none' True
      by (cases e') (auto simp: flow_def new_bridge_def lawful_def open_ended_def)
  qed
next
  fix j
  assume "rv_bridges ?t Guest j = None"
  then show "rv_bridges ?t Near j = None" using inv_near[OF inv, of j] by (simp split: if_splits)
next
  fix j
  assume "rv_bridges ?t Guest j \<noteq> None"
  then show "j \<noteq> 0 \<and> j \<le> rv_last ?t"
    using inv_guest(2)[OF inv, of j] by (cases "j = Suc (rv_last s)") auto
qed

lemma skipped_inv: "reverse_inv s \<Longrightarrow> reverse_inv (s\<lparr>rv_last := Suc (rv_last s)\<rparr>)"
  by (auto simp: reverse_inv_def wire_of_def)

lemma flow_same_source:
  "flow looping (Some a) sink w \<Longrightarrow> flow looping (Some (a\<lparr>br_inbox := x, br_known := y\<rparr>)) sink w"
  "flow looping (Some a) sink w \<Longrightarrow> flow looping (Some (a\<lparr>br_known := y\<rparr>)) sink w"
  by (auto simp: flow_def arriving_def lawful_def split: option.splits)

lemma flow_starts:
  "flow looping None (Some a) w \<Longrightarrow> flow looping (Some (new_bridge Connecting)) (Some a) w"
  by (auto simp: flow_def arriving_def lawful_def new_bridge_def open_ended_def)

lemma deliver_inv:
  assumes inv: "reverse_inv s" and wire: "rv_wire s (opposite d) = (i, m) # rest" and loop: "rv_loop s d"
  shows "reverse_inv (deliver d i m (s\<lparr>rv_wire := (rv_wire s)(opposite d := rest)\<rparr>))"
    (is "reverse_inv (deliver d i m ?s)")
proof -
  have flows: "flow (rv_loop s (opposite e)) (rv_bridges s e j) (rv_bridges s (opposite e) j) (wire_of s e j)"
    for e j by (rule inv_flow[OF inv])
  have w: "wire_of s (opposite d) i = m # wire_of ?s (opposite d) i"
    using wire by (simp add: wire_of_def)
  have same: "wire_of ?s e j = wire_of s e j" if "e = d \<or> j \<noteq> i" for e j
    using that wire by (auto simp: wire_of_def)
  have here: "flow True (rv_bridges s (opposite d) i) (rv_bridges s d i) (m # wire_of ?s (opposite d) i)"
    using flows[of "opposite d" i] loop w by simp
  then obtain a where a: "rv_bridges s (opposite d) i = Some a"
    by (cases "rv_bridges s (opposite d) i") (auto simp: flow_def)
  have moved: "reverse_inv (set_bridge d i b' ?s)"
    if sink: "flow True (Some a) (Some b') (wire_of ?s (opposite d) i)"
      and source: "flow (rv_loop s (opposite d)) (Some b') (Some a) (wire_of s d i)" for b'
  proof (rule reverse_invI)
    fix e j
    show "flow (rv_loop (set_bridge d i b' ?s) (opposite e)) (rv_bridges (set_bridge d i b' ?s) e j)
       (rv_bridges (set_bridge d i b' ?s) (opposite e) j) (wire_of (set_bridge d i b' ?s) e j)"
    proof (cases "j = i")
      case False
      then show ?thesis using flows[of e j] same[of e j] by simp
    next
      case True
      show ?thesis using sink source a loop True same[of d i] by (cases "e = d"; cases e; cases d) simp_all
    qed
  next
    fix j
    assume "rv_bridges (set_bridge d i b' ?s) Guest j = None"
    then show "rv_bridges (set_bridge d i b' ?s) Near j = None"
      using inv_near[OF inv, of j] a by (cases d) (auto split: if_splits)
  next
    fix j
    assume "rv_bridges (set_bridge d i b' ?s) Guest j \<noteq> None"
    then have "rv_bridges s Guest j \<noteq> None"
      using a inv_guest(1)[OF inv, of j] by (cases d) (auto split: if_splits)
    then show "j \<noteq> 0 \<and> j \<le> rv_last (set_bridge d i b' ?s)" using inv_guest(2)[OF inv, of j] by simp
  qed
  show ?thesis
  proof (cases "rv_bridges s d i")
    case None
    have "d = Near" using a None inv_guest(1)[OF inv, of i] by (cases d) auto
    moreover have "i \<noteq> 0" using a inv_guest(2)[OF inv, of i] \<open>d = Near\<close> by simp
    moreover have "m = Connected True \<and> flow True (Some a) (Some (new_bridge Connecting)) (wire_of ?s (opposite d) i)"
      by (rule flow_connected) (use here a None in simp)
    moreover have "flow (rv_loop s (opposite d)) (Some (new_bridge Connecting)) (Some a) (wire_of s d i)"
      by (rule flow_starts) (use flows[of d i] a None in simp)
    ultimately show ?thesis using moved[of "new_bridge Connecting"] by (simp add: deliver_def)
  next
    case (Some b)
    have "data_message m" using flow_data_head[OF here] Some by simp
    then have "deliver d i m ?s = hand_over d i m ?s" by (cases m) (simp_all add: deliver_def)
    moreover have "flow (rv_loop s (opposite d)) (Some b) (Some a) (wire_of s d i)"
      using flows[of d i] a Some by simp
    ultimately show ?thesis
      using moved flow_handed[of "Some a" b m "wire_of ?s (opposite d) i" d] here a Some
      by (auto simp: hand_over_def intro: flow_same_source split: if_splits)
  qed
qed

lemma moves_inv: "reverse_inv s \<Longrightarrow> reverse_moves e s t \<Longrightarrow> reverse_inv t"
  by (cases e)
    (auto simp: reverse_moves_def Let_def
      intro: accept_inv skipped_inv bridge_inv deliver_inv loop_ends_inv
      split: if_splits option.splits list.splits)

interpretation reverse_connections: event_system reverse_moves reverse_inv
  by unfold_locales (rule moves_inv)

lemma reverse_run_reaches: "run_events reverse_step es s = Some t \<Longrightarrow> reaches reverse_moves s t"
  using run_events_reaches[of reverse_step es s t] by (simp add: reverse_moves_def[abs_def])

section \<open>The property\<close>

text \<open>
  C39: however the accepting loop, the loops at both ends and the bridges of every connection
  interleave, and wherever a read, a write or the stream itself fails, what a bridge has written
  to its socket is a prefix of what the other bridge of the same connection has read from its own:
  nothing is reordered or changed, and nothing comes from another connection. Until it
  finishes, what it has not written yet is exactly what waits in its queue and on the stream.
  A bridge that has shut its socket down for writing has written all of it, and the other has
  seen the end of its data.
\<close>

theorem reverse_connections_apart:
  assumes "reaches reverse_moves reverse_start s"
    and "rv_bridges s d i = Some a" "rv_bridges s (opposite d) i = Some b"
  shows "prefix (br_written b) (br_sent a)
    \<and> (br_phase b \<noteq> Finished \<longrightarrow> br_sent a = br_written b @ payload (br_inbox b @ wire_of s d i))
    \<and> (br_write_closed b \<longrightarrow> br_written b = br_sent a \<and> br_read_closed a)"
proof -
  have "reverse_inv s" by (rule reverse_connections.reaches_inv[OF assms(1) reverse_start_inv])
  then have "arriving (rv_loop s (opposite d)) a b (wire_of s d i)"
    using inv_flow[of s d i] assms(2,3) by (simp add: flow_def)
  then show ?thesis by (auto simp: arriving_def)
qed

definition two_connections :: "reverse_event list" where
  "two_connections =
     [Accept, Accept, Bridge Guest 2 (Reads ''b''), Bridge Guest 1 (Reads ''a1''), Deliver Near, Deliver Near,
      Bridge Near 1 (Connects True), Bridge Guest 1 (Reads ''a2''), Bridge Guest 1 ReadsEnd,
      Deliver Near, Deliver Near, Deliver Near, Deliver Near,
      Bridge Near 1 Takes, Bridge Near 1 Takes, Bridge Near 1 Takes]"

lemma reverse_connections_apart_witness:
  "\<exists>s a b. run_events reverse_step two_connections reverse_start = Some s
     \<and> rv_bridges s Guest 1 = Some a \<and> rv_bridges s Near 1 = Some b
     \<and> br_write_closed b \<and> br_sent a = ''a1a2'' \<and> br_written b = br_sent a"
proof -
  have "case run_events reverse_step two_connections reverse_start of None \<Rightarrow> False
     | Some s \<Rightarrow> (case (rv_bridges s Guest 1, rv_bridges s Near 1) of
          (Some a, Some b) \<Rightarrow> br_write_closed b \<and> br_sent a = ''a1a2'' | _ \<Rightarrow> False)"
    by (simp add: two_connections_def reverse_start_def send_on_def set_bridge_def
        new_bridge_def deliver_def hand_over_def takes_def)
  then obtain s a b where run: "run_events reverse_step two_connections reverse_start = Some s"
    "rv_bridges s Guest 1 = Some a" "rv_bridges s Near 1 = Some b" "br_write_closed b" "br_sent a = ''a1a2''"
    by (auto split: option.splits)
  have "br_written b = br_sent a"
    using reverse_connections_apart[OF reverse_run_reaches[OF run(1)], of Guest 1 a b] run by simp
  then show ?thesis using run by blast
qed

end
