(* ===== verification/LocalInput.thy ===== *)
theory LocalInput
  imports FileTrees Numbers
begin

text \<open>
  Local input of an attached terminal (\<open>TerminalInput\<close> in
  \<open>crates/pbox-cli/src/sessions.rs\<close>, the input thread in \<open>ssh_input.rs\<close>) and the
  names terminals are addressed by. The thread reads the keyboard in pieces of any size; a
  turn of its loop is what the poll, the read and the queue to the network did.
\<close>

unbundle bit_operations_syntax

section \<open>Naming a terminal\<close>

definition name_error :: string where
  "name_error = ''session names use 1'' @ [CHR 0xE2, CHR 0x80, CHR 0x93]
     @ ''64 letters, digits, hyphens or underscores''"

definition validate_session_name :: "string \<Rightarrow> (string, unit) result" where
  "validate_session_name name =
     ensure (name \<noteq> [] \<and> length name \<le> 64
         \<and> list_all (\<lambda>c. is_alnum c \<or> c = CHR ''-'' \<or> c = CHR ''_'') name) name_error"

definition terminal_target :: "string \<Rightarrow> string option \<Rightarrow> (string, string \<times> string) result" where
  "terminal_target reference name =
     and_then
       (case split_once reference '':'' of
          Some (box, suffix) \<Rightarrow>
            if name \<noteq> None then Inl ''use either BOX:SESSION or BOX NAME, not both'' else Inr (box, suffix)
        | None \<Rightarrow> and_then (ok_or ''specify a terminal as BOX:SESSION or BOX NAME'' name) (\<lambda>n. Inr (reference, n)))
       (\<lambda>(box, n).
          if box = [] then Inl ''BOX:SESSION needs a box ID or name before the colon''
          else and_then (validate_session_name n) (\<lambda>_. Inr (box, n)))"

record ssh_target =
  ss_id :: string
  ss_session :: "string option"

definition normalize_ssh_target :: "ssh_target \<Rightarrow> (string, ssh_target) result" where
  "normalize_ssh_target c =
     (if contains (ss_id c) '':''
      then if ss_session c \<noteq> None then Inl ''use either BOX:SESSION or --session NAME''
           else and_then (terminal_target (ss_id c) None)
                  (\<lambda>(box, n). Inr (c\<lparr>ss_id := box, ss_session := Some n\<rparr>))
      else Inr c)"

section \<open>Recognising the detach key\<close>

abbreviation ESC :: char where "ESC \<equiv> CHR 0x1B"

abbreviation paste_start :: string where "paste_start \<equiv> ESC # ''[200~''"
abbreviation paste_stop :: string where "paste_stop \<equiv> ESC # ''[201~''"

definition field :: "string list \<Rightarrow> nat \<Rightarrow> string option" where
  "field fs i = (if i < length fs then Some (fs ! i) else None)"

definition or_one :: "string option \<Rightarrow> string" where
  "or_one f = (case f of Some s \<Rightarrow> s | None \<Rightarrow> ''1'')"

text \<open>Key, modifiers and event type of a key report in either of its two forms.\<close>

definition key_report :: "string \<Rightarrow> (nat option \<times> nat option \<times> nat option) option" where
  "key_report body =
     (case strip_suffix body ''u'' of
        Some b \<Rightarrow>
          let fields = split_char CHR '';'' b;
              modifiers = split_char CHR '':'' (or_one (field fields 1))
          in Some (parse_u32 (hd (split_char CHR '':'' (hd fields))), parse_u32 (hd modifiers),
                   parse_u32 (or_one (field modifiers 1)))
      | None \<Rightarrow>
          (case strip_suffix body ''~'' of
             Some b \<Rightarrow>
               let fields = split_char CHR '';'' b
               in if hd fields \<noteq> ''27'' then None
                  else Some (Option.bind (field fields 2) parse_u32, Option.bind (field fields 1) parse_u32, Some 1)
           | None \<Rightarrow> None))"

definition only_control :: "nat \<Rightarrow> bool" where
  "only_control modifiers \<longleftrightarrow>
     0 < modifiers \<and> (word_of_nat (modifiers - 1) :: 32 word) AND NOT (64 OR 128) = 4"

definition control_key :: "string \<Rightarrow> nat \<Rightarrow> bool" where
  "control_key sequence key_code \<longleftrightarrow>
     (case strip_prefix sequence (ESC # ''['') of
        None \<Rightarrow> False
      | Some body \<Rightarrow>
          is_utf8 body
          \<and> (case key_report body of
               None \<Rightarrow> False
             | Some (key, modifiers, event) \<Rightarrow>
                 key = Some key_code \<and> event \<in> {Some 1, Some 2}
                 \<and> (case modifiers of Some m \<Rightarrow> only_control m | None \<Rightarrow> False)))"

record local_input =
  ti_pending :: string
  ti_pasted :: bool
  ti_exit_on_ctrl_c :: bool

definition fresh_input :: "bool \<Rightarrow> local_input" where
  "fresh_input read_only = \<lparr>ti_pending = [], ti_pasted = False, ti_exit_on_ctrl_c = read_only\<rparr>"

definition flush_input :: "local_input \<Rightarrow> string \<times> local_input" where
  "flush_input t = (ti_pending t, t\<lparr>ti_pending := []\<rparr>)"

definition detach_byte :: "local_input \<Rightarrow> char \<Rightarrow> bool" where
  "detach_byte t b \<longleftrightarrow> b = CHR 0x1D \<or> ti_exit_on_ctrl_c t \<and> b = CHR 0x03"

definition detach_sequence :: "local_input \<Rightarrow> string \<Rightarrow> bool" where
  "detach_sequence t s \<longleftrightarrow> control_key s 93 \<or> ti_exit_on_ctrl_c t \<and> control_key s 99"

text \<open>A sequence is held back until it is complete, or too long to be one.\<close>

definition incomplete :: "string \<Rightarrow> bool" where
  "incomplete s \<longleftrightarrow>
     length s = 2 \<and> last s = CHR ''[''
     \<or> length s > 2 \<and> \<not> (0x40 \<le> byte (last s) \<and> byte (last s) \<le> 0x7E) \<and> length s < 64"

text \<open>One byte: what is passed on, or nothing more when it completes the detach key.\<close>

definition feed :: "local_input \<Rightarrow> char \<Rightarrow> string option \<times> local_input" where
  "feed t b =
     (if ti_pending t = []
      then if detach_byte t b \<and> \<not> ti_pasted t then (None, t)
           else if b = ESC then (Some [], t\<lparr>ti_pending := [b]\<rparr>)
           else (Some [b], t)
      else let s = ti_pending t @ [b] in
        if incomplete s then (Some [], t\<lparr>ti_pending := s\<rparr>)
        else if s = paste_start then (Some s, t\<lparr>ti_pending := [], ti_pasted := True\<rparr>)
        else if s = paste_stop then (Some s, t\<lparr>ti_pending := [], ti_pasted := False\<rparr>)
        else if \<not> ti_pasted t \<and> detach_sequence t s then (None, t\<lparr>ti_pending := []\<rparr>)
        else (Some s, t\<lparr>ti_pending := []\<rparr>))"

fun push :: "local_input \<Rightarrow> string \<Rightarrow> string \<times> bool \<times> local_input" where
  "push t [] = ([], False, t)"
| "push t (b # bs) =
     (case feed t b of
        (None, t') \<Rightarrow> ([], True, t')
      | (Some out, t') \<Rightarrow> (let (rest, detach, t'') = push t' bs in (out @ rest, detach, t'')))"

section \<open>The input thread\<close>

datatype input_event =
    Idle
  | PollError bool
  | Typed string
  | ReadError bool
  | Eof

text \<open>
  One turn: whether it was told to stop, whether the shell was ready before the poll and
  after the read, what happened, and whether the queue took the bytes.
\<close>

record turn =
  tu_stop :: bool
  tu_ready :: bool
  tu_ready_then :: bool
  tu_event :: input_event
  tu_queue :: bool

datatype sent = Data string | EndOfInput

datatype pump_end = Detached | PumpFailed | Ended | Stopped

fun pump :: "bool \<Rightarrow> local_input \<Rightarrow> turn list \<Rightarrow> sent list \<times> pump_end option" where
  "pump interactive t [] = ([], None)"
| "pump interactive t (u # us) =
     (if tu_stop u then ([], Some Stopped)
      else if \<not> interactive \<and> \<not> tu_ready u then pump interactive t us
      else case tu_event u of
        PollError interrupted \<Rightarrow> if interrupted then pump interactive t us else ([], Some PumpFailed)
      | Idle \<Rightarrow>
          if ti_pending t = [] then pump interactive t us
          else let (bytes, t') = flush_input t in
            if \<not> tu_ready_then u then pump interactive t' us
            else if tu_queue u then (let (rest, e) = pump interactive t' us in (Data bytes # rest, e))
            else ([], Some PumpFailed)
      | ReadError interrupted \<Rightarrow> if interrupted then pump interactive t us else ([], Some PumpFailed)
      | Eof \<Rightarrow> if tu_queue u then ([EndOfInput], Some Ended) else ([], Some PumpFailed)
      | Typed bytes \<Rightarrow>
          if interactive
          then let (out, detach, t') = push t bytes in
            if detach then ([], Some Detached)
            else if tu_ready_then u \<and> out \<noteq> []
            then if tu_queue u then (let (rest, e) = pump interactive t' us in (Data out # rest, e))
                 else ([], Some PumpFailed)
            else pump interactive t' us
          else if tu_queue u then (let (rest, e) = pump interactive t us in (Data bytes # rest, e))
               else ([], Some PumpFailed))"

section \<open>What is passed on\<close>

definition held_back :: "string \<Rightarrow> bool" where
  "held_back s \<longleftrightarrow> s \<noteq> [] \<and> hd s = ESC \<and> (length s = 1 \<or> incomplete s)"

definition input_ok :: "local_input \<Rightarrow> bool" where
  "input_ok t \<longleftrightarrow> ti_pending t = [] \<or> held_back (ti_pending t)"

text \<open>The detach key of a session: control and the right bracket, or control and C when only reading.\<close>

definition detach_key :: "bool \<Rightarrow> string \<Rightarrow> bool" where
  "detach_key read_only key \<longleftrightarrow>
     key = [CHR 0x1D] \<or> control_key key 93 \<or> read_only \<and> (key = [CHR 0x03] \<or> control_key key 99)"

lemma feed_exact:
  assumes "feed t b = (Some out, t')" "input_ok t"
  shows "ti_pending t @ [b] = out @ ti_pending t' \<and> input_ok t'
    \<and> ti_exit_on_ctrl_c t' = ti_exit_on_ctrl_c t"
  using assms by (auto simp: feed_def input_ok_def held_back_def Let_def split: if_splits)

lemma feed_detach:
  assumes "feed t b = (None, t')"
  shows "detach_key (ti_exit_on_ctrl_c t) (ti_pending t @ [b])"
  using assms
  by (auto simp: feed_def Let_def detach_key_def detach_byte_def detach_sequence_def split: if_splits)

lemma push_exact:
  "push t bs = (out, False, t') \<Longrightarrow> input_ok t \<Longrightarrow>
     ti_pending t @ bs = out @ ti_pending t' \<and> input_ok t' \<and> ti_exit_on_ctrl_c t' = ti_exit_on_ctrl_c t"
proof (induction t bs arbitrary: out rule: push.induct)
  case (2 t b bs)
  then obtain o1 t1 where f: "feed t b = (Some o1, t1)" by (auto split: prod.splits option.splits)
  with 2(2) obtain o2 where p: "push t1 bs = (o2, False, t')" "out = o1 @ o2"
    by (auto split: prod.splits)
  note e = feed_exact[OF f 2(3)]
  from 2(1)[OF f[symmetric] refl p(1)] e have "ti_pending t1 @ bs = o2 @ ti_pending t'" "input_ok t'"
    "ti_exit_on_ctrl_c t' = ti_exit_on_ctrl_c t" by auto
  moreover from e have "ti_pending t @ b # bs = o1 @ ti_pending t1 @ bs"
    by (metis append.assoc append_Cons append_Nil)
  ultimately show ?case using p(2) by simp
qed auto

lemma push_detach:
  "push t bs = (out, True, t') \<Longrightarrow> input_ok t \<Longrightarrow>
     \<exists>key more. ti_pending t @ bs = out @ key @ more \<and> detach_key (ti_exit_on_ctrl_c t) key"
proof (induction t bs arbitrary: out rule: push.induct)
  case (2 t b bs)
  show ?case
  proof (cases "feed t b")
    case (Pair r t1)
    show ?thesis
    proof (cases r)
      case None
      with Pair 2(2) have "out = []" by simp
      moreover have "ti_pending t @ b # bs = [] @ (ti_pending t @ [b]) @ bs" by simp
      ultimately show ?thesis using feed_detach Pair None by blast
    next
      case (Some o1)
      with Pair 2(2) obtain o2 where p: "push t1 bs = (o2, True, t')" "out = o1 @ o2"
        by (auto split: prod.splits)
      from Pair Some have f: "feed t b = (Some o1, t1)" by simp
      note e = feed_exact[OF f 2(3)]
      from 2(1)[OF f[symmetric] refl p(1)] e obtain key more where
        k: "ti_pending t1 @ bs = o2 @ key @ more" "detach_key (ti_exit_on_ctrl_c t) key" by auto
      from e have "ti_pending t @ b # bs = o1 @ ti_pending t1 @ bs"
        by (metis append.assoc append_Cons append_Nil)
      then show ?thesis using k p(2) by auto
    qed
  qed
qed auto

fun typed :: "turn list \<Rightarrow> string" where
  "typed [] = []"
| "typed (u # us) = (case tu_event u of Typed bytes \<Rightarrow> bytes | _ \<Rightarrow> []) @ typed us"

lemma typed_Typed: "tu_event u = Typed bytes \<Longrightarrow> typed (u # us) = bytes @ typed us"
  by simp

fun queued :: "sent list \<Rightarrow> string" where
  "queued [] = []"
| "queued (Data bytes # rest) = bytes @ queued rest"
| "queued (EndOfInput # rest) = queued rest"

text \<open>Turns of a session whose shell is ready and whose queue has room.\<close>

definition prompt :: "turn \<Rightarrow> bool" where
  "prompt u \<longleftrightarrow> \<not> tu_stop u \<and> tu_ready_then u \<and> tu_queue u"

definition accounted :: "bool \<Rightarrow> string \<Rightarrow> sent list \<Rightarrow> pump_end option \<Rightarrow> bool" where
  "accounted read_only given sent ended \<longleftrightarrow>
     (\<exists>rest. given = queued sent @ rest
        \<and> (ended = None \<longrightarrow> rest = [] \<or> held_back rest)
        \<and> (ended = Some Detached \<longrightarrow> (\<exists>lost key more. rest = lost @ key @ more \<and> detach_key read_only key)))"

lemma accounted_end:
  "(ended = None \<Longrightarrow> given = [] \<or> held_back given)
     \<Longrightarrow> (ended = Some Detached \<Longrightarrow> \<exists>lost key more. given = lost @ key @ more \<and> detach_key r key)
     \<Longrightarrow> queued sent = [] \<Longrightarrow> accounted r given sent ended"
  unfolding accounted_def by auto

lemma accounted_data:
  "accounted r given sent e \<Longrightarrow> accounted r (bytes @ given) (Data bytes # sent) e"
  unfolding accounted_def by auto

lemma pump_accounted:
  "pump True t us = (sent, e) \<Longrightarrow> list_all prompt us \<Longrightarrow> input_ok t \<Longrightarrow>
     accounted (ti_exit_on_ctrl_c t) (ti_pending t @ typed us) sent e"
proof (induction us arbitrary: t sent)
  case Nil
  then show ?case by (intro accounted_end) (auto simp: input_ok_def)
next
  case (Cons u us)
  from Cons.prems(2) have "prompt u" and us: "list_all prompt us" by simp_all
  then have p: "\<not> tu_stop u" "tu_ready_then u" "tu_queue u" by (simp_all add: prompt_def)
  note IH = Cons.IH[OF _ us]
  show ?case
  proof (cases "tu_event u")
    case Idle
    show ?thesis
    proof (cases "ti_pending t = []")
      case True
      then show ?thesis using IH[OF _ Cons.prems(3)] Cons.prems(1) Idle p by simp
    next
      case False
      then obtain rest where rest: "pump True (t\<lparr>ti_pending := []\<rparr>) us = (rest, e)"
        "sent = Data (ti_pending t) # rest"
        using Cons.prems(1) Idle p by (auto simp: flush_input_def split: prod.splits)
      have "input_ok (t\<lparr>ti_pending := []\<rparr>)" by (simp add: input_ok_def)
      from IH[OF rest(1) this] show ?thesis using rest(2) Idle by (auto intro: accounted_data)
    qed
  next
    case (PollError interrupted)
    then show ?thesis using IH[OF _ Cons.prems(3)] Cons.prems(1) p
      by (auto split: if_splits intro: accounted_end)
  next
    case (ReadError interrupted)
    then show ?thesis using IH[OF _ Cons.prems(3)] Cons.prems(1) p
      by (auto split: if_splits intro: accounted_end)
  next
    case Eof
    then show ?thesis using Cons.prems(1) p by (auto intro: accounted_end)
  next
    case (Typed bytes)
    obtain out detach t1 where push: "push t bytes = (out, detach, t1)" by (cases "push t bytes") auto
    show ?thesis
    proof (cases detach)
      case True
      with push_detach[of t bytes out t1] push Cons.prems(3) obtain key more where
        "ti_pending t @ bytes = out @ key @ more" "detach_key (ti_exit_on_ctrl_c t) key" by auto
      then have "ti_pending t @ typed (u # us) = out @ key @ (more @ typed us)"
        unfolding typed_Typed[OF Typed] by (metis append.assoc)
      moreover have "sent = [] \<and> e = Some Detached" using Cons.prems(1) Typed p push True by simp
      ultimately show ?thesis using \<open>detach_key _ key\<close> unfolding accounted_def
        by (intro exI[of _ "out @ key @ more @ typed us"]) auto
    next
      case False
      with push_exact[of t bytes out t1] push Cons.prems(3) have t1: "ti_pending t @ bytes = out @ ti_pending t1"
        "input_ok t1" "ti_exit_on_ctrl_c t1 = ti_exit_on_ctrl_c t" by auto
      then have given: "ti_pending t @ typed (u # us) = out @ ti_pending t1 @ typed us"
        unfolding typed_Typed[OF Typed] by (metis append.assoc)
      from Cons.prems(1) Typed p push False obtain rest where
        rest: "pump True t1 us = (rest, e)" "sent = (if out = [] then rest else Data out # rest)"
        by (auto split: prod.splits if_splits)
      from IH[OF rest(1) t1(2)] t1(3) rest(2) show ?thesis
        unfolding given by (cases "out = []") (simp_all add: accounted_data)
    qed
  qed
qed

section \<open>Pasted text\<close>

lemma push_append:
  "push t (a @ b) =
     (let (o1, d, t1) = push t a in
      if d then (o1, True, t1) else (let (o2, d2, t2) = push t1 b in (o1 @ o2, d2, t2)))"
  by (induction t a rule: push.induct) (auto simp: Let_def split: prod.splits option.splits)

lemma push_plain:
  assumes "ti_pending t = []" "ti_pasted t" "ESC \<notin> set body"
  shows "push t body = (body, False, t)"
  using assms by (induction body) (auto simp: feed_def)

lemma push_markers:
  assumes "ti_pending t = []"
  shows "push t paste_start = (paste_start, False, t\<lparr>ti_pasted := True\<rparr>)"
    "ti_pasted t \<Longrightarrow> push t paste_stop = (paste_stop, False, t\<lparr>ti_pasted := False\<rparr>)"
  using assms
  by (simp_all add: feed_def incomplete_def Let_def detach_byte_def byte_def)

section \<open>Properties\<close>


definition example_turns :: "turn list" where
  "example_turns =
     map (\<lambda>e. \<lparr>tu_stop = False, tu_ready = True, tu_ready_then = True, tu_event = e, tu_queue = True\<rparr>)
       [Typed (''l'' @ [ESC]), Idle, Typed ''s'', Typed [CHR 0x1D]]"

lemma example_pump:
  "pump True (fresh_input False) example_turns = ([Data ''l'', Data [ESC], Data ''s''], Some Detached)"
  by code_simp


text \<open>
  Pasted text cannot detach: bytes between the paste markers pass unchanged, the bytes of
  the detach keys among them, as long as none of them starts an escape sequence, and the key
  works again after the paste.
\<close>

theorem paste_cannot_detach:
  assumes "ti_pending t = []" "ESC \<notin> set body"
  shows "push t (paste_start @ body @ paste_stop) = (paste_start @ body @ paste_stop, False, t\<lparr>ti_pasted := False\<rparr>)
    \<and> fst (snd (push t (paste_start @ body @ paste_stop @ [CHR 0x1D])))"
proof -
  let ?p = "t\<lparr>ti_pasted := True\<rparr>"
  have body: "push ?p body = (body, False, ?p)" using assms by (intro push_plain) simp_all
  have stop: "push ?p paste_stop = (paste_stop, False, t\<lparr>ti_pasted := False\<rparr>)"
    using push_markers(2)[of ?p] assms(1) by simp
  have pasted: "push t (paste_start @ body @ paste_stop)
      = (paste_start @ body @ paste_stop, False, t\<lparr>ti_pasted := False\<rparr>)"
    by (simp only: push_append push_markers(1)[OF assms(1)] body stop Let_def prod.case if_False)
  have "push (t\<lparr>ti_pasted := False\<rparr>) [CHR 0x1D] = ([], True, t\<lparr>ti_pasted := False\<rparr>)"
    using assms(1) by (simp add: feed_def detach_byte_def)
  then have "push t ((paste_start @ body @ paste_stop) @ [CHR 0x1D])
      = ((paste_start @ body @ paste_stop) @ [], True, t\<lparr>ti_pasted := False\<rparr>)"
    by (simp only: push_append[of t _ "[CHR 0x1D]"] pasted Let_def prod.case if_False)
  then show ?thesis using pasted by simp
qed

lemma paste_cannot_detach_witness:
  "fst (snd (push (fresh_input True) (paste_start @ [CHR 0x1D, CHR 0x03] @ paste_stop))) = False"
  using paste_cannot_detach[of "fresh_input True" "[CHR 0x1D, CHR 0x03]"] by (simp add: fresh_input_def)

text \<open>
  When the pasted text ends with an escape byte, the byte is taken together with the start of
  the end marker, the marker goes unseen, and the session cannot be detached by its key.
\<close>

lemma escape_hides_paste_end:
  "push (fresh_input False) (paste_start @ [ESC] @ paste_stop @ [CHR 0x1D]) =
     (paste_start @ [ESC] @ paste_stop @ [CHR 0x1D], False, (fresh_input False)\<lparr>ti_pasted := True\<rparr>)"
  by code_simp

end
