(* ===== verification/Spec2Isabelle.thy ===== *)
theory Spec2Isabelle
  imports BoxIds Metadata ConfigStore Pve RelayServer RelayTunnel FileTransfer ExecStreams Forwarding
    SessionProofs Creation RecipeRuns RecipeCache RecipeLock Workspace ReverseForward LocalInput
begin

text \<open>
  pbox runs development boxes on Proxmox VE: a command-line client creates LXC guests
  through the PVE API, a root agent inside each guest runs commands, moves files and
  forwards ports over mutual TLS, and an optional relay carries those connections when a
  client cannot reach a guest directly. This library models the deciding code of these parts
  as executable HOL functions and proves what makes each of them correct.

  The theories, in the order they build on each other:

  \<^item> \<open>Prelude\<close>, \<open>Strings\<close>, \<open>Numbers\<close>, \<open>Utf8\<close>: a Rust string as the list of
    its UTF-8 bytes, the standard-library routines the sources call on them, decimal
    printing and parsing at the widths of the code, results as sums, and the collections of
    facts (\<open>res_simps\<close>, \<open>str_simps\<close>) the proofs share.
  \<^item> \<open>Interfaces\<close>: the locales. \<open>text_codec\<close> and \<open>canonical_codec\<close> state
    what a pair of printer and parser promises, \<open>event_system\<close>,
    \<open>monotone_system\<close> and \<open>refined_system\<close> what an invariant and a refinement
    of interleaved handlers promise. Each is interpreted on the model's own definitions by
    the theory that provides them.
  \<^item> \<open>BoxIds\<close> (\<open>crates/pbox-core/src/id.rs\<close> and the checks of the relay and
    the certificates), \<open>Vmid\<close> (\<open>vmid.rs\<close>), \<open>Metadata\<close>
    (\<open>metadata.rs\<close>: the marker in a guest's notes).
  \<^item> \<open>Config\<close>, \<open>ConfigKeys\<close>, \<open>Files\<close>, \<open>ConfigStore\<close>
    (\<open>config.rs\<close>): the configuration record and its validation; setting, unsetting
    and redacting one key; a file system of paths and nodes; loading in layers and atomic
    saving.
  \<^item> \<open>Pve\<close> and \<open>Ipv6\<close> (\<open>pve.rs\<close>): the request every operation of
    the API client sends, with its guards, and the reading of responses and addresses.
  \<^item> \<open>RelayAuth\<close> (\<open>crates/pbox-relay/src/access.rs\<close>, the tokens of
    \<open>lib.rs\<close> and the certificates of \<open>crates/pbox-crypto/src/lib.rs\<close>),
    \<open>RelayServer\<close> (\<open>server.rs\<close>: every handler as an event on the shared
    state), \<open>RelayTunnel\<close> (the data path, frame by frame).
  \<^item> \<open>Protocol\<close>, \<open>AgentRequests\<close>, \<open>FileTransfer\<close>,
    \<open>ExecStreams\<close>, \<open>Forwarding\<close>: the agent's service
    (\<open>crates/pbox-agent/src/main.rs\<close>) together with the client's side of each call
    (\<open>crates/pbox-agent-client/src/lib.rs\<close>).
  \<^item> \<open>TerminalModes\<close>, \<open>TerminalKeys\<close>, \<open>Sessions\<close>,
    \<open>SessionProofs\<close> (\<open>crates/pbox-agent/src/sessions.rs\<close>): the terminal modes
    the agent remembers and restores, how keys and pasted text are encoded, and the registry
    of sessions with its owners and viewers as interleaved events.
  \<^item> \<open>Workspace\<close> (\<open>crates/pbox-agent/src/workspace.rs\<close>): the agent as the
    first process of an image-based box: what an image adds to a request, identities, and
    the supervision of services. \<open>ReverseForward\<close> (\<open>reverse.rs\<close> of the agent
    and of \<open>crates/pbox-agent-client\<close>): many connections over one stream, with the
    loops and bridges of both ends as interleaved events.
  \<^item> \<open>PveCalls\<close>, \<open>Tasks\<close>, \<open>Lifecycle\<close>,
    \<open>BoxOperations\<close>, \<open>Creation\<close>, \<open>RecipeRuns\<close>
    (\<open>crates/pbox-cli/src/main.rs\<close>): the client's conversations with PVE, waiting for
    its tasks, finding boxes by the notes of their guests, starting, stopping, deleting and
    snapshotting them, creating one, and applying recipes to it. \<open>ImageRefs\<close> and
    \<open>Images\<close> (\<open>images.rs\<close>): image references, and getting an image into the
    template storage of a node.
  \<^item> \<open>FileTrees\<close>, \<open>Recipes\<close>, \<open>RecipeCache\<close>,
    \<open>RecipeLock\<close> (\<open>crates/pbox-cli/src/recipes.rs\<close>): directory trees with
    symbolic links and the resolution of paths in them; finding the recipes of a checkout;
    keeping the checkout up to date with Git and verifying it; the lock that processes
    share, as interleaved events.
  \<^item> \<open>LocalInput\<close> (\<open>sessions.rs\<close> and \<open>ssh_input.rs\<close> of
    \<open>crates/pbox-cli\<close>): the keyboard of an attached terminal.

  What the groups of lemmas show. Data: codecs round-trip, allocation is least, metadata
  edits keep the user's text. Configuration: set and unset touch one key, layers have the
  documented precedence, a save is all or nothing, secrets do not reach the redacted views.
  API client: no argument can move a request to another endpoint. Relay: tokens open one
  route for a bounded time, a client only ever meets an agent of its own box, permits are
  conserved, and the tunnel is transparent. Agent: a request of an ordinary user becomes one
  fixed sudo call; uploads are all or nothing and come back unchanged; reads end; input and
  output of a command arrive exactly; forwarding refines a pair of byte pipes. Terminal
  sessions: one live session per name and permit, a viewer sees the redraw and then exactly
  the later output, pasted text cannot leave its brackets. Boxes made from images: a request
  is filled in by a fixed order of sources, and each service has one process that is not
  restarted before its delay. Reverse forwarding: each connection carries its own bytes in
  order and no others. Client: a box is attested by its
  own notes, only a box seen stopped is destroyed, at most eight fresh VMIDs are asked for,
  the snapshot before a recipe run stays until it was used or every recipe was recorded, the
  record of a recipe is written under the digest that was read, canonical image references
  read back as themselves, and a template reported as there is there. Recipes: a discovered
  catalogue is well-formed and complete, describes a checkout that was verified, no accepted
  repository or reference changes which Git command runs, and the lock excludes as long as
  no process dies. Local input: what is typed is passed on exactly, up to the detach key.

  Conventions. What the environment does (an I/O call's outcome, the order in which tasks
  run, a timer, a message lost) is an argument: an oracle, an event list or a schedule, so a
  theorem quantifies over all of it. PVE, with everything else that changes the cluster, is
  a function from the conversation so far to the next answer (\<open>server\<close>), and an
  operation of the client a program that extends the conversation; what an operation did is
  read off the calls it added. Errors are values; a record \<open>status\<close> keeps the
  gRPC code and the text up to the part the operating system supplies. Library functions
  that are not in the repository (TOML, JSON, base64 and URL parsing, HMAC and SHA-256,
  network matching, certificate encoding), local programs (\<open>podman\<close>,
  \<open>skopeo\<close>, \<open>ansible-playbook\<close>, \<open>git\<close>) and clocks are parameters; what a proof needs of them is a
  named hypothesis with a concrete instance. All functions terminate: the loops recurse on the
  list of events they receive, except reading a file, whose measure is what is left of the
  64 MiB limit, the output loop, whose measure is the number of bytes still unread, and the
  waits of the client, which recurse on the polls that are left before their deadline
  (\<open>w_polls\<close>, given by the environment; each poll sleeps, so it is finite for every
  deadline). No fuel is used.

  Git is the environment of \<open>RecipeCache\<close>: what a command answers and what it leaves
  behind are a function of the commands before it and of the state of the cache.

  Not modelled: TLS, HTTP and gRPC transport, process creation, terminal emulation
  (\<open>vt100\<close>) and rendering; certificate encoding and key generation; the units written
  for systemd, the shutdown of a box and the terminal host of the agent; in the client, everything that only formats output,
  prompts, or runs remote commands (\<open>crates/pbox-cli\<close>: running Ansible, desktop,
  updates, completions, the SSH bootstrap of a new box, building archives with \<open>podman\<close>).
  In \<open>Files\<close> paths are compared component by component, so aliases through symbolic
  links in a parent directory or \<open>..\<close> are outside that model, and one process writes at
  a time; \<open>FileTrees\<close> follows links and \<open>..\<close>, for reading. Queues between
  tasks have no bound in \<open>ReverseForward\<close>, so a full queue that holds up a loop is not
  seen there.
\<close>

end
